(* ===== verification/Prelude.thy ===== *)
theory Prelude
  imports Main "HOL-Library.Word" "HOL-Library.Monad_Syntax" "HOL-Library.Multiset"
    "HOL-Library.Signed_Division"
begin

text \<open>
  Shared material of the development: the conventions for C pointers, handlers, \<open>memcpy\<close> and
  little-endian integers, the relational abstraction of linked lists threaded through a pool by a
  link field (singly linked \<open>chain\<close>, doubly linked \<open>dll\<close>), and the locales \<open>link_field\<close> and
  \<open>double_links\<close> that state what a link field of a pool of nodes promises.

  Conventions.
  \<^item> A pointer into a pool is an offset from the start of the pool, \<open>None\<close> is \<open>NULL\<close>.
  \<^item> A handler is an integer; \<open>-1\<close> is the invalid handler of the sources.
  \<^item> An operation that can dereference \<open>NULL\<close>, copy outside a buffer, divide by zero, abort in an
    \<open>assert\<close> or loop forever returns an \<open>option\<close>; \<open>None\<close> says that it has no defined result.
  \<^item> C division truncates: \<open>sdiv\<close> and \<open>smod\<close> on \<open>int\<close>.
\<close>

type_synonym byte = "8 word"
type_synonym handler = int
type_synonym ptr = "int option"

named_theorems frame_simps \<open>fields that an operation leaves alone\<close>

section \<open>Memory copies and little-endian integers\<close>

definition memcpy :: "byte list \<Rightarrow> nat \<Rightarrow> byte list \<Rightarrow> nat \<Rightarrow> int \<Rightarrow> byte list option" where
  "memcpy dst dpos src spos n =
     (if 0 \<le> n \<and> dpos + nat n \<le> length dst \<and> spos + nat n \<le> length src
      then Some (take dpos dst @ take (nat n) (drop spos src) @ drop (dpos + nat n) dst)
      else None)"

primrec le_bytes :: "nat \<Rightarrow> int \<Rightarrow> byte list" where
  "le_bytes 0 v = []"
| "le_bytes (Suc n) v = word_of_int (v mod 256) # le_bytes n (v div 256)"

primrec le_nat :: "byte list \<Rightarrow> nat" where
  "le_nat [] = 0"
| "le_nat (b # bs) = unat b + 256 * le_nat bs"

definition le_int :: "byte list \<Rightarrow> int" where
  "le_int bs =
     (let v = int (le_nat bs); w = 2 ^ (8 * length bs)
      in if v < w div 2 then v else v - w)"

lemma memcpy_Some [simp]:
  assumes "0 \<le> n" and "dpos + nat n \<le> length dst" and "spos + nat n \<le> length src"
  shows "memcpy dst dpos src spos n =
    Some (take dpos dst @ take (nat n) (drop spos src) @ drop (dpos + nat n) dst)"
  using assms by (simp add: memcpy_def)

lemma memcpy_length: "memcpy dst dpos src spos n = Some dst' \<Longrightarrow> length dst' = length dst"
  by (auto simp: memcpy_def split: if_splits)

lemma memcpy_negative [simp]: "n < 0 \<Longrightarrow> memcpy dst dpos src spos n = None"
  by (simp add: memcpy_def)

lemma length_le_bytes [simp]: "length (le_bytes n v) = n"
  by (induction n arbitrary: v) auto

lemma le_nat_bound: "le_nat bs < 256 ^ length bs"
proof (induction bs)
  case (Cons b bs)
  have "unat b < 256"
    using unsigned_less [of b, where ?'a = nat] by simp
  with Cons.IH have "unat b + 256 * le_nat bs < 256 + 256 * (256 ^ length bs - 1)"
    by (metis Suc_diff_1 Suc_leI add_less_le_mono less_Suc_eq_le mult_le_mono2 nat_zero_less_power_iff
        not_less_eq zero_less_numeral)
  then show ?case
    by (simp add: diff_mult_distrib2)
qed simp

lemma le_nat_le_bytes: "0 \<le> v \<Longrightarrow> int (le_nat (le_bytes n v)) = v mod 256 ^ n"
proof (induction n arbitrary: v)
  case (Suc n)
  have "int (unat (word_of_int (v mod 256) :: byte)) = v mod 256"
    by (simp add: take_bit_eq_mod unsigned_of_int)
  moreover have "int (le_nat (le_bytes n (v div 256))) = v div 256 mod 256 ^ n"
    using Suc by simp
  ultimately show ?case
    by (simp add: zmod_zmult2_eq)
qed simp

lemma le_bytes_mod: "le_bytes n (v mod 256 ^ n) = le_bytes n v"
proof (induction n arbitrary: v)
  case (Suc n)
  have "v mod (256 * 256 ^ n) div 256 = v div 256 mod 256 ^ n"
    by (simp add: zmod_zmult2_eq)
  with Suc show ?case
    by (simp add: mod_mod_cancel)
qed simp

lemma le_nat_le_bytes_any: "int (le_nat (le_bytes n v)) = v mod 256 ^ n"
  using le_nat_le_bytes [of "v mod 256 ^ n" n] by (simp add: le_bytes_mod)

lemma le_int_le_bytes:
  assumes "- (2 ^ (8 * n - 1)) \<le> v" and "v < 2 ^ (8 * n - 1)" and "0 < n"
  shows "le_int (le_bytes n v) = v"
proof -
  define w :: int where "w = 2 ^ (8 * n)"
  have w: "w = 2 * 2 ^ (8 * n - 1)"
    using assms(3) by (simp add: w_def power_eq_if)
  have "(256 :: int) ^ n = w"
    by (simp add: w_def power_mult)
  then have m: "int (le_nat (le_bytes n v)) = v mod w"
    by (simp add: le_nat_le_bytes_any)
  show ?thesis
  proof (cases "0 \<le> v")
    case True
    with assms w have "v mod w = v" by simp
    with assms w m show ?thesis by (simp add: le_int_def w_def [symmetric])
  next
    case False
    with assms w have "(v + w) mod w = v + w" by (intro mod_pos_pos_trivial) auto
    then have "v mod w = v + w" by simp
    with False assms w m show ?thesis by (simp add: le_int_def w_def [symmetric])
  qed
qed

section \<open>Lists threaded through a pool by a link field\<close>

primrec chain :: "(int \<Rightarrow> int) \<Rightarrow> int \<Rightarrow> int list \<Rightarrow> bool" where
  "chain nx h [] = (h = -1)"
| "chain nx h (x # xs) = (h = x \<and> x \<noteq> -1 \<and> chain nx (nx x) xs)"

definition first_of :: "int list \<Rightarrow> int" where
  "first_of xs = (case xs of [] \<Rightarrow> -1 | x # _ \<Rightarrow> x)"

definition last_of :: "int list \<Rightarrow> int" where
  "last_of xs = first_of (rev xs)"

definition dll :: "(int \<Rightarrow> int) \<Rightarrow> (int \<Rightarrow> int) \<Rightarrow> int \<Rightarrow> int \<Rightarrow> int list \<Rightarrow> bool" where
  "dll nx pv h t xs \<longleftrightarrow> chain nx h xs \<and> chain pv t (rev xs)"

lemma first_of_simps [simp]: "first_of [] = -1" "first_of (x # xs) = x"
  by (simp_all add: first_of_def)

lemma last_of_simps [simp]:
  "last_of [] = -1" "last_of (xs @ [x]) = x" "xs \<noteq> [] \<Longrightarrow> last_of (x # xs) = last_of xs"
  "last_of [x] = x" "last_of (rev xs) = first_of xs" "first_of (rev xs) = last_of xs"
  by (auto simp: last_of_def first_of_def split: list.splits)

lemma chain_first: "chain nx h xs \<Longrightarrow> h = first_of xs"
  by (cases xs) auto

lemma chain_invalid [simp]: "chain nx (-1) xs \<longleftrightarrow> xs = []"
  by (cases xs) auto

lemma chain_valid: "h \<noteq> -1 \<Longrightarrow> chain nx h xs \<Longrightarrow> \<exists>ys. xs = h # ys \<and> chain nx (nx h) ys"
  by (cases xs) auto

lemma chain_not_invalid: "chain nx h xs \<Longrightarrow> -1 \<notin> set xs"
  by (induction xs arbitrary: h) auto

lemma chain_append:
  "chain nx h (as @ x # bs) \<Longrightarrow> chain nx x (x # bs)"
  by (induction as arbitrary: h) auto

lemma chain_next: "chain nx h (as @ x # bs) \<Longrightarrow> nx x = first_of bs"
  by (drule chain_append) (auto dest: chain_first)

lemma chain_unique: "chain nx h xs \<Longrightarrow> chain nx h ys \<Longrightarrow> xs = ys"
proof (induction xs arbitrary: h ys)
  case (Cons x xs)
  then show ?case by (cases ys) auto
qed simp

lemma chain_distinct: "chain nx h xs \<Longrightarrow> distinct xs"
proof (induction xs arbitrary: h)
  case (Cons x xs)
  have "x \<notin> set xs"
  proof
    assume "x \<in> set xs"
    then obtain as bs where xs: "xs = as @ x # bs"
      by (auto simp: in_set_conv_decomp)
    with Cons.prems have "chain nx x (x # bs)"
      using chain_append [of nx "nx x" as x bs] by simp
    with Cons.prems xs have "x # bs = x # as @ x # bs"
      by (intro chain_unique [of nx x]) auto
    then have "length (x # bs) = length (x # as @ x # bs)" by (rule arg_cong)
    then show False by simp
  qed
  with Cons show ?case by auto
qed simp

lemma chain_upd [simp]: "u \<notin> set xs \<Longrightarrow> chain (nx(u := v)) h xs = chain nx h xs"
  by (induction xs arbitrary: h) auto

lemma chain_upd_if [simp]:
  "u \<notin> set xs \<Longrightarrow> chain (\<lambda>a. if a = u then v else nx a) h xs = chain nx h xs"
  by (induction xs arbitrary: h) auto

lemma chain_cong: "(\<And>x. x \<in> set xs \<Longrightarrow> nx x = nx' x) \<Longrightarrow> chain nx h xs = chain nx' h xs"
  by (induction xs arbitrary: h) auto

text \<open>Unlinking the middle element of a chain: the predecessor, if there is one, gets the
  successor, and the head moves if it was the element.\<close>

lemma chain_unlink:
  assumes "chain nx h (as @ x # bs)"
  shows "chain (if last_of as \<noteq> -1 then nx(last_of as := nx x) else nx)
           (if h = x then nx x else h) (as @ bs)"
proof (cases as rule: rev_cases)
  case Nil
  with assms show ?thesis by auto
next
  case (snoc as' p)
  have d: "distinct (as @ x # bs)" and "-1 \<notin> set (as @ x # bs)"
    using chain_distinct [OF assms] chain_not_invalid [OF assms] by simp_all
  have "chain (nx(p := nx x)) h (as' @ p # bs)"
    using assms d unfolding snoc
    by (induction as' arbitrary: h) auto
  moreover have "h \<noteq> x"
    using assms d snoc by (cases as') auto
  moreover have "p \<noteq> -1" using \<open>-1 \<notin> _\<close> snoc by auto
  ultimately show ?thesis using snoc by simp
qed

lemma chain_push: "x \<noteq> -1 \<Longrightarrow> x \<notin> set xs \<Longrightarrow> chain nx h xs \<Longrightarrow> chain (nx(x := h)) x (x # xs)"
  by simp

lemma chain_relink_last:
  assumes "chain nx h xs" and "x \<noteq> -1" and "x \<notin> set xs" and "nx x = -1"
  shows "chain (if last_of xs \<noteq> -1 then nx(last_of xs := x) else nx)
           (if h = -1 then x else h) (xs @ [x])"
proof (cases xs rule: rev_cases)
  case Nil
  with assms show ?thesis by auto
next
  case (snoc ys p)
  from assms have "distinct xs" and i: "-1 \<notin> set xs"
    by (auto dest: chain_distinct chain_not_invalid)
  with assms snoc have "chain (nx(p := x)) h (ys @ p # [x])"
  proof -
    have "x \<noteq> p" using assms snoc by auto
    then show ?thesis
      using assms(1) \<open>distinct xs\<close> assms(2-4) unfolding snoc
      by (induction ys arbitrary: h) auto
  qed
  moreover have "h \<noteq> -1" using assms(1) snoc by auto
  moreover have "p \<noteq> -1" using i snoc by auto
  ultimately show ?thesis using snoc by simp
qed

lemma dll_Nil [simp]: "dll nx pv h t [] \<longleftrightarrow> h = -1 \<and> t = -1"
  by (simp add: dll_def)

lemma dll_first: "dll nx pv h t xs \<Longrightarrow> h = first_of xs"
  by (auto simp: dll_def dest: chain_first)

lemma dll_last: "dll nx pv h t xs \<Longrightarrow> t = last_of xs"
  by (auto simp: dll_def dest: chain_first)

lemma dll_distinct: "dll nx pv h t xs \<Longrightarrow> distinct xs"
  by (auto simp: dll_def dest: chain_distinct)

lemma dll_not_invalid: "dll nx pv h t xs \<Longrightarrow> -1 \<notin> set xs"
  by (auto simp: dll_def dest: chain_not_invalid)

lemma dll_next: "dll nx pv h t (as @ x # bs) \<Longrightarrow> nx x = first_of bs"
  by (auto simp: dll_def dest: chain_next)

lemma dll_prev: "dll nx pv h t (as @ x # bs) \<Longrightarrow> pv x = last_of as"
  using chain_next [of pv t "rev bs" x "rev as"] by (simp add: dll_def)

lemma dll_upd [simp]:
  "u \<notin> set xs \<Longrightarrow> dll (nx(u := v)) pv h t xs = dll nx pv h t xs"
  "u \<notin> set xs \<Longrightarrow> dll nx (pv(u := v)) h t xs = dll nx pv h t xs"
  by (simp_all add: dll_def)

lemma dll_cong:
  assumes "\<And>x. x \<in> set xs \<Longrightarrow> nx x = nx' x \<and> pv x = pv' x"
  shows "dll nx pv h t xs = dll nx' pv' h t xs"
  using assms chain_cong [of xs nx nx' h] chain_cong [of "rev xs" pv pv' t] by (simp add: dll_def)

lemma dll_last_of: "dll nx pv h t xs \<Longrightarrow> dll nx pv h (last_of xs) xs"
  using dll_last by blast

lemma dll_ends:
  assumes "dll nx pv h t xs"
  shows "h \<in> set xs \<or> h = -1" and "t \<in> set xs \<or> t = -1"
proof -
  show "h \<in> set xs \<or> h = -1" using dll_first [OF assms] by (cases xs) simp_all
  show "t \<in> set xs \<or> t = -1" using dll_last [OF assms] by (cases xs rule: rev_cases) simp_all
qed

lemma dll_neighbours:
  assumes "dll nx pv h t xs" and "x \<in> set xs"
  shows "nx x \<in> set xs \<or> nx x = -1" and "pv x \<in> set xs \<or> pv x = -1"
proof -
  from assms(2) obtain as bs where xs: "xs = as @ x # bs" by (auto dest: split_list)
  show "nx x \<in> set xs \<or> nx x = -1"
    using dll_next [of nx pv h t as x bs] assms(1) xs by (cases bs) auto
  show "pv x \<in> set xs \<or> pv x = -1"
    using dll_prev [of nx pv h t as x bs] assms(1) xs by (cases as rule: rev_cases) auto
qed

lemma dll_unlink:
  assumes "dll nx pv h t (as @ x # bs)"
  shows "dll (if pv x \<noteq> -1 then nx(pv x := nx x) else nx)
             (if nx x \<noteq> -1 then pv(nx x := pv x) else pv)
             (if h = x then nx x else h) (if t = x then pv x else t) (as @ bs)"
proof -
  have "nx x = first_of bs" "pv x = last_of as"
    using assms by (simp_all add: dll_next dll_prev)
  with assms chain_unlink [of nx h as x bs] chain_unlink [of pv t "rev bs" x "rev as"]
  show ?thesis by (simp add: dll_def split del: if_split cong del: if_weak_cong)
qed

lemma dll_push_front:
  assumes "dll nx pv h t xs" and "x \<noteq> -1" and "x \<notin> set xs" and "pv x = -1"
  shows "dll (nx(x := h)) (if h \<noteq> -1 then pv(h := x) else pv) x (if t = -1 then x else t) (x # xs)"
proof -
  have "h = last_of (rev xs)" using assms by (simp add: dll_first)
  then show ?thesis
    using assms chain_relink_last [of pv t "rev xs" x] by (simp add: dll_def split del: if_split cong del: if_weak_cong)
qed

lemma dll_push_back:
  assumes "dll nx pv h t xs" and "x \<noteq> -1" and "x \<notin> set xs" and "nx x = -1"
  shows "dll (if t \<noteq> -1 then nx(t := x) else nx) (pv(x := t)) (if h = -1 then x else h) x (xs @ [x])"
proof -
  have "t = last_of xs" using assms by (simp add: dll_last)
  then show ?thesis
    using assms chain_relink_last [of nx h xs x] by (simp add: dll_def split del: if_split cong del: if_weak_cong)
qed

lemma not_in_dll:
  assumes "dll nx pv h t xs"
  shows "x \<in> set xs \<Longrightarrow> \<not> (nx x = -1 \<and> pv x = -1 \<and> h \<noteq> x \<and> t \<noteq> x)"
proof -
  assume "x \<in> set xs"
  then obtain as bs where xs: "xs = as @ x # bs" by (auto simp: in_set_conv_decomp)
  with assms have "nx x = first_of bs" "pv x = last_of as" "-1 \<notin> set xs"
    by (auto simp: dll_next dll_prev dest: dll_not_invalid)
  moreover have "h = first_of xs" using assms by (rule dll_first)
  ultimately show ?thesis
    using xs by (cases as rule: rev_cases) (simp, metis Un_iff insertI1 last_of_simps(2) list.set(2) set_append)
qed

text \<open>
  What a link field of a pool of nodes promises to the list code above it: a read after a write
  sees the value written, at the address written and nowhere else. A doubly linked list needs two
  such fields that do not disturb each other; unlinking an element and pushing one at the front
  are proved here once, for every pair of fields of every node type.
\<close>

locale link_field =
  fixes rd :: "'s \<Rightarrow> int \<Rightarrow> int"
    and wr :: "int \<Rightarrow> int \<Rightarrow> 's \<Rightarrow> 's"
  assumes rd_wr: "rd (wr a v s) = (rd s)(a := v)"
begin

lemma push_chain:
  "x \<noteq> -1 \<Longrightarrow> x \<notin> set xs \<Longrightarrow> chain (rd s) h xs \<Longrightarrow> chain (rd (wr x h s)) x (x # xs)"
  by (simp add: rd_wr)

lemma write_outside_chain: "a \<notin> set xs \<Longrightarrow> chain (rd (wr a v s)) h xs = chain (rd s) h xs"
  by (simp add: rd_wr)

lemma pop_chain: "chain (rd s) h (x # xs) \<Longrightarrow> chain (rd (wr x v s)) (rd s x) xs"
  using chain_distinct [of "rd s" h "x # xs"] by (simp add: rd_wr)

end

locale double_links = fwd: link_field rdn wrn + bwd: link_field rdp wrp
  for rdn :: "'s \<Rightarrow> int \<Rightarrow> int" and wrn :: "int \<Rightarrow> int \<Rightarrow> 's \<Rightarrow> 's"
    and rdp :: "'s \<Rightarrow> int \<Rightarrow> int" and wrp :: "int \<Rightarrow> int \<Rightarrow> 's \<Rightarrow> 's" +
  assumes rdn_wrp: "rdn (wrp a v s) = rdn s"
    and rdp_wrn: "rdp (wrn a v s) = rdp s"
begin

lemma unlink_dll:
  assumes "dll (rdn s) (rdp s) h t (as @ x # bs)"
    and "s1 = (if rdp s x \<noteq> -1 then wrn (rdp s x) (rdn s x) s else s)"
    and "s2 = (if rdn s x \<noteq> -1 then wrp (rdn s x) (rdp s x) s1 else s1)"
  shows "dll (rdn s2) (rdp s2) (if h = x then rdn s x else h) (if t = x then rdp s x else t) (as @ bs)"
proof -
  have "rdn s2 = (if rdp s x \<noteq> -1 then (rdn s)(rdp s x := rdn s x) else rdn s)"
    and "rdp s2 = (if rdn s x \<noteq> -1 then (rdp s)(rdn s x := rdp s x) else rdp s)"
    using assms(2,3) by (simp_all add: fwd.rd_wr bwd.rd_wr rdn_wrp rdp_wrn)
  with dll_unlink [OF assms(1)] show ?thesis by simp
qed

lemma clear_links_dll:
  "x \<notin> set xs \<Longrightarrow> dll (rdn (wrn x v s)) (rdp (wrn x v s)) h t xs = dll (rdn s) (rdp s) h t xs"
  "x \<notin> set xs \<Longrightarrow> dll (rdn (wrp x v s)) (rdp (wrp x v s)) h t xs = dll (rdn s) (rdp s) h t xs"
  by (simp_all add: fwd.rd_wr bwd.rd_wr rdn_wrp rdp_wrn)

lemma push_front_dll:
  assumes "dll (rdn s) (rdp s) h t xs" and "x \<noteq> -1" and "x \<notin> set xs"
    and "s1 = wrp x (-1) (wrn x h s)"
    and "s2 = (if h \<noteq> -1 then wrp h x s1 else s1)"
  shows "dll (rdn s2) (rdp s2) x (if t = -1 then x else t) (x # xs)"
proof -
  have "rdn s2 = (rdn s)(x := h)"
    and "rdp s2 = (if h \<noteq> -1 then ((rdp s)(x := -1))(h := x) else (rdp s)(x := -1))"
    using assms(4,5) by (simp_all add: fwd.rd_wr bwd.rd_wr rdn_wrp rdp_wrn)
  moreover have "dll (rdn s) ((rdp s)(x := -1)) h t xs"
    using assms(1,3) by simp
  ultimately show ?thesis
    using dll_push_front [of "rdn s" "(rdp s)(x := -1)" h t xs x] assms(2,3) by simp
qed

lemma push_back_dll:
  assumes "dll (rdn s) (rdp s) h t xs" and "x \<noteq> -1" and "x \<notin> set xs"
    and "s1 = wrn x (-1) (wrp x t s)"
    and "s2 = (if t \<noteq> -1 then wrn t x s1 else s1)"
  shows "dll (rdn s2) (rdp s2) (if h = -1 then x else h) x (xs @ [x])"
proof -
  have "rdp s2 = (rdp s)(x := t)"
    and "rdn s2 = (if t \<noteq> -1 then ((rdn s)(x := -1))(t := x) else (rdn s)(x := -1))"
    using assms(4,5) by (simp_all add: fwd.rd_wr bwd.rd_wr rdn_wrp rdp_wrn)
  moreover have "dll ((rdn s)(x := -1)) (rdp s) h t xs"
    using assms(1,3) by simp
  ultimately show ?thesis
    using dll_push_back [of "(rdn s)(x := -1)" "rdp s" h t xs x] assms(2,3) by simp
qed

end

end
