(* ===== verification/ChunkAlloc.thy ===== *)
theory ChunkAlloc
  imports Prelude
begin

text \<open>
  The chunk allocator of the shared-memory cache (\<open>cdb/tfc_cache_chunk_alloc.h\<close> and \<open>.cpp\<close>,
  class \<open>CChunkAllocator\<close>): a pool of equal chunks, a free list threaded through them, values
  stored as chains of chunks. The record \<open>CChunkAllocator\<close> holds the fields of the \<open>TChunk\<close> header
  of the pool, the nodes of the pool by their offset, and the end of the pool. All structures are
  packed (\<open>#pragma pack(1)\<close>): a chunk node is 8 bytes of \<open>next_\<close> and its data area, the header
  before the first node has 20 bytes. A member \<open>x_\<close> of the sources is the record field \<open>m_x\<close>.
\<close>

record TChunkNode =
  m_next :: handler
  m_data :: "byte list"

record CChunkAllocator =
  m_chunk_total :: int
  m_chunk_size :: int
  m_free_total :: int
  m_free_list :: handler
  m_chunk_nodes :: "int \<Rightarrow> TChunkNode"
  m_pool_tail :: int

datatype CHUNK_ALLOCATOR_ERROR =
  CHUNK_ALLOCATOR_ERROR_BASE
| CHUNK_ALLOCATOR_ERROR_INVALID_PARAM
| CHUNK_ALLOCATOR_ERROR_FREE_CHUNK_LACK
| CHUNK_ALLOCATOR_ERROR_DATA_VERIFY_FAIL

fun chunk_error_code :: "CHUNK_ALLOCATOR_ERROR \<Rightarrow> int" where
  "chunk_error_code CHUNK_ALLOCATOR_ERROR_BASE = -1"
| "chunk_error_code CHUNK_ALLOCATOR_ERROR_INVALID_PARAM = -2"
| "chunk_error_code CHUNK_ALLOCATOR_ERROR_FREE_CHUNK_LACK = -3"
| "chunk_error_code CHUNK_ALLOCATOR_ERROR_DATA_VERIFY_FAIL = -4"

section \<open>Field access\<close>

definition chunk_next :: "CChunkAllocator \<Rightarrow> int \<Rightarrow> handler" where
  "chunk_next s a = m_next (m_chunk_nodes s a)"

definition set_chunk_next :: "int \<Rightarrow> handler \<Rightarrow> CChunkAllocator \<Rightarrow> CChunkAllocator" where
  "set_chunk_next a v s = s\<lparr>m_chunk_nodes := (m_chunk_nodes s)(a := (m_chunk_nodes s a)\<lparr>m_next := v\<rparr>)\<rparr>"

definition chunk_data :: "CChunkAllocator \<Rightarrow> int \<Rightarrow> byte list" where
  "chunk_data s a = m_data (m_chunk_nodes s a)"

definition set_chunk_data :: "int \<Rightarrow> byte list \<Rightarrow> CChunkAllocator \<Rightarrow> CChunkAllocator" where
  "set_chunk_data a v s = s\<lparr>m_chunk_nodes := (m_chunk_nodes s)(a := (m_chunk_nodes s a)\<lparr>m_data := v\<rparr>)\<rparr>"

section \<open>Operations\<close>

definition chunk_head_size :: int where
  "chunk_head_size = 29 - 9" \<comment> \<open>\<open>sizeof(TChunk) - sizeof(TChunkNode)\<close>\<close>

definition get_chunk_size :: "int \<Rightarrow> int \<Rightarrow> int" where
  "get_chunk_size n_chunks chunk_size = 9 - 1 + chunk_size"

definition chunk_get_pool_size :: "int \<Rightarrow> int \<Rightarrow> int" where
  "chunk_get_pool_size n_chunks chunk_size =
     chunk_head_size + n_chunks * get_chunk_size n_chunks chunk_size"

definition chunk_handler2ptr :: "handler \<Rightarrow> ptr" where
  "chunk_handler2ptr h = (if h = -1 then None else Some h)"

definition chunk_ptr2handler :: "CChunkAllocator \<Rightarrow> ptr \<Rightarrow> handler" where
  "chunk_ptr2handler s p =
     (case p of None \<Rightarrow> -1 | Some a \<Rightarrow> if a < 0 \<or> m_pool_tail s \<le> a then -1 else a)"

definition chunk_free_list_insert :: "int \<Rightarrow> CChunkAllocator \<Rightarrow> CChunkAllocator" where
  "chunk_free_list_insert node s =
     (let s1 = set_chunk_next node (m_free_list s) s;
          node_hdr = chunk_ptr2handler s1 (Some node)
      in s1\<lparr>m_free_list := node_hdr\<rparr>)"

definition chunk_free_list_remove :: "CChunkAllocator \<Rightarrow> ptr \<times> CChunkAllocator" where
  "chunk_free_list_remove s =
     (case chunk_handler2ptr (m_free_list s) of
        None \<Rightarrow> (None, s)
      | Some head_node \<Rightarrow>
          let s1 = s\<lparr>m_free_list := chunk_next s head_node\<rparr>;
              s2 = set_chunk_next head_node (-1) s1
          in (Some head_node, s2))"

primrec chunk_malloc_loop :: "nat \<Rightarrow> ptr \<Rightarrow> CChunkAllocator \<Rightarrow> (ptr \<times> CChunkAllocator) option" where
  "chunk_malloc_loop 0 head s = Some (head, s)"
| "chunk_malloc_loop (Suc i) head s =
     (let (node, s1) = chunk_free_list_remove s;
          head_hdr = chunk_ptr2handler s1 head
      in case node of
           None \<Rightarrow> None
         | Some a \<Rightarrow> chunk_malloc_loop i (Some a) (set_chunk_next a head_hdr s1))"

definition chunk_malloc :: "int \<Rightarrow> CChunkAllocator \<Rightarrow> (handler \<times> CChunkAllocator) option" where
  "chunk_malloc chunk_num s =
     (if m_free_total s < chunk_num then Some (-1, s)
      else do {
        (head, s1) \<leftarrow> chunk_malloc_loop (nat chunk_num) None s;
        let s2 = s1\<lparr>m_free_total := m_free_total s1 - chunk_num\<rparr>;
        Some (chunk_ptr2handler s2 head, s2)
      })"

partial_function (option) chunk_free :: "handler \<Rightarrow> CChunkAllocator \<Rightarrow> CChunkAllocator option" where
  "chunk_free chunk_hdr s =
     (case chunk_handler2ptr chunk_hdr of
        None \<Rightarrow> Some s
      | Some node \<Rightarrow>
          let next_chunk_hdr = chunk_next s node;
              s1 = chunk_free_list_insert node s
          in chunk_free next_chunk_hdr (s1\<lparr>m_free_total := m_free_total s1 + 1\<rparr>))"

definition pool_bytes :: "(int \<Rightarrow> byte) \<Rightarrow> int \<Rightarrow> int \<Rightarrow> byte list" where
  "pool_bytes raw a n = map (\<lambda>i. raw (a + int i)) [0..<nat n]"

definition chunk_init_node ::
    "(int \<Rightarrow> byte) \<Rightarrow> int \<Rightarrow> int \<Rightarrow> nat \<Rightarrow> CChunkAllocator \<Rightarrow> CChunkAllocator" where
  "chunk_init_node raw n_chunks chunk_size i s =
     (let offset = int i * get_chunk_size n_chunks chunk_size;
          chunk_node = chunk_head_size + offset;
          s0 = set_chunk_data chunk_node (pool_bytes raw (chunk_node + 8) chunk_size) s;
          s1 = set_chunk_next chunk_node (-1) s0
      in chunk_free_list_insert chunk_node s1)"

definition chunk_init_pool_data ::
    "(int \<Rightarrow> byte) \<Rightarrow> int \<Rightarrow> int \<Rightarrow> CChunkAllocator \<Rightarrow> CChunkAllocator" where
  "chunk_init_pool_data raw n_chunks chunk_size s =
     (let s1 = s\<lparr>m_free_list := -1\<rparr>;
          s2 = fold (chunk_init_node raw n_chunks chunk_size) [0..<nat n_chunks] s1
      in s2\<lparr>m_chunk_total := n_chunks, m_chunk_size := chunk_size, m_free_total := n_chunks\<rparr>)"

partial_function (option) chunk_count_free :: "CChunkAllocator \<Rightarrow> ptr \<Rightarrow> int \<Rightarrow> int option" where
  "chunk_count_free s free_node free_total =
     (case free_node of
        None \<Rightarrow> Some free_total
      | Some a \<Rightarrow> chunk_count_free s (chunk_handler2ptr (chunk_next s a)) (free_total + 1))"

definition chunk_verify_pool_data :: "int \<Rightarrow> int \<Rightarrow> CChunkAllocator \<Rightarrow> int option" where
  "chunk_verify_pool_data n_chunks chunk_size s =
     (if m_chunk_size s \<noteq> chunk_size \<or> m_chunk_total s \<noteq> n_chunks
      then Some (chunk_error_code CHUNK_ALLOCATOR_ERROR_DATA_VERIFY_FAIL)
      else do {
        free_total \<leftarrow> chunk_count_free s (chunk_handler2ptr (m_free_list s)) 0;
        if free_total \<noteq> m_free_total s
        then Some (chunk_error_code CHUNK_ALLOCATOR_ERROR_DATA_VERIFY_FAIL)
        else Some 0
      })"

definition chunk_open ::
    "(int \<Rightarrow> byte) \<Rightarrow> bool \<Rightarrow> int \<Rightarrow> int \<Rightarrow> CChunkAllocator \<Rightarrow> (int \<times> CChunkAllocator) option" where
  "chunk_open raw init n_chunks chunk_size s =
     (let s1 = s\<lparr>m_pool_tail := chunk_get_pool_size n_chunks chunk_size\<rparr>
      in if init then Some (0, chunk_init_pool_data raw n_chunks chunk_size s1)
         else do {
           ret \<leftarrow> chunk_verify_pool_data n_chunks chunk_size s1;
           if ret \<noteq> 0 then Some (ret, s1) else Some (0, s1)
         })"

definition get_chunk_num :: "CChunkAllocator \<Rightarrow> int \<Rightarrow> int option" where
  "get_chunk_num s data_len =
     (if m_chunk_size s = 0 then None
      else Some ((data_len + m_chunk_size s - 1) sdiv m_chunk_size s))"

partial_function (option) chunk_merge_loop ::
    "CChunkAllocator \<Rightarrow> handler \<Rightarrow> int \<Rightarrow> nat \<Rightarrow> byte list \<Rightarrow> byte list option" where
  "chunk_merge_loop s chunk_node_hdr remain_len write_pos data_buf =
     (case chunk_handler2ptr chunk_node_hdr of
        None \<Rightarrow> Some data_buf
      | Some chunk_node \<Rightarrow>
          if remain_len < m_chunk_size s
          then memcpy data_buf write_pos (chunk_data s chunk_node) 0 remain_len
          else do {
            buf \<leftarrow> memcpy data_buf write_pos (chunk_data s chunk_node) 0 (m_chunk_size s);
            chunk_merge_loop s (chunk_next s chunk_node) (remain_len - m_chunk_size s)
              (write_pos + nat (m_chunk_size s)) buf
          })"

definition chunk_merge ::
    "CChunkAllocator \<Rightarrow> handler \<Rightarrow> int \<Rightarrow> byte list \<Rightarrow> int \<Rightarrow> (int \<times> byte list \<times> int) option" where
  "chunk_merge s chunk_node_hdr chunk_len data_buf data_len =
     (if data_len < chunk_len
      then Some (chunk_error_code CHUNK_ALLOCATOR_ERROR_INVALID_PARAM, data_buf, chunk_len)
      else do {
        buf \<leftarrow> chunk_merge_loop s chunk_node_hdr chunk_len 0 data_buf;
        Some (0, buf, chunk_len)
      })"

partial_function (option) chunk_split_loop ::
    "ptr \<Rightarrow> byte list \<Rightarrow> nat \<Rightarrow> int \<Rightarrow> CChunkAllocator \<Rightarrow> CChunkAllocator option" where
  "chunk_split_loop chunk_node data_buf read_pos remain_len s =
     (case chunk_node of
        None \<Rightarrow> Some s
      | Some a \<Rightarrow>
          if remain_len < m_chunk_size s
          then do {
            d \<leftarrow> memcpy (chunk_data s a) 0 data_buf read_pos remain_len;
            Some (set_chunk_data a d s)
          }
          else do {
            d \<leftarrow> memcpy (chunk_data s a) 0 data_buf read_pos (m_chunk_size s);
            let s1 = set_chunk_data a d s;
            chunk_split_loop (chunk_handler2ptr (chunk_next s1 a)) data_buf
              (read_pos + nat (m_chunk_size s)) (remain_len - m_chunk_size s) s1
          })"

definition chunk_split :: "handler \<Rightarrow> byte list \<Rightarrow> int \<Rightarrow> CChunkAllocator \<Rightarrow> CChunkAllocator option" where
  "chunk_split head_hdr data_buf data_len s =
     chunk_split_loop (chunk_handler2ptr head_hdr) data_buf 0 data_len s"

definition get_used_chunk_num :: "CChunkAllocator \<Rightarrow> int" where
  "get_used_chunk_num s = m_chunk_total s - m_free_total s"

definition get_free_chunk_num :: "CChunkAllocator \<Rightarrow> int" where
  "get_free_chunk_num s = m_free_total s"

section \<open>Well-formed pools\<close>

text \<open>
  \<open>chunk_offs\<close> are the offsets of the chunks. A pool is in order (\<open>alloc_ok s fs\<close>) when its end is
  where \<open>get_pool_size\<close> puts it, every chunk has a data area of \<open>chunk_size_\<close> bytes, and the free
  list of the header runs through exactly the chunks \<open>fs\<close>, whose number is \<open>free_total_\<close>.
\<close>

definition chunk_offs :: "CChunkAllocator \<Rightarrow> int list" where
  "chunk_offs s =
     map (\<lambda>i. chunk_head_size + int i * get_chunk_size (m_chunk_total s) (m_chunk_size s))
       [0..<nat (m_chunk_total s)]"

definition chunk_pool_ok :: "CChunkAllocator \<Rightarrow> bool" where
  "chunk_pool_ok s \<longleftrightarrow>
     0 < m_chunk_size s \<and> 0 \<le> m_chunk_total s \<and>
     m_pool_tail s = chunk_get_pool_size (m_chunk_total s) (m_chunk_size s) \<and>
     (\<forall>a\<in>set (chunk_offs s). length (chunk_data s a) = nat (m_chunk_size s))"

definition alloc_ok :: "CChunkAllocator \<Rightarrow> int list \<Rightarrow> bool" where
  "alloc_ok s fs \<longleftrightarrow>
     chunk_pool_ok s \<and> chain (chunk_next s) (m_free_list s) fs \<and>
     m_free_total s = int (length fs) \<and> set fs \<subseteq> set (chunk_offs s)"

text \<open>The fixed part of a pool: the numbers its layout is computed from.\<close>

definition chunk_geometry :: "CChunkAllocator \<Rightarrow> int \<times> int \<times> int" where
  "chunk_geometry s = (m_chunk_total s, m_chunk_size s, m_pool_tail s)"

definition chunk_bytes :: "CChunkAllocator \<Rightarrow> int list \<Rightarrow> byte list" where
  "chunk_bytes s xs = concat (map (chunk_data s) xs)"

lemma chunk_field_simps [simp]:
  "chunk_next (set_chunk_next a v s) = (chunk_next s)(a := v)"
  "chunk_next (set_chunk_data a d s) = chunk_next s"
  "chunk_data (set_chunk_next a v s) = chunk_data s"
  "chunk_data (set_chunk_data a d s) = (chunk_data s)(a := d)"
  "chunk_next (s\<lparr>m_free_list := h\<rparr>) = chunk_next s"
  "chunk_next (s\<lparr>m_free_total := n\<rparr>) = chunk_next s"
  "chunk_data (s\<lparr>m_free_list := h\<rparr>) = chunk_data s"
  "chunk_data (s\<lparr>m_free_total := n\<rparr>) = chunk_data s"
  by (auto simp: set_chunk_next_def set_chunk_data_def chunk_next_def chunk_data_def fun_eq_iff)

lemma chunk_header_simps [simp]:
  "m_free_list (set_chunk_next a v s) = m_free_list s"
  "m_free_list (set_chunk_data a d s) = m_free_list s"
  "m_free_total (set_chunk_next a v s) = m_free_total s"
  "m_free_total (set_chunk_data a d s) = m_free_total s"
  "m_chunk_size (set_chunk_data a d s) = m_chunk_size s"
  "m_chunk_size (set_chunk_next a v s) = m_chunk_size s"
  by (simp_all add: set_chunk_next_def set_chunk_data_def)

lemma chunk_geometry_simps [simp]:
  "chunk_geometry (set_chunk_next a v s) = chunk_geometry s"
  "chunk_geometry (set_chunk_data a d s) = chunk_geometry s"
  "chunk_geometry (s\<lparr>m_free_list := h\<rparr>) = chunk_geometry s"
  "chunk_geometry (s\<lparr>m_free_total := n\<rparr>) = chunk_geometry s"
  by (simp_all add: chunk_geometry_def set_chunk_next_def set_chunk_data_def)

lemma chunk_geometry_size: "chunk_geometry s' = chunk_geometry s \<Longrightarrow> m_chunk_size s' = m_chunk_size s"
  by (simp add: chunk_geometry_def)

lemma chunk_geometry_total: "chunk_geometry s' = chunk_geometry s \<Longrightarrow> m_chunk_total s' = m_chunk_total s"
  by (simp add: chunk_geometry_def)

lemma chunk_offs_geometry: "chunk_geometry s' = chunk_geometry s \<Longrightarrow> chunk_offs s' = chunk_offs s"
  by (simp add: chunk_geometry_def chunk_offs_def)

lemma chunk_ptr2handler_geometry:
  "chunk_geometry s' = chunk_geometry s \<Longrightarrow> chunk_ptr2handler s' = chunk_ptr2handler s"
  by (auto simp: chunk_geometry_def chunk_ptr2handler_def fun_eq_iff split: option.splits)

lemma chunk_pool_ok_geometry:
  assumes g: "chunk_geometry s' = chunk_geometry s"
    and "\<And>a. a \<in> set (chunk_offs s) \<Longrightarrow> length (chunk_data s' a) = length (chunk_data s a)"
  shows "chunk_pool_ok s' = chunk_pool_ok s"
  using assms(2) chunk_offs_geometry [OF g] g by (auto simp: chunk_pool_ok_def chunk_geometry_def)

lemma chunk_offs_update [simp]:
  "chunk_offs (set_chunk_next a v s) = chunk_offs s"
  "chunk_offs (set_chunk_data a d s) = chunk_offs s"
  "chunk_offs (s\<lparr>m_free_list := h\<rparr>) = chunk_offs s"
  "chunk_offs (s\<lparr>m_free_total := n\<rparr>) = chunk_offs s"
  by (rule chunk_offs_geometry; simp)+

lemma chunk_ptr2handler_update [simp]:
  "chunk_ptr2handler (set_chunk_next a v s) = chunk_ptr2handler s"
  "chunk_ptr2handler (set_chunk_data a d s) = chunk_ptr2handler s"
  "chunk_ptr2handler (s\<lparr>m_free_list := h\<rparr>) = chunk_ptr2handler s"
  "chunk_ptr2handler (s\<lparr>m_free_total := n\<rparr>) = chunk_ptr2handler s"
  by (rule chunk_ptr2handler_geometry; simp)+

lemma chunk_pool_ok_update [simp]:
  "chunk_pool_ok (set_chunk_next a v s) = chunk_pool_ok s"
  "chunk_pool_ok (s\<lparr>m_free_list := h\<rparr>) = chunk_pool_ok s"
  "chunk_pool_ok (s\<lparr>m_free_total := n\<rparr>) = chunk_pool_ok s"
  "length d = length (chunk_data s a) \<Longrightarrow> chunk_pool_ok (set_chunk_data a d s) = chunk_pool_ok s"
  by (rule chunk_pool_ok_geometry; simp)+

interpretation chunk_links: link_field chunk_next set_chunk_next
  by unfold_locales simp

lemma chunk_offs_distinct: "chunk_pool_ok s \<Longrightarrow> distinct (chunk_offs s)"
  by (auto simp: chunk_pool_ok_def chunk_offs_def get_chunk_size_def distinct_map inj_on_def)

lemma chunk_offs_length: "0 \<le> m_chunk_total s \<Longrightarrow> int (length (chunk_offs s)) = m_chunk_total s"
  by (simp add: chunk_offs_def)

lemma chunk_offs_range:
  assumes "chunk_pool_ok s" and "a \<in> set (chunk_offs s)"
  shows "chunk_head_size \<le> a \<and> a < m_pool_tail s"
proof -
  from assms(2) obtain i where i: "i < nat (m_chunk_total s)"
    and a: "a = chunk_head_size + int i * get_chunk_size (m_chunk_total s) (m_chunk_size s)"
    by (auto simp: chunk_offs_def)
  have pos: "0 < get_chunk_size (m_chunk_total s) (m_chunk_size s)"
    using assms(1) by (simp add: chunk_pool_ok_def get_chunk_size_def)
  have "int i * get_chunk_size (m_chunk_total s) (m_chunk_size s)
      < m_chunk_total s * get_chunk_size (m_chunk_total s) (m_chunk_size s)"
    using i pos by (intro mult_strict_right_mono) auto
  then show ?thesis
    using assms(1) a pos by (auto simp: chunk_pool_ok_def chunk_get_pool_size_def)
qed

lemma chunk_offs_valid: "chunk_pool_ok s \<Longrightarrow> a \<in> set (chunk_offs s) \<Longrightarrow> a \<noteq> -1"
  using chunk_offs_range [of s a] by (auto simp: chunk_head_size_def)

lemma chunk_ptr2handler_offs [simp]:
  "chunk_pool_ok s \<Longrightarrow> a \<in> set (chunk_offs s) \<Longrightarrow> chunk_ptr2handler s (Some a) = a"
  using chunk_offs_range [of s a] by (auto simp: chunk_ptr2handler_def chunk_head_size_def)

lemma chunk_handler2ptr_simps [simp]:
  "chunk_handler2ptr (-1) = None" "h \<noteq> -1 \<Longrightarrow> chunk_handler2ptr h = Some h"
  by (simp_all add: chunk_handler2ptr_def)

lemma chunk_handler2ptr_first [simp]:
  "chunk_pool_ok s \<Longrightarrow> set xs \<subseteq> set (chunk_offs s) \<Longrightarrow>
   chunk_ptr2handler s (chunk_handler2ptr (first_of xs)) = first_of xs"
  by (cases xs) (auto simp: chunk_offs_valid, simp add: chunk_ptr2handler_def)

section \<open>The free list: allocation and release\<close>

lemma chunk_free_list_remove_Cons:
  assumes "alloc_ok s (f # fs)"
  shows "chunk_free_list_remove s = (Some f, set_chunk_next f (-1) (s\<lparr>m_free_list := chunk_next s f\<rparr>))"
  using assms by (auto simp: alloc_ok_def chunk_free_list_remove_def)

lemma chunk_malloc_loop_correct:
  assumes "chunk_pool_ok s" and "chain (chunk_next s) (m_free_list s) fs"
    and "set fs \<subseteq> set (chunk_offs s)" and "k \<le> length fs"
    and "chain (chunk_next s) (first_of hs) hs" and "set hs \<subseteq> set (chunk_offs s)"
    and "set hs \<inter> set fs = {}"
  shows "\<exists>s'. chunk_malloc_loop k (chunk_handler2ptr (first_of hs)) s =
      Some (chunk_handler2ptr (first_of (rev (take k fs) @ hs)), s') \<and>
      chain (chunk_next s') (m_free_list s') (drop k fs) \<and>
      chain (chunk_next s') (first_of (rev (take k fs) @ hs)) (rev (take k fs) @ hs) \<and>
      (\<forall>a. a \<notin> set (take k fs) \<longrightarrow> chunk_next s' a = chunk_next s a) \<and>
      chunk_data s' = chunk_data s \<and> chunk_geometry s' = chunk_geometry s \<and>
      m_free_total s' = m_free_total s"
  using assms
proof (induction k arbitrary: s fs hs)
  case 0
  then show ?case by simp
next
  case (Suc k)
  then obtain f fs' where fs: "fs = f # fs'" by (cases fs) auto
  define s3 where "s3 = set_chunk_next f (first_of hs)
      (set_chunk_next f (-1) (s\<lparr>m_free_list := chunk_next s f\<rparr>))"
  have s3: "chunk_next s3 = (chunk_next s)(f := first_of hs)" "m_free_list s3 = chunk_next s f"
    "chunk_data s3 = chunk_data s" "chunk_geometry s3 = chunk_geometry s"
    "chunk_pool_ok s3 = chunk_pool_ok s" "chunk_offs s3 = chunk_offs s" "m_free_total s3 = m_free_total s"
    by (simp_all add: s3_def)
  have f: "m_free_list s = f" "f \<noteq> -1" "chain (chunk_next s) (chunk_next s f) fs'"
    "f \<notin> set fs'" "f \<notin> set hs"
    using Suc.prems fs chain_distinct [OF Suc.prems(2)] by auto
  have step: "chunk_malloc_loop (Suc k) (chunk_handler2ptr (first_of hs)) s =
      chunk_malloc_loop k (chunk_handler2ptr (first_of (f # hs))) s3"
    using f Suc.prems by (simp add: chunk_free_list_remove_def s3_def)
  have p: "chunk_pool_ok s3" "chain (chunk_next s3) (m_free_list s3) fs'"
    "set fs' \<subseteq> set (chunk_offs s3)" "k \<le> length fs'"
    "chain (chunk_next s3) (first_of (f # hs)) (f # hs)" "set (f # hs) \<subseteq> set (chunk_offs s3)"
    "set (f # hs) \<inter> set fs' = {}"
    using Suc.prems f fs by (simp_all add: s3)
  show ?case
    unfolding step using Suc.IH [OF p] fs by (auto simp: s3)
qed

lemma chunk_malloc_correct:
  assumes "alloc_ok s fs" and "0 \<le> n" and "n \<le> int (length fs)"
  defines "xs \<equiv> rev (take (nat n) fs)"
  shows "\<exists>s'. chunk_malloc n s = Some (first_of xs, s') \<and>
      alloc_ok s' (drop (nat n) fs) \<and> chain (chunk_next s') (first_of xs) xs \<and>
      (\<forall>a. a \<notin> set xs \<longrightarrow> chunk_next s' a = chunk_next s a) \<and>
      chunk_data s' = chunk_data s \<and> chunk_geometry s' = chunk_geometry s"
proof -
  have *: "chunk_pool_ok s" "chain (chunk_next s) (m_free_list s) fs" "set fs \<subseteq> set (chunk_offs s)"
    "m_free_total s = int (length fs)"
    using assms by (auto simp: alloc_ok_def)
  have "nat n \<le> length fs" using assms(3) by simp
  with chunk_malloc_loop_correct [of s fs "nat n" "[]"] * obtain s1 where
    s1: "chunk_malloc_loop (nat n) None s = Some (chunk_handler2ptr (first_of xs), s1)"
      "chain (chunk_next s1) (m_free_list s1) (drop (nat n) fs)"
      "chain (chunk_next s1) (first_of xs) xs"
      "\<forall>a. a \<notin> set xs \<longrightarrow> chunk_next s1 a = chunk_next s a"
      "chunk_data s1 = chunk_data s" "chunk_geometry s1 = chunk_geometry s"
      "m_free_total s1 = m_free_total s"
    by (auto simp: xs_def)
  have xs: "set xs \<subseteq> set (chunk_offs s)" and dr: "set (drop (nat n) fs) \<subseteq> set (chunk_offs s)"
    using * set_take_subset [of "nat n" fs] set_drop_subset [of "nat n" fs] by (auto simp: xs_def)
  have ok: "chunk_pool_ok s1"
    using chunk_pool_ok_geometry [OF s1(6)] s1(5) *(1) by simp
  note laws = chunk_offs_geometry [OF s1(6)] chunk_ptr2handler_geometry [OF s1(6)]
  have "chunk_malloc n s = Some (first_of xs, s1\<lparr>m_free_total := m_free_total s1 - n\<rparr>)"
    using s1 * assms(3) xs laws by (simp add: chunk_malloc_def)
  moreover have "alloc_ok (s1\<lparr>m_free_total := m_free_total s1 - n\<rparr>) (drop (nat n) fs)"
    using s1 * assms(2,3) dr ok laws by (auto simp: alloc_ok_def)
  ultimately show ?thesis using s1 by auto
qed

lemma chunk_malloc_lack: "m_free_total s < n \<Longrightarrow> chunk_malloc n s = Some (-1, s)"
  by (simp add: chunk_malloc_def)

lemma chunk_free_correct:
  assumes "alloc_ok s fs" and "chain (chunk_next s) h xs"
    and "set xs \<subseteq> set (chunk_offs s)" and "set xs \<inter> set fs = {}"
  shows "\<exists>s'. chunk_free h s = Some s' \<and> alloc_ok s' (rev xs @ fs) \<and>
      (\<forall>a. a \<notin> set xs \<longrightarrow> chunk_next s' a = chunk_next s a) \<and>
      chunk_data s' = chunk_data s \<and> chunk_geometry s' = chunk_geometry s"
  using assms
proof (induction xs arbitrary: h s fs)
  case Nil
  then show ?case by (simp add: chunk_free.simps)
next
  case (Cons x xs)
  define s1 where "s1 = chunk_free_list_insert x s"
  define s2 where "s2 = s1\<lparr>m_free_total := m_free_total s1 + 1\<rparr>"
  have x: "h = x" "x \<noteq> -1" "chain (chunk_next s) (chunk_next s x) xs" "x \<notin> set xs" "x \<notin> set fs"
    "x \<in> set (chunk_offs s)"
    using Cons.prems chain_distinct [OF Cons.prems(2)] by auto
  have s1: "s1 = (set_chunk_next x (m_free_list s) s)\<lparr>m_free_list := x\<rparr>"
    using x Cons.prems(1) by (simp add: s1_def chunk_free_list_insert_def alloc_ok_def)
  have "alloc_ok s2 (x # fs)"
    using x Cons.prems(1) by (auto simp: alloc_ok_def s2_def s1)
  moreover have "chain (chunk_next s2) (chunk_next s x) xs" "set xs \<subseteq> set (chunk_offs s2)"
    "set xs \<inter> set (x # fs) = {}"
    using x Cons.prems by (auto simp: s2_def s1)
  ultimately have "\<exists>s'. chunk_free (chunk_next s x) s2 = Some s' \<and> alloc_ok s' (rev xs @ x # fs) \<and>
      (\<forall>a. a \<notin> set xs \<longrightarrow> chunk_next s' a = chunk_next s2 a) \<and>
      chunk_data s' = chunk_data s2 \<and> chunk_geometry s' = chunk_geometry s2"
    by (rule Cons.IH)
  moreover have "chunk_free h s = chunk_free (chunk_next s x) s2"
    using x by (subst chunk_free.simps) (simp add: s1_def s2_def Let_def)
  ultimately show ?case by (auto simp: s2_def s1)
qed

section \<open>Storing and fetching values\<close>

lemma chunk_bytes_simps [simp]:
  "chunk_bytes s [] = []" "chunk_bytes s (x # xs) = chunk_data s x @ chunk_bytes s xs"
  by (simp_all add: chunk_bytes_def)

lemma chunk_bytes_length:
  "chunk_pool_ok s \<Longrightarrow> set xs \<subseteq> set (chunk_offs s) \<Longrightarrow>
   length (chunk_bytes s xs) = length xs * nat (m_chunk_size s)"
  by (induction xs) (auto simp: chunk_pool_ok_def)

lemma chunk_bytes_cong:
  "(\<And>a. a \<in> set xs \<Longrightarrow> chunk_data s' a = chunk_data s a) \<Longrightarrow> chunk_bytes s' xs = chunk_bytes s xs"
  by (induction xs) auto

lemma chunk_split_loop_correct:
  assumes "chunk_pool_ok s" and "chain (chunk_next s) h xs" and "set xs \<subseteq> set (chunk_offs s)"
    and "0 \<le> r" and "pos + nat r \<le> length buf"
  shows "\<exists>s'. chunk_split_loop (chunk_handler2ptr h) buf pos r s = Some s' \<and>
      chunk_next s' = chunk_next s \<and> chunk_geometry s' = chunk_geometry s \<and> chunk_pool_ok s' \<and>
      m_free_list s' = m_free_list s \<and> m_free_total s' = m_free_total s \<and>
      (\<forall>a. a \<notin> set xs \<longrightarrow> chunk_data s' a = chunk_data s a) \<and>
      (nat r \<le> length xs * nat (m_chunk_size s) \<longrightarrow>
         take (nat r) (chunk_bytes s' xs) = take (nat r) (drop pos buf))"
  using assms
proof (induction xs arbitrary: h s r pos)
  case Nil
  then show ?case by (simp add: chunk_split_loop.simps)
next
  case (Cons x xs)
  let ?c = "m_chunk_size s"
  have x: "h = x" "x \<noteq> -1" "chain (chunk_next s) (chunk_next s x) xs" "x \<notin> set xs"
    "x \<in> set (chunk_offs s)" "set xs \<subseteq> set (chunk_offs s)"
    using Cons.prems chain_distinct [OF Cons.prems(2)] by auto
  have c: "0 < ?c" and len: "length (chunk_data s x) = nat ?c"
    using Cons.prems(1) x(5) by (auto simp: chunk_pool_ok_def)
  show ?case
  proof (cases "r < ?c")
    case True
    define d where "d = take (nat r) (drop pos buf) @ drop (nat r) (chunk_data s x)"
    have "length d = length (chunk_data s x)"
      using True Cons.prems(4,5) len by (simp add: d_def)
    moreover have "chunk_split_loop (chunk_handler2ptr h) buf pos r s = Some (set_chunk_data x d s)"
      using True x len Cons.prems(4,5) by (simp add: chunk_split_loop.simps d_def)
    moreover have "nat r \<le> length (drop pos buf)" using Cons.prems(4,5) by simp
    ultimately show ?thesis using Cons.prems(1) x by (simp add: d_def)
  next
    case False
    define d where "d = take (nat ?c) (drop pos buf)"
    define s1 where "s1 = set_chunk_data x d s"
    have r: "nat r = nat ?c + nat (r - ?c)" using False c by simp
    have d: "length d = nat ?c" using r Cons.prems(5) by (simp add: d_def)
    have ih: "chunk_pool_ok s1" "chain (chunk_next s1) (chunk_next s x) xs"
      "set xs \<subseteq> set (chunk_offs s1)" "0 \<le> r - ?c" "pos + nat ?c + nat (r - ?c) \<le> length buf"
      using Cons.prems x d len False r by (auto simp: s1_def)
    have step: "chunk_split_loop (chunk_handler2ptr h) buf pos r s =
        chunk_split_loop (chunk_handler2ptr (chunk_next s x)) buf (pos + nat ?c) (r - ?c) s1"
      using False x len c d r Cons.prems(5)
      by (subst chunk_split_loop.simps) (simp add: s1_def d_def)
    have "take (nat r) (drop pos buf) = d @ take (nat (r - ?c)) (drop (pos + nat ?c) buf)"
      unfolding r by (simp add: d_def take_add add.commute)
    then show ?thesis
      unfolding step using Cons.IH [OF ih] x r d
      by (auto simp: s1_def)
  qed
qed

lemma chunk_split_correct:
  assumes "alloc_ok s fs" and "chain (chunk_next s) h xs" and "set xs \<subseteq> set (chunk_offs s)"
    and "length buf \<le> length xs * nat (m_chunk_size s)"
  shows "\<exists>s'. chunk_split h buf (int (length buf)) s = Some s' \<and> alloc_ok s' fs \<and>
      chunk_next s' = chunk_next s \<and> chunk_geometry s' = chunk_geometry s \<and>
      (\<forall>a. a \<notin> set xs \<longrightarrow> chunk_data s' a = chunk_data s a) \<and>
      take (length buf) (chunk_bytes s' xs) = buf"
proof -
  from chunk_split_loop_correct [of s h xs "int (length buf)" 0 buf] assms obtain s' where
    s': "chunk_split h buf (int (length buf)) s = Some s'" "chunk_next s' = chunk_next s"
      "chunk_geometry s' = chunk_geometry s" "chunk_pool_ok s'" "m_free_list s' = m_free_list s"
      "m_free_total s' = m_free_total s" "\<forall>a. a \<notin> set xs \<longrightarrow> chunk_data s' a = chunk_data s a"
      "take (length buf) (chunk_bytes s' xs) = buf"
    by (auto simp: chunk_split_def alloc_ok_def)
  moreover have "alloc_ok s' fs"
    using s' assms(1) chunk_offs_geometry [OF s'(3)] by (simp add: alloc_ok_def)
  ultimately show ?thesis by blast
qed

lemma chunk_merge_loop_correct:
  assumes "chunk_pool_ok s" and "chain (chunk_next s) h xs" and "set xs \<subseteq> set (chunk_offs s)"
    and "0 \<le> r" and "pos + nat r \<le> length buf"
  defines "b \<equiv> take (nat r) (chunk_bytes s xs)"
  shows "chunk_merge_loop s h r pos buf = Some (take pos buf @ b @ drop (pos + length b) buf)"
  using assms(2-5) unfolding b_def
proof (induction xs arbitrary: h r pos buf)
  case Nil
  then show ?case by (simp add: chunk_merge_loop.simps)
next
  case (Cons x xs)
  let ?c = "m_chunk_size s"
  have x: "h = x" "x \<noteq> -1" "chain (chunk_next s) (chunk_next s x) xs"
    "x \<in> set (chunk_offs s)" "set xs \<subseteq> set (chunk_offs s)"
    using Cons.prems by auto
  have c: "0 < ?c" and len: "length (chunk_data s x) = nat ?c"
    using assms(1) x(4) by (auto simp: chunk_pool_ok_def)
  show ?case
  proof (cases "r < ?c")
    case True
    then show ?thesis
      using x len Cons.prems(3,4) by (simp add: chunk_merge_loop.simps min_def)
  next
    case False
    define buf1 where "buf1 = take pos buf @ chunk_data s x @ drop (pos + nat ?c) buf"
    have r: "nat r = nat ?c + nat (r - ?c)" using False c by simp
    have step: "chunk_merge_loop s h r pos buf =
        chunk_merge_loop s (chunk_next s x) (r - ?c) (pos + nat ?c) buf1"
      using False x len c r Cons.prems(4)
      by (subst chunk_merge_loop.simps) (simp add: buf1_def)
    have "length buf1 = length buf" "take (pos + nat ?c) buf1 = take pos buf @ chunk_data s x"
      "\<And>k. drop (pos + nat ?c + k) buf1 = drop (pos + nat ?c + k) buf"
      using r Cons.prems(4) len by (simp_all add: buf1_def add.commute add.left_commute)
    then show ?thesis
      unfolding step using Cons.IH [of "chunk_next s x" "r - ?c" "pos + nat ?c" buf1] x r Cons.prems(4) False len
      by (simp add: add.assoc)
  qed
qed

lemma chunk_merge_correct:
  assumes "chunk_pool_ok s" and "chain (chunk_next s) h xs" and "set xs \<subseteq> set (chunk_offs s)"
    and "0 \<le> n" and "n \<le> data_len" and "data_len = int (length buf)"
    and "nat n \<le> length xs * nat (m_chunk_size s)"
  shows "chunk_merge s h n buf data_len =
    Some (0, take (nat n) (chunk_bytes s xs) @ drop (nat n) buf, n)"
proof -
  have "length (take (nat n) (chunk_bytes s xs)) = nat n"
    using assms by (simp add: chunk_bytes_length)
  then show ?thesis
    using assms chunk_merge_loop_correct [of s h xs n 0 buf] by (simp add: chunk_merge_def)
qed

lemma chunk_merge_short:
  "data_len < n \<Longrightarrow> chunk_merge s h n buf data_len = Some (-2, buf, n)"
  by (simp add: chunk_merge_def)

section \<open>How many chunks a value needs\<close>

definition chunks_for :: "int \<Rightarrow> int \<Rightarrow> int" where
  "chunks_for c n = (n + c - 1) div c"

lemma chunks_for_bounds:
  assumes "0 < c" and "0 \<le> n"
  shows "n \<le> chunks_for c n * c" and "(chunks_for c n - 1) * c < n \<or> n = 0" and "0 \<le> chunks_for c n"
    and "chunks_for c n = 0 \<longleftrightarrow> n = 0"
proof -
  have m: "(n + c - 1) div c * c + (n + c - 1) mod c = n + c - 1" by simp
  have b: "0 \<le> (n + c - 1) mod c" "(n + c - 1) mod c < c" using assms by simp_all
  show 1: "n \<le> chunks_for c n * c" unfolding chunks_for_def using m b by linarith
  show 2: "(chunks_for c n - 1) * c < n \<or> n = 0"
    unfolding chunks_for_def left_diff_distrib using m b assms by linarith
  show 3: "0 \<le> chunks_for c n" using assms by (simp add: chunks_for_def pos_imp_zdiv_nonneg_iff)
  show "chunks_for c n = 0 \<longleftrightarrow> n = 0"
    using 1 assms by (auto simp: chunks_for_def div_pos_pos_trivial)
qed

lemma get_chunk_num_nonneg:
  assumes "0 < m_chunk_size s" and "0 \<le> n"
  shows "get_chunk_num s n = Some (chunks_for (m_chunk_size s) n)"
  using assms by (auto simp: get_chunk_num_def chunks_for_def signed_divide_int_def sgn_if)

lemma chunks_for_nat:
  assumes "0 < c" and "0 \<le> n" and "int (length xs) = chunks_for c n"
  shows "nat n \<le> length xs * nat c"
proof -
  have "n \<le> int (length xs) * c" using chunks_for_bounds(1) [OF assms(1,2)] assms(3) by simp
  then have "nat n \<le> nat (int (length xs) * c)" by simp
  then show ?thesis using assms(1) by (simp add: nat_mult_distrib)
qed

section \<open>Initialisation and verification\<close>

lemma chunk_init_fold:
  fixes raw n c
  defines "off \<equiv> \<lambda>i. chunk_head_size + int i * get_chunk_size n c"
  assumes "0 < c" and "k \<le> nat n" and "m_pool_tail s = chunk_get_pool_size n c" and "m_free_list s = -1"
  defines "s' \<equiv> fold (chunk_init_node raw n c) [0..<k] s"
  shows "chain (chunk_next s') (m_free_list s') (rev (map off [0..<k])) \<and>
     (\<forall>i<k. length (chunk_data s' (off i)) = nat c) \<and> m_pool_tail s' = m_pool_tail s"
  using assms(3) unfolding s'_def
proof (induction k)
  case 0
  then show ?case using assms by simp
next
  case (Suc k)
  define t where "t = fold (chunk_init_node raw n c) [0..<k] s"
  have ih: "chain (chunk_next t) (m_free_list t) (rev (map off [0..<k]))"
    "\<forall>i<k. length (chunk_data t (off i)) = nat c" "m_pool_tail t = m_pool_tail s"
    using Suc by (auto simp: t_def)
  have pos: "0 < get_chunk_size n c" using assms(2) by (simp add: get_chunk_size_def)
  have "int k * get_chunk_size n c < n * get_chunk_size n c"
    using Suc.prems pos by (intro mult_strict_right_mono) auto
  moreover have "0 \<le> int k * get_chunk_size n c" using pos by simp
  ultimately have rng: "0 \<le> off k" "off k < m_pool_tail s" "off k \<noteq> -1"
    using assms(4) by (simp_all add: off_def chunk_head_size_def chunk_get_pool_size_def)
  have new: "off k \<notin> set (rev (map off [0..<k]))" and inj: "\<forall>i<k. off i \<noteq> off k"
    using pos by (auto simp: off_def)
  have "chunk_init_node raw n c k t = (set_chunk_next (off k) (m_free_list t)
     (set_chunk_next (off k) (-1) (set_chunk_data (off k) (pool_bytes raw (off k + 8) c) t)))\<lparr>m_free_list := off k\<rparr>"
    using rng ih(3)
    by (simp add: chunk_init_node_def chunk_free_list_insert_def chunk_ptr2handler_def off_def
        set_chunk_next_def set_chunk_data_def Let_def)
  then have u: "chunk_next (chunk_init_node raw n c k t) = (chunk_next t)(off k := m_free_list t)"
    "chunk_data (chunk_init_node raw n c k t) = (chunk_data t)(off k := pool_bytes raw (off k + 8) c)"
    "m_free_list (chunk_init_node raw n c k t) = off k"
    "m_pool_tail (chunk_init_node raw n c k t) = m_pool_tail t"
    by (simp_all add: set_chunk_next_def set_chunk_data_def chunk_next_def chunk_data_def fun_eq_iff)
  have "fold (chunk_init_node raw n c) [0..<Suc k] s = chunk_init_node raw n c k t"
    by (simp add: t_def)
  moreover have "length (pool_bytes raw (off k + 8) c) = nat c" by (simp add: pool_bytes_def)
  ultimately show ?case
    using ih new inj rng by (auto simp: u less_Suc_eq)
qed

lemma chunk_init_correct:
  fixes raw s
  assumes "0 < c" and "0 \<le> n"
  defines "s' \<equiv> chunk_init_pool_data raw n c (s\<lparr>m_pool_tail := chunk_get_pool_size n c\<rparr>)"
  shows "alloc_ok s' (rev (chunk_offs s'))" and "m_chunk_total s' = n" and "m_chunk_size s' = c"
proof -
  define off where "off = (\<lambda>i. chunk_head_size + int i * get_chunk_size n c)"
  define t where "t = fold (chunk_init_node raw n c) [0..<nat n]
     (s\<lparr>m_pool_tail := chunk_get_pool_size n c, m_free_list := -1\<rparr>)"
  have t: "chain (chunk_next t) (m_free_list t) (rev (map off [0..<nat n]))"
    "\<forall>i<nat n. length (chunk_data t (off i)) = nat c" "m_pool_tail t = chunk_get_pool_size n c"
    using chunk_init_fold [of c "nat n" n "s\<lparr>m_pool_tail := chunk_get_pool_size n c, m_free_list := -1\<rparr>" raw]
      assms(1) by (simp_all add: t_def off_def)
  have s': "s' = t\<lparr>m_chunk_total := n, m_chunk_size := c, m_free_total := n\<rparr>"
    by (simp add: s'_def chunk_init_pool_data_def t_def)
  show "m_chunk_total s' = n" "m_chunk_size s' = c" by (simp_all add: s')
  have offs: "chunk_offs s' = map off [0..<nat n]" by (simp add: chunk_offs_def s' off_def)
  have "chunk_next s' = chunk_next t" "chunk_data s' = chunk_data t"
    by (simp_all add: s' chunk_next_def chunk_data_def fun_eq_iff)
  moreover have "chunk_pool_ok s'"
    using t(2,3) assms(1,2) \<open>chunk_data s' = chunk_data t\<close> offs by (auto simp: chunk_pool_ok_def s')
  ultimately show "alloc_ok s' (rev (chunk_offs s'))"
    using t(1) assms(2) offs by (simp add: alloc_ok_def s')
qed

lemma chunk_count_free_chain:
  "chain (chunk_next s) h xs \<Longrightarrow>
   chunk_count_free s (chunk_handler2ptr h) n = Some (n + int (length xs))"
  by (induction xs arbitrary: h n) (auto simp: chunk_count_free.simps)

lemma chunk_count_free_returns:
  assumes "chunk_count_free s (chunk_handler2ptr h) n = Some m"
  shows "\<exists>xs. chain (chunk_next s) h xs \<and> m = n + int (length xs)"
proof -
  have "\<forall>h. p = chunk_handler2ptr h \<longrightarrow> (\<exists>xs. chain (chunk_next s) h xs \<and> m = n + int (length xs))"
    if "chunk_count_free s p n = Some m" for p n m
  proof (rule chunk_count_free.raw_induct [where P = "\<lambda>s p n m. \<forall>h. p = chunk_handler2ptr h \<longrightarrow>
        (\<exists>xs. chain (chunk_next s) h xs \<and> m = n + int (length xs))", OF _ that])
    fix f s p n m
    assume IH: "\<And>s p n m. f s p n = Some m \<Longrightarrow>
        \<forall>h. p = chunk_handler2ptr h \<longrightarrow> (\<exists>xs. chain (chunk_next s) h xs \<and> m = n + int (length xs))"
      and eq: "(case p of None \<Rightarrow> Some n
          | Some a \<Rightarrow> f s (chunk_handler2ptr (chunk_next s a)) (n + 1)) = Some m"
    show "\<forall>h. p = chunk_handler2ptr h \<longrightarrow> (\<exists>xs. chain (chunk_next s) h xs \<and> m = n + int (length xs))"
    proof (intro allI impI)
      fix h assume p: "p = chunk_handler2ptr h"
      show "\<exists>xs. chain (chunk_next s) h xs \<and> m = n + int (length xs)"
      proof (cases "h = -1")
        case True
        with p eq show ?thesis by (intro exI [of _ "[]"]) auto
      next
        case False
        with p eq IH obtain xs where "chain (chunk_next s) (chunk_next s h) xs" "m = n + 1 + int (length xs)"
          by force
        with False show ?thesis by (intro exI [of _ "h # xs"]) auto
      qed
    qed
  qed
  with assms show ?thesis by blast
qed

lemma chunk_count_free_iff:
  "chunk_count_free s (chunk_handler2ptr h) 0 = Some m \<longleftrightarrow>
   (\<exists>xs. chain (chunk_next s) h xs \<and> int (length xs) = m)"
proof
  assume "chunk_count_free s (chunk_handler2ptr h) 0 = Some m"
  from chunk_count_free_returns [OF this] show "\<exists>xs. chain (chunk_next s) h xs \<and> int (length xs) = m" by auto
next
  assume "\<exists>xs. chain (chunk_next s) h xs \<and> int (length xs) = m"
  then obtain xs where "chain (chunk_next s) h xs" "int (length xs) = m" by blast
  with chunk_count_free_chain [of s h xs 0] show "chunk_count_free s (chunk_handler2ptr h) 0 = Some m" by simp
qed

section \<open>The contract with the hash map\<close>

text \<open>
  What the hash map relies on: a value of \<open>d\<close> bytes sits in the chain \<open>xs\<close> that starts at \<open>h\<close>
  (\<open>holds_value\<close>); taking chunks from the free list, filling them and giving them back keep every
  value that lives elsewhere.
\<close>

definition holds_value :: "(int \<Rightarrow> int) \<Rightarrow> (int \<Rightarrow> byte list) \<Rightarrow> int \<Rightarrow> int list \<Rightarrow> byte list \<Rightarrow> bool" where
  "holds_value nx dat h xs d \<longleftrightarrow>
     chain nx h xs \<and> length d \<le> length (concat (map dat xs)) \<and> take (length d) (concat (map dat xs)) = d"

lemma holds_value_frame:
  assumes "holds_value nx dat h xs d" and "\<And>a. a \<in> set xs \<Longrightarrow> nx' a = nx a" and "\<And>a. a \<in> set xs \<Longrightarrow> dat' a = dat a"
  shows "holds_value nx' dat' h xs d"
proof -
  have "map dat' xs = map dat xs" "chain nx' h xs = chain nx h xs"
    using assms(2,3) by (simp, intro chain_cong)
  with assms(1) show ?thesis by (simp only: holds_value_def)
qed

locale chunk_store =
  fixes ok :: "'s \<Rightarrow> int list \<Rightarrow> bool"
    and area :: "'s \<Rightarrow> int list"
    and link :: "'s \<Rightarrow> int \<Rightarrow> int"
    and dat :: "'s \<Rightarrow> int \<Rightarrow> byte list"
    and csize :: "'s \<Rightarrow> int"
    and alloc :: "int \<Rightarrow> 's \<Rightarrow> (int \<times> 's) option"
    and release :: "int \<Rightarrow> 's \<Rightarrow> 's option"
    and store :: "int \<Rightarrow> byte list \<Rightarrow> int \<Rightarrow> 's \<Rightarrow> 's option"
  assumes area_valid: "ok s fs \<Longrightarrow> -1 \<notin> set (area s) \<and> set fs \<subseteq> set (area s)"
    and alloc_law: "ok s fs \<Longrightarrow> 0 \<le> n \<Longrightarrow> n \<le> int (length fs) \<Longrightarrow>
      \<exists>s'. alloc n s = Some (first_of (rev (take (nat n) fs)), s') \<and> ok s' (drop (nat n) fs) \<and>
        chain (link s') (first_of (rev (take (nat n) fs))) (rev (take (nat n) fs)) \<and>
        (\<forall>a. a \<notin> set (take (nat n) fs) \<longrightarrow> link s' a = link s a) \<and> dat s' = dat s \<and>
        area s' = area s \<and> csize s' = csize s"
    and release_law: "ok s fs \<Longrightarrow> chain (link s) h xs \<Longrightarrow> set xs \<subseteq> set (area s) \<Longrightarrow> set xs \<inter> set fs = {} \<Longrightarrow>
      \<exists>s'. release h s = Some s' \<and> ok s' (rev xs @ fs) \<and>
        (\<forall>a. a \<notin> set xs \<longrightarrow> link s' a = link s a) \<and> dat s' = dat s \<and>
        area s' = area s \<and> csize s' = csize s"
    and store_law: "ok s fs \<Longrightarrow> chain (link s) h xs \<Longrightarrow> set xs \<subseteq> set (area s) \<Longrightarrow>
      length d \<le> length xs * nat (csize s) \<Longrightarrow>
      \<exists>s'. store h d (int (length d)) s = Some s' \<and> ok s' fs \<and> link s' = link s \<and>
        (\<forall>a. a \<notin> set xs \<longrightarrow> dat s' a = dat s a) \<and> area s' = area s \<and> csize s' = csize s \<and>
        holds_value (link s') (dat s') h xs d"
begin

lemma alloc_store:
  assumes "ok s fs" and "0 \<le> n" and "n \<le> int (length fs)" and "length d \<le> nat n * nat (csize s)"
  defines "xs \<equiv> rev (take (nat n) fs)"
  shows "\<exists>s1 s2. alloc n s = Some (first_of xs, s1) \<and> store (first_of xs) d (int (length d)) s1 = Some s2 \<and>
    ok s1 (drop (nat n) fs) \<and> ok s2 (drop (nat n) fs) \<and> holds_value (link s2) (dat s2) (first_of xs) xs d \<and>
    area s2 = area s \<and> csize s2 = csize s \<and>
    (\<forall>a. a \<notin> set xs \<longrightarrow> link s2 a = link s a \<and> dat s2 a = dat s a)"
proof -
  from alloc_law [OF assms(1-3)] obtain s1 where
    s1: "alloc n s = Some (first_of xs, s1)" "ok s1 (drop (nat n) fs)" "chain (link s1) (first_of xs) xs"
      "\<forall>a. a \<notin> set xs \<longrightarrow> link s1 a = link s a" "dat s1 = dat s" "area s1 = area s" "csize s1 = csize s"
    by (auto simp: xs_def)
  have "set xs \<subseteq> set (area s1)"
    using area_valid [OF assms(1)] s1(6) set_take_subset [of "nat n" fs] by (auto simp: xs_def)
  moreover have "length d \<le> length xs * nat (csize s1)"
  proof -
    have "nat n \<le> length fs" using assms(3) by simp
    then show ?thesis using assms(4) s1(7) by (simp add: xs_def min_absorb2)
  qed
  ultimately obtain s2 where "store (first_of xs) d (int (length d)) s1 = Some s2" "ok s2 (drop (nat n) fs)"
    "link s2 = link s1" "\<forall>a. a \<notin> set xs \<longrightarrow> dat s2 a = dat s1 a" "area s2 = area s1" "csize s2 = csize s1"
    "holds_value (link s2) (dat s2) (first_of xs) xs d"
    using store_law [OF s1(2,3)] by blast
  with s1 show ?thesis by (intro exI [of _ s1] exI [of _ s2]) simp
qed

lemma release_keeps:
  assumes "ok s fs" and "chain (link s) h xs" and "set xs \<subseteq> set (area s)" and "set xs \<inter> set fs = {}"
    and "holds_value (link s) (dat s) h' ys d" and "set ys \<inter> set xs = {}"
    and "release h s = Some s'"
  shows "holds_value (link s') (dat s') h' ys d"
  using release_law [OF assms(1-4)] assms(5-7) by (auto intro: holds_value_frame)

end

interpretation cs: chunk_store alloc_ok chunk_offs chunk_next chunk_data m_chunk_size
  chunk_malloc chunk_free chunk_split
proof unfold_locales
  fix s fs
  assume "alloc_ok s fs"
  then show "-1 \<notin> set (chunk_offs s) \<and> set fs \<subseteq> set (chunk_offs s)"
    using chunk_offs_valid [of s "-1"] by (auto simp: alloc_ok_def)
next
  fix s fs n
  assume "alloc_ok s fs" "0 \<le> n" "n \<le> int (length fs)"
  from chunk_malloc_correct [OF this] obtain s' where
    s': "chunk_malloc n s = Some (first_of (rev (take (nat n) fs)), s')" "alloc_ok s' (drop (nat n) fs)"
      "chain (chunk_next s') (first_of (rev (take (nat n) fs))) (rev (take (nat n) fs))"
      "\<forall>a. a \<notin> set (take (nat n) fs) \<longrightarrow> chunk_next s' a = chunk_next s a" "chunk_data s' = chunk_data s"
      "chunk_geometry s' = chunk_geometry s"
    unfolding set_rev by blast
  then show "\<exists>s'. chunk_malloc n s = Some (first_of (rev (take (nat n) fs)), s') \<and> alloc_ok s' (drop (nat n) fs) \<and>
        chain (chunk_next s') (first_of (rev (take (nat n) fs))) (rev (take (nat n) fs)) \<and>
        (\<forall>a. a \<notin> set (take (nat n) fs) \<longrightarrow> chunk_next s' a = chunk_next s a) \<and> chunk_data s' = chunk_data s \<and>
        chunk_offs s' = chunk_offs s \<and> m_chunk_size s' = m_chunk_size s"
    using chunk_geometry_size [OF s'(6)] chunk_offs_geometry [OF s'(6)] by blast
next
  fix s fs h xs
  assume "alloc_ok s fs" "chain (chunk_next s) h xs" "set xs \<subseteq> set (chunk_offs s)" "set xs \<inter> set fs = {}"
  from chunk_free_correct [OF this] obtain s' where
    s': "chunk_free h s = Some s'" "alloc_ok s' (rev xs @ fs)"
      "\<forall>a. a \<notin> set xs \<longrightarrow> chunk_next s' a = chunk_next s a" "chunk_data s' = chunk_data s"
      "chunk_geometry s' = chunk_geometry s"
    by blast
  then show "\<exists>s'. chunk_free h s = Some s' \<and> alloc_ok s' (rev xs @ fs) \<and>
        (\<forall>a. a \<notin> set xs \<longrightarrow> chunk_next s' a = chunk_next s a) \<and> chunk_data s' = chunk_data s \<and>
        chunk_offs s' = chunk_offs s \<and> m_chunk_size s' = m_chunk_size s"
    using chunk_geometry_size [OF s'(5)] chunk_offs_geometry [OF s'(5)] by blast
next
  fix s fs h xs and d :: "byte list"
  assume a: "alloc_ok s fs" "chain (chunk_next s) h xs" "set xs \<subseteq> set (chunk_offs s)"
    "length d \<le> length xs * nat (m_chunk_size s)"
  from chunk_split_correct [OF a] obtain s' where
    s': "chunk_split h d (int (length d)) s = Some s'" "alloc_ok s' fs" "chunk_next s' = chunk_next s"
      "chunk_geometry s' = chunk_geometry s" "\<forall>a. a \<notin> set xs \<longrightarrow> chunk_data s' a = chunk_data s a"
      "take (length d) (chunk_bytes s' xs) = d"
    by blast
  have "length (chunk_bytes s' xs) = length xs * nat (m_chunk_size s)"
    using chunk_bytes_length [of s' xs] s' a(3) chunk_offs_geometry [OF s'(4)] chunk_geometry_size [OF s'(4)]
    by (simp add: alloc_ok_def)
  with s' a(2,4) have "holds_value (chunk_next s') (chunk_data s') h xs d"
    by (simp add: holds_value_def chunk_bytes_def)
  with s' show "\<exists>s'. chunk_split h d (int (length d)) s = Some s' \<and> alloc_ok s' fs \<and> chunk_next s' = chunk_next s \<and>
        (\<forall>a. a \<notin> set xs \<longrightarrow> chunk_data s' a = chunk_data s a) \<and> chunk_offs s' = chunk_offs s \<and>
        m_chunk_size s' = m_chunk_size s \<and> holds_value (chunk_next s') (chunk_data s') h xs d"
    using chunk_offs_geometry [OF s'(4)] chunk_geometry_size [OF s'(4)] by blast
qed

lemma chunk_merge_holds:
  assumes "chunk_pool_ok s" and "holds_value (chunk_next s) (chunk_data s) h xs d"
    and "set xs \<subseteq> set (chunk_offs s)" and "length d \<le> length buf"
  shows "chunk_merge s h (int (length d)) buf (int (length buf)) =
    Some (0, d @ drop (length d) buf, int (length d))"
proof -
  have "length d \<le> length xs * nat (m_chunk_size s)"
    using assms(1-3) chunk_bytes_length [of s xs] by (simp add: holds_value_def chunk_bytes_def)
  then show ?thesis
    using chunk_merge_correct [of s h xs "int (length d)" "int (length buf)" buf] assms
    by (simp add: holds_value_def chunk_bytes_def)
qed

section \<open>Properties of the allocator\<close>

text \<open>A pool of three chunks of four bytes, freshly made: the input of the witnesses.\<close>

definition demo_raw :: CChunkAllocator where
  "demo_raw = \<lparr>m_chunk_total = 0, m_chunk_size = 0, m_free_total = 0, m_free_list = 0,
     m_chunk_nodes = (\<lambda>_. \<lparr>m_next = 0, m_data = []\<rparr>), m_pool_tail = 0\<rparr>"

definition demo_pool :: CChunkAllocator where
  "demo_pool = chunk_init_pool_data (\<lambda>_. 0) 3 4 (demo_raw\<lparr>m_pool_tail := chunk_get_pool_size 3 4\<rparr>)"

lemma demo_pool_ok: "alloc_ok demo_pool [44, 32, 20]" and demo_pool_size: "m_chunk_size demo_pool = 4"
  and demo_pool_free: "m_free_total demo_pool = 3"
proof -
  have init: "alloc_ok demo_pool (rev (chunk_offs demo_pool))" "m_chunk_total demo_pool = 3" "m_chunk_size demo_pool = 4"
    using chunk_init_correct [of 4 3 "\<lambda>_. 0" demo_raw] by (simp_all add: demo_pool_def)
  have three: "[0..<3] = [0, 1, 2 :: nat]" by (simp add: upt_rec)
  have "rev (chunk_offs demo_pool) = [44, 32, 20]"
    using init(2,3) by (simp add: chunk_offs_def three chunk_head_size_def get_chunk_size_def)
  with init show "alloc_ok demo_pool [44, 32, 20]" "m_chunk_size demo_pool = 4" by simp_all
  then show "m_free_total demo_pool = 3" by (simp add: alloc_ok_def)
qed



text \<open>
  C23. No chunk is lost or duplicated: what \<open>malloc\<close> hands out, \<open>free\<close> takes back. After taking
  \<open>n\<close> chunks and releasing the returned chain the allocator is in order again, with the same
  chunks on its free list and all data areas as they were.
\<close>

theorem chunk_malloc_free_restores:
  assumes "alloc_ok s fs" and "0 \<le> n" and "n \<le> m_free_total s"
  shows "\<exists>h s1 s2 fs'. chunk_malloc n s = Some (h, s1) \<and> m_free_total s1 = m_free_total s - n \<and>
    chunk_free h s1 = Some s2 \<and> alloc_ok s2 fs' \<and> mset fs' = mset fs \<and> chunk_data s2 = chunk_data s"
proof -
  have n: "n \<le> int (length fs)" using assms by (simp add: alloc_ok_def)
  define xs where "xs = rev (take (nat n) fs)"
  from chunk_malloc_correct [OF assms(1,2) n] obtain s1 where
    s1: "chunk_malloc n s = Some (first_of xs, s1)" "alloc_ok s1 (drop (nat n) fs)"
      "chain (chunk_next s1) (first_of xs) xs" "chunk_data s1 = chunk_data s"
      "chunk_geometry s1 = chunk_geometry s"
    unfolding xs_def by blast
  have "distinct fs" using assms(1) chain_distinct [of "chunk_next s" "m_free_list s" fs] by (simp add: alloc_ok_def)
  then have "set xs \<inter> set (drop (nat n) fs) = {}"
    by (simp add: xs_def set_take_disj_set_drop_if_distinct)
  moreover have "set xs \<subseteq> set (chunk_offs s1)"
    using assms(1) chunk_offs_geometry [OF s1(5)] set_take_subset [of "nat n" fs]
    by (auto simp: alloc_ok_def xs_def)
  ultimately obtain s2 where s2: "chunk_free (first_of xs) s1 = Some s2"
      "alloc_ok s2 (rev xs @ drop (nat n) fs)" "chunk_data s2 = chunk_data s1"
    using chunk_free_correct [OF s1(2,3)] by blast
  have "rev xs @ drop (nat n) fs = fs" by (simp add: xs_def)
  moreover have "m_free_total s1 = m_free_total s - n"
    using s1(2) assms(1) n assms(2) by (simp add: alloc_ok_def of_nat_diff)
  ultimately show ?thesis using s1 s2 by auto
qed

theorem chunk_malloc_free_restores_witness:
  "\<exists>h s1 s2 fs'. chunk_malloc 2 demo_pool = Some (h, s1) \<and> m_free_total s1 = 1 \<and>
    chunk_free h s1 = Some s2 \<and> alloc_ok s2 fs' \<and> mset fs' = {#20, 32, 44#} \<and> chunk_data s2 = chunk_data demo_pool"
proof -
  have "(2 :: int) \<le> m_free_total demo_pool" by (simp add: demo_pool_free)
  from chunk_malloc_free_restores [OF demo_pool_ok _ this] show ?thesis
    by (simp add: demo_pool_free add_mset_commute)
qed

text \<open>
  C24. \<open>verify_pool_data\<close>, run when a process attaches to a pool that exists, returns, and returns
  0, exactly for the pools whose header has the expected sizes and whose free list ends and has
  \<open>free_total_\<close> chunks. (On a free list with a cycle it never returns.)
\<close>

theorem chunk_verify_exact:
  "chunk_verify_pool_data n c s = Some 0 \<longleftrightarrow>
     m_chunk_size s = c \<and> m_chunk_total s = n \<and>
     (\<exists>fs. chain (chunk_next s) (m_free_list s) fs \<and> int (length fs) = m_free_total s)"
proof (cases "m_chunk_size s = c \<and> m_chunk_total s = n")
  case True
  then have "chunk_verify_pool_data n c s = Some 0 \<longleftrightarrow>
      chunk_count_free s (chunk_handler2ptr (m_free_list s)) 0 = Some (m_free_total s)"
    by (cases "chunk_count_free s (chunk_handler2ptr (m_free_list s)) 0")
      (auto simp: chunk_verify_pool_data_def)
  also have "\<dots> \<longleftrightarrow> (\<exists>fs. chain (chunk_next s) (m_free_list s) fs \<and> int (length fs) = m_free_total s)"
    by (rule chunk_count_free_iff)
  finally show ?thesis using True by simp
next
  case False
  then show ?thesis by (auto simp: chunk_verify_pool_data_def)
qed





end
