(* ===== verification/HashMap.thy ===== *)
theory HashMap
  imports ChunkAlloc
begin

text \<open>
  The hash map of the shared-memory cache (\<open>cdb/tfc_cache_hash_map.h\<close> and \<open>.cpp\<close>, class \<open>CHashMap\<close>):
  definitions. A pool holds a header (\<open>THashMap\<close>), an array of bucket heads and an array of nodes
  (\<open>THashNode\<close>); a node is on the free list, or it is in use: then it is on the doubly linked list of
  its bucket (\<open>node_prev_\<close>, \<open>node_next_\<close>) and on the doubly linked list of all nodes in order of use
  (\<open>add_prev_\<close>, \<open>add_next_\<close>), and its value is a chain of chunks of the allocator behind the pool.
  The structures are packed: a node has 64 bytes, the header before the buckets 28
  (\<open>_CACHE_COMPLETE_CHECK\<close> is not defined). The record \<open>CHashMap\<close> holds the header, the bucket
  array, the nodes by their offset, the end of the pool and the allocator.
\<close>

datatype ENodeFlag = NODE_FLAG_UNCHG | NODE_FLAG_DIRTY

fun flag_code :: "ENodeFlag \<Rightarrow> int" where
  "flag_code NODE_FLAG_UNCHG = 0"
| "flag_code NODE_FLAG_DIRTY = 1"

record THashNode =
  m_key :: "byte list"
  m_chunk_len :: int
  m_chunk_head :: handler
  m_node_prev :: handler
  m_node_next :: handler
  m_add_prev :: handler
  m_add_next :: handler
  m_add_info_1 :: int
  m_add_info_2 :: int
  m_flag :: int

record CHashMap =
  m_node_total :: int
  m_bucket_size :: int
  m_used_node_num :: int
  m_used_bucket_num :: int
  m_add_head :: handler
  m_add_tail :: handler
  m_node_free_list :: handler
  m_bucket :: "handler list"
  m_hash_node :: "int \<Rightarrow> THashNode"
  m_node_pool_tail :: int
  m_allocator :: CChunkAllocator

datatype HASH_MAP_ERROR =
  HASH_MAP_ERROR_BASE
| HASH_MAP_ERROR_INVALID_PARAM
| HASH_MAP_ERROR_NODE_NOT_EXIST
| HASH_MAP_ERROR_NODE_HAVE_EXIST
| HASH_MAP_ERROR_NO_FREE_NODE

fun hash_error_code :: "HASH_MAP_ERROR \<Rightarrow> int" where
  "hash_error_code HASH_MAP_ERROR_BASE = -1000"
| "hash_error_code HASH_MAP_ERROR_INVALID_PARAM = -1001"
| "hash_error_code HASH_MAP_ERROR_NODE_NOT_EXIST = -1002"
| "hash_error_code HASH_MAP_ERROR_NODE_HAVE_EXIST = -1003"
| "hash_error_code HASH_MAP_ERROR_NO_FREE_NODE = -1004"

section \<open>Field access\<close>

definition upd_node :: "int \<Rightarrow> (THashNode \<Rightarrow> THashNode) \<Rightarrow> CHashMap \<Rightarrow> CHashMap" where
  "upd_node a f s = s\<lparr>m_hash_node := (m_hash_node s)(a := f (m_hash_node s a))\<rparr>"

definition node_next :: "CHashMap \<Rightarrow> int \<Rightarrow> handler" where
  "node_next s a = m_node_next (m_hash_node s a)"

definition node_prev :: "CHashMap \<Rightarrow> int \<Rightarrow> handler" where
  "node_prev s a = m_node_prev (m_hash_node s a)"

definition add_next :: "CHashMap \<Rightarrow> int \<Rightarrow> handler" where
  "add_next s a = m_add_next (m_hash_node s a)"

definition add_prev :: "CHashMap \<Rightarrow> int \<Rightarrow> handler" where
  "add_prev s a = m_add_prev (m_hash_node s a)"

definition set_node_next :: "int \<Rightarrow> handler \<Rightarrow> CHashMap \<Rightarrow> CHashMap" where
  "set_node_next a v = upd_node a (\<lambda>n. n\<lparr>m_node_next := v\<rparr>)"

definition set_node_prev :: "int \<Rightarrow> handler \<Rightarrow> CHashMap \<Rightarrow> CHashMap" where
  "set_node_prev a v = upd_node a (\<lambda>n. n\<lparr>m_node_prev := v\<rparr>)"

definition set_add_next :: "int \<Rightarrow> handler \<Rightarrow> CHashMap \<Rightarrow> CHashMap" where
  "set_add_next a v = upd_node a (\<lambda>n. n\<lparr>m_add_next := v\<rparr>)"

definition set_add_prev :: "int \<Rightarrow> handler \<Rightarrow> CHashMap \<Rightarrow> CHashMap" where
  "set_add_prev a v = upd_node a (\<lambda>n. n\<lparr>m_add_prev := v\<rparr>)"

section \<open>Pool layout and handlers\<close>

text \<open>The value an \<open>int\<close> gets from a wider integer: 32 bits, two's complement.\<close>

definition c_int :: "int \<Rightarrow> int" where
  "c_int v = signed_take_bit 31 v"

definition c_unsigned :: "int \<Rightarrow> int" where
  "c_unsigned v = v mod 2 ^ 32"

definition hash_head_size :: int where
  "hash_head_size = 32 - 4" \<comment> \<open>\<open>sizeof(THashMap) - sizeof(BC_MEM_HANDLER_32[1])\<close>\<close>

definition hash_get_pool_size :: "int \<Rightarrow> int \<Rightarrow> int" where
  "hash_get_pool_size node_total bucket_size =
     (let bucket_total_size = c_int (bucket_size * 4);
          node_total_size = c_int (node_total * 64)
      in c_int (c_int (hash_head_size + bucket_total_size) + node_total_size))"

definition get_total_pool_size :: "int \<Rightarrow> int \<Rightarrow> int \<Rightarrow> int \<Rightarrow> int" where
  "get_total_pool_size node_total bucket_size n_chunks chunk_size =
     hash_get_pool_size node_total bucket_size + chunk_get_pool_size n_chunks chunk_size"

definition hash_node_base :: "int \<Rightarrow> int" where
  "hash_node_base bucket_size = hash_head_size + c_int (bucket_size * 4)"

definition node_handler2ptr :: "handler \<Rightarrow> ptr" where
  "node_handler2ptr h = (if h = -1 then None else Some h)"

definition node_ptr2handler :: "CHashMap \<Rightarrow> ptr \<Rightarrow> handler" where
  "node_ptr2handler s p =
     (case p of None \<Rightarrow> -1 | Some a \<Rightarrow> if a < 0 \<or> m_node_pool_tail s \<le> a then -1 else a)"

definition key_uin :: "byte list \<Rightarrow> int" where
  "key_uin key = int (le_nat (take 4 key))"

definition get_bucket_id :: "CHashMap \<Rightarrow> byte list \<Rightarrow> int option" where
  "get_bucket_id s key =
     (let b = c_unsigned (m_bucket_size s)
      in if b = 0 then None else Some (c_int (key_uin key mod b)))"

definition bucket_at :: "CHashMap \<Rightarrow> int \<Rightarrow> handler option" where
  "bucket_at s i = (if 0 \<le> i \<and> nat i < length (m_bucket s) then Some (m_bucket s ! nat i) else None)"

definition set_bucket :: "int \<Rightarrow> handler \<Rightarrow> CHashMap \<Rightarrow> CHashMap option" where
  "set_bucket i h s =
     (if 0 \<le> i \<and> nat i < length (m_bucket s) then Some (s\<lparr>m_bucket := (m_bucket s)[nat i := h]\<rparr>) else None)"

section \<open>The list of nodes in order of use\<close>

definition delete_from_add_list :: "int \<Rightarrow> CHashMap \<Rightarrow> CHashMap" where
  "delete_from_add_list node s =
     (let node_hdr = node_ptr2handler s (Some node);
          next_add_hdr = add_next s node;
          prev_add_hdr = add_prev s node
      in if next_add_hdr = -1 \<and> prev_add_hdr = -1 \<and> m_add_head s \<noteq> node_hdr \<and> m_add_tail s \<noteq> node_hdr
         then s
         else let
           s1 = (if prev_add_hdr \<noteq> -1 then set_add_next prev_add_hdr (add_next s node) s else s);
           s2 = (if next_add_hdr \<noteq> -1 then set_add_prev next_add_hdr (add_prev s1 node) s1 else s1);
           s3 = (if m_add_head s2 = node_hdr then s2\<lparr>m_add_head := next_add_hdr\<rparr> else s2);
           s4 = (if m_add_tail s3 = node_hdr then s3\<lparr>m_add_tail := prev_add_hdr\<rparr> else s3)
         in set_add_next node (-1) (set_add_prev node (-1) s4))"

definition insert_add_list_head :: "int \<Rightarrow> CHashMap \<Rightarrow> CHashMap" where
  "insert_add_list_head node s0 =
     (let s = delete_from_add_list node s0;
          node_hdr = node_ptr2handler s (Some node);
          s1 = set_add_next node (m_add_head s) s;
          s2 = s1\<lparr>m_add_head := node_hdr\<rparr>;
          s3 = (if m_add_tail s2 = -1 then s2\<lparr>m_add_tail := node_hdr\<rparr> else s2);
          s4 = set_add_prev node (-1) s3
      in case node_handler2ptr (add_next s4 node) of
           None \<Rightarrow> s4
         | Some next_node \<Rightarrow> set_add_prev next_node node_hdr s4)"

definition insert_add_list_tail :: "int \<Rightarrow> CHashMap \<Rightarrow> CHashMap" where
  "insert_add_list_tail node s0 =
     (let s = delete_from_add_list node s0;
          node_hdr = node_ptr2handler s (Some node);
          s1 = set_add_prev node (m_add_tail s) s;
          s2 = s1\<lparr>m_add_tail := node_hdr\<rparr>;
          s3 = (if m_add_head s2 = -1 then s2\<lparr>m_add_head := node_hdr\<rparr> else s2);
          s4 = set_add_next node (-1) s3
      in case node_handler2ptr (add_prev s4 node) of
           None \<Rightarrow> s4
         | Some prev_node \<Rightarrow> set_add_next prev_node node_hdr s4)"

definition get_add_list_head :: "CHashMap \<Rightarrow> ptr" where
  "get_add_list_head s = node_handler2ptr (m_add_head s)"

definition get_add_list_tail :: "CHashMap \<Rightarrow> ptr" where
  "get_add_list_tail s = node_handler2ptr (m_add_tail s)"

definition get_add_list_prev :: "CHashMap \<Rightarrow> int \<Rightarrow> ptr" where
  "get_add_list_prev s node = node_handler2ptr (add_prev s node)"

definition get_add_list_next :: "CHashMap \<Rightarrow> int \<Rightarrow> ptr" where
  "get_add_list_next s node = node_handler2ptr (add_next s node)"

section \<open>The free list and the bucket lists\<close>

definition node_free_list_insert :: "int \<Rightarrow> CHashMap \<Rightarrow> CHashMap" where
  "node_free_list_insert node s =
     (let s1 = set_node_next node (m_node_free_list s) s;
          node_hdr = node_ptr2handler s1 (Some node)
      in s1\<lparr>m_node_free_list := node_hdr\<rparr>)"

definition node_free_list_remove :: "CHashMap \<Rightarrow> ptr \<times> CHashMap" where
  "node_free_list_remove s =
     (case node_handler2ptr (m_node_free_list s) of
        None \<Rightarrow> (None, s)
      | Some head_node \<Rightarrow>
          let s1 = s\<lparr>m_node_free_list := node_next s head_node\<rparr>
          in (Some head_node, set_node_next head_node (-1) s1))"

definition insert_node_list :: "int \<Rightarrow> CHashMap \<Rightarrow> CHashMap option" where
  "insert_node_list node s = do {
     bucket_id \<leftarrow> get_bucket_id s (m_key (m_hash_node s node));
     let node_hdr = node_ptr2handler s (Some node);
     old \<leftarrow> bucket_at s bucket_id;
     let s1 = set_node_prev node (-1) (set_node_next node old s);
     s2 \<leftarrow> set_bucket bucket_id node_hdr s1;
     let s3 = (case node_handler2ptr (node_next s2 node) of
                 None \<Rightarrow> s2
               | Some next_node \<Rightarrow> set_node_prev next_node node_hdr s2);
     Some (s3\<lparr>m_used_node_num := m_used_node_num s3 + 1\<rparr>)
   }"

definition delete_from_node_list :: "int \<Rightarrow> CHashMap \<Rightarrow> CHashMap option" where
  "delete_from_node_list node s = do {
     let next_node_hdr = node_next s node;
     let prev_node_hdr = node_prev s node;
     let s1 = (if prev_node_hdr \<noteq> -1 then set_node_next prev_node_hdr (node_next s node) s else s);
     let s2 = (if next_node_hdr \<noteq> -1 then set_node_prev next_node_hdr (node_prev s1 node) s1 else s1);
     let node_hdr = node_ptr2handler s2 (Some node);
     bucket_id \<leftarrow> get_bucket_id s2 (m_key (m_hash_node s2 node));
     h \<leftarrow> bucket_at s2 bucket_id;
     s3 \<leftarrow> (if node_hdr = h then set_bucket bucket_id next_node_hdr s2 else Some s2);
     let s4 = set_node_prev node (-1) (set_node_next node (-1) s3);
     Some (s4\<lparr>m_used_node_num := m_used_node_num s4 - 1\<rparr>)
   }"

definition get_bucket_list_head :: "CHashMap \<Rightarrow> int \<Rightarrow> ptr option" where
  "get_bucket_list_head s bucket_id =
     (if bucket_id < c_unsigned (m_bucket_size s)
      then do { h \<leftarrow> bucket_at s bucket_id; Some (if h \<noteq> -1 then node_handler2ptr h else None) }
      else None)"

definition get_bucket_list_prev :: "CHashMap \<Rightarrow> int \<Rightarrow> ptr" where
  "get_bucket_list_prev s node = (if node_prev s node \<noteq> -1 then node_handler2ptr (node_prev s node) else None)"

definition get_bucket_list_next :: "CHashMap \<Rightarrow> int \<Rightarrow> ptr" where
  "get_bucket_list_next s node = (if node_next s node \<noteq> -1 then node_handler2ptr (node_next s node) else None)"

partial_function (option) bucket_list_len_loop :: "CHashMap \<Rightarrow> handler \<Rightarrow> int \<Rightarrow> int option" where
  "bucket_list_len_loop s node_hdr num =
     (case node_handler2ptr node_hdr of
        None \<Rightarrow> Some num
      | Some node \<Rightarrow> bucket_list_len_loop s (node_next s node) (num + 1))"

definition get_bucket_list_len :: "CHashMap \<Rightarrow> int \<Rightarrow> int option" where
  "get_bucket_list_len s bucket_id = do {
     h \<leftarrow> bucket_at s bucket_id;
     bucket_list_len_loop s h 0
   }"

section \<open>Nodes in and out of use\<close>

definition init_node_value :: THashNode where
  "init_node_value = \<lparr>m_key = replicate 16 0, m_chunk_len = 0, m_chunk_head = -1, m_node_prev = -1,
     m_node_next = -1, m_add_prev = -1, m_add_next = -1, m_add_info_1 = 0, m_add_info_2 = 0,
     m_flag = flag_code NODE_FLAG_UNCHG\<rparr>"

definition init_node :: "int \<Rightarrow> CHashMap \<Rightarrow> CHashMap" where
  "init_node node = upd_node node (\<lambda>_. init_node_value)"

definition free_node :: "int \<Rightarrow> CHashMap \<Rightarrow> CHashMap option" where
  "free_node node s = do {
     s1 \<leftarrow> delete_from_node_list node s;
     a \<leftarrow> chunk_free (m_chunk_head (m_hash_node s1 node)) (m_allocator s1);
     Some (init_node node (s1\<lparr>m_allocator := a\<rparr>))
   }"

definition use_node :: "int \<Rightarrow> byte list \<Rightarrow> int \<Rightarrow> handler \<Rightarrow> CHashMap \<Rightarrow> CHashMap option" where
  "use_node node key chunk_len chunk_head s =
     insert_node_list node
       (upd_node node (\<lambda>n. n\<lparr>m_key := key, m_chunk_len := chunk_len, m_chunk_head := chunk_head,
          m_add_info_1 := 0, m_add_info_2 := 0\<rparr>) s)"

section \<open>Opening the map\<close>

definition hash_init_loop_node :: "int \<Rightarrow> nat \<Rightarrow> CHashMap \<Rightarrow> CHashMap" where
  "hash_init_loop_node bucket_size i s =
     (let offset = c_int (int i * 64);
          hash_node = hash_node_base bucket_size + offset
      in node_free_list_insert hash_node (init_node hash_node s))"

definition hash_init_pool_data :: "int \<Rightarrow> int \<Rightarrow> CHashMap \<Rightarrow> CHashMap" where
  "hash_init_pool_data node_total bucket_size s =
     (let s1 = s\<lparr>m_node_total := node_total, m_bucket_size := bucket_size, m_used_node_num := 0,
            m_used_bucket_num := 0, m_add_head := -1, m_add_tail := -1, m_node_free_list := -1\<rparr>;
          s2 = s1\<lparr>m_bucket := replicate (nat bucket_size) (-1)\<rparr>
      in fold (hash_init_loop_node bucket_size) [0..<nat node_total] s2)"

partial_function (option) hash_count_free :: "CHashMap \<Rightarrow> ptr \<Rightarrow> int \<Rightarrow> int option" where
  "hash_count_free s free_ptr free_node_count =
     (case free_ptr of
        None \<Rightarrow> Some free_node_count
      | Some a \<Rightarrow> hash_count_free s (node_handler2ptr (node_next s a)) (free_node_count + 1))"

definition hash_verify_pool_data :: "int \<Rightarrow> int \<Rightarrow> CHashMap \<Rightarrow> int option" where
  "hash_verify_pool_data node_total bucket_size s =
     (if node_total \<noteq> m_node_total s then Some (hash_error_code HASH_MAP_ERROR_BASE)
      else if bucket_size \<noteq> m_bucket_size s then Some (hash_error_code HASH_MAP_ERROR_BASE)
      else do {
        free_node_count \<leftarrow> hash_count_free s (node_handler2ptr (m_node_free_list s)) 0;
        if m_used_node_num s + free_node_count \<noteq> m_node_total s
        then Some (hash_error_code HASH_MAP_ERROR_BASE)
        else Some 0
      })"

definition hash_open ::
    "(int \<Rightarrow> byte) \<Rightarrow> bool \<Rightarrow> int \<Rightarrow> int \<Rightarrow> int \<Rightarrow> int \<Rightarrow> CHashMap \<Rightarrow> (int \<times> CHashMap) option" where
  "hash_open raw init node_total bucket_size n_chunks chunk_size s = do {
     let hash_map_pool_size = hash_get_pool_size node_total bucket_size;
     let s1 = s\<lparr>m_node_pool_tail := hash_map_pool_size\<rparr>;
     (ret, s2) \<leftarrow> (if init then Some (0, hash_init_pool_data node_total bucket_size s1)
                   else do { ret \<leftarrow> hash_verify_pool_data node_total bucket_size s1; Some (ret, s1) });
     if ret \<noteq> 0 then Some (ret, s2)
     else do {
       (ret2, a) \<leftarrow> chunk_open (\<lambda>i. raw (hash_map_pool_size + i)) init n_chunks chunk_size (m_allocator s2);
       let s3 = s2\<lparr>m_allocator := a\<rparr>;
       if ret2 \<noteq> 0 then Some (ret2, s3) else Some (0, s3)
     }
   }"

section \<open>The operations on keys\<close>

partial_function (option) find_node_loop :: "CHashMap \<Rightarrow> byte list \<Rightarrow> handler \<Rightarrow> ptr option" where
  "find_node_loop s key node_hdr =
     (case node_handler2ptr node_hdr of
        None \<Rightarrow> Some None
      | Some node \<Rightarrow>
          if m_key (m_hash_node s node) = key then Some (Some node)
          else find_node_loop s key (node_next s node))"

definition find_node :: "byte list \<Rightarrow> CHashMap \<Rightarrow> (ptr \<times> CHashMap) option" where
  "find_node key s = do {
     bucket_id \<leftarrow> get_bucket_id s key;
     node_hdr \<leftarrow> bucket_at s bucket_id;
     r \<leftarrow> find_node_loop s key node_hdr;
     Some (case r of None \<Rightarrow> (None, s) | Some node \<Rightarrow> (Some node, insert_add_list_head node s))
   }"

text \<open>The part \<open>insert_node\<close> and \<open>insert_node_metadata\<close> have in common, up to \<open>use_node\<close>.\<close>

definition insert_node_data :: "byte list \<Rightarrow> byte list \<Rightarrow> int \<Rightarrow> CHashMap \<Rightarrow> (ptr \<times> CHashMap) option" where
  "insert_node_data key new_data new_len s =
     (case node_free_list_remove s of
        (None, s1) \<Rightarrow> Some (None, s1)
      | (Some node, s1) \<Rightarrow> do {
          new_chunk_num \<leftarrow> get_chunk_num (m_allocator s1) new_len;
          (head_hdr, a1) \<leftarrow> chunk_malloc new_chunk_num (m_allocator s1);
          let s2 = s1\<lparr>m_allocator := a1\<rparr>;
          if head_hdr = -1 then Some (None, node_free_list_insert node s2)
          else do {
            a2 \<leftarrow> chunk_split head_hdr new_data new_len a1;
            s3 \<leftarrow> use_node node key new_len head_hdr (s2\<lparr>m_allocator := a2\<rparr>);
            Some (Some node, s3)
          }
        })"

definition insert_node :: "byte list \<Rightarrow> byte list \<Rightarrow> int \<Rightarrow> int \<Rightarrow> CHashMap \<Rightarrow> (ptr \<times> CHashMap) option" where
  "insert_node key new_data new_len now s = do {
     (r, s1) \<leftarrow> insert_node_data key new_data new_len s;
     Some (case r of
        None \<Rightarrow> (None, s1)
      | Some node \<Rightarrow>
          (Some node, insert_add_list_head node (upd_node node (\<lambda>n. n\<lparr>m_add_info_1 := now\<rparr>) s1)))
   }"

definition insert_node_metadata ::
    "byte list \<Rightarrow> byte list \<Rightarrow> int \<Rightarrow> int \<Rightarrow> int \<Rightarrow> CHashMap \<Rightarrow> (ptr \<times> CHashMap) option" where
  "insert_node_metadata key new_data new_len expiretime now s = do {
     (r, s1) \<leftarrow> insert_node_data key new_data new_len s;
     Some (case r of
        None \<Rightarrow> (None, s1)
      | Some node \<Rightarrow>
          (Some node, insert_add_list_head node
             (upd_node node (\<lambda>n. n\<lparr>m_add_info_1 := now, m_add_info_2 := expiretime\<rparr>) s1)))
   }"

text \<open>The part \<open>update_node\<close> and \<open>update_node_metadata\<close> have in common: the value is replaced, in new
  chunks when their number changes. \<open>False\<close> is the early return when the chunks do not suffice.\<close>

definition update_node_data :: "int \<Rightarrow> byte list \<Rightarrow> int \<Rightarrow> CHashMap \<Rightarrow> (bool \<times> CHashMap) option" where
  "update_node_data node new_data new_len s = do {
     old_chunk_num \<leftarrow> get_chunk_num (m_allocator s) (m_chunk_len (m_hash_node s node));
     new_chunk_num \<leftarrow> get_chunk_num (m_allocator s) new_len;
     if old_chunk_num \<noteq> new_chunk_num
     then if new_chunk_num > old_chunk_num \<and>
             get_free_chunk_num (m_allocator s) < new_chunk_num - old_chunk_num
          then Some (False, s)
          else do {
            a1 \<leftarrow> chunk_free (m_chunk_head (m_hash_node s node)) (m_allocator s);
            (head_hdr, a2) \<leftarrow> chunk_malloc new_chunk_num a1;
            a3 \<leftarrow> chunk_split head_hdr new_data new_len a2;
            Some (True, upd_node node (\<lambda>n. n\<lparr>m_chunk_len := new_len, m_chunk_head := head_hdr\<rparr>)
                          (s\<lparr>m_allocator := a3\<rparr>))
          }
     else do {
       a1 \<leftarrow> chunk_split (m_chunk_head (m_hash_node s node)) new_data new_len (m_allocator s);
       Some (True, upd_node node (\<lambda>n. n\<lparr>m_chunk_len := new_len\<rparr>) (s\<lparr>m_allocator := a1\<rparr>))
     }
   }"

text \<open>The old value goes out first when the caller gives a buffer and a length; with a length alone
  only the length. The result is the return code, the buffer and the length.\<close>

definition fetch_old ::
    "int \<Rightarrow> byte list option \<Rightarrow> int option \<Rightarrow> CHashMap \<Rightarrow> (int \<times> byte list option \<times> int option) option" where
  "fetch_old node old_data old_len s =
     (case (old_data, old_len) of
        (Some buf, Some n) \<Rightarrow> do {
          (ret, buf', n') \<leftarrow> chunk_merge (m_allocator s) (m_chunk_head (m_hash_node s node))
             (m_chunk_len (m_hash_node s node)) buf n;
          Some (ret, Some buf', Some n')
        }
      | (None, Some n) \<Rightarrow> Some (0, None, Some (m_chunk_len (m_hash_node s node)))
      | (b, None) \<Rightarrow> Some (0, b, None))"

definition update_node ::
    "int \<Rightarrow> byte list \<Rightarrow> int \<Rightarrow> byte list option \<Rightarrow> int option \<Rightarrow> int \<Rightarrow> CHashMap \<Rightarrow>
     ((ptr \<times> byte list option \<times> int option) \<times> CHashMap) option" where
  "update_node node new_data new_len old_data old_len now s = do {
     (ret, old_data', old_len') \<leftarrow> fetch_old node old_data old_len s;
     if ret \<noteq> 0 then Some ((None, old_data', old_len'), s)
     else do {
       (fits, s1) \<leftarrow> update_node_data node new_data new_len s;
       if \<not> fits then Some ((None, old_data', old_len'), s1)
       else Some ((Some node, old_data', old_len'),
              insert_add_list_head node (upd_node node (\<lambda>n. n\<lparr>m_add_info_1 := now\<rparr>) s1))
     }
   }"

definition update_node_metadata ::
    "int \<Rightarrow> byte list \<Rightarrow> int \<Rightarrow> int \<Rightarrow> int \<Rightarrow> CHashMap \<Rightarrow> (ptr \<times> CHashMap) option" where
  "update_node_metadata node new_data new_len expiretime now s = do {
     (fits, s1) \<leftarrow> update_node_data node new_data new_len s;
     if \<not> fits then Some (None, s1)
     else let s2 = upd_node node (\<lambda>n. n\<lparr>m_add_info_1 := now\<rparr>) s1;
              s3 = upd_node node (\<lambda>n. n\<lparr>m_add_info_1 := expiretime\<rparr>) s2
          in Some (Some node, insert_add_list_head node s3)
   }"

definition replace_node ::
    "byte list \<Rightarrow> byte list \<Rightarrow> int \<Rightarrow> byte list option \<Rightarrow> int option \<Rightarrow> int \<Rightarrow> CHashMap \<Rightarrow>
     ((ptr \<times> byte list option \<times> int option) \<times> CHashMap) option" where
  "replace_node key new_data new_len old_data old_len now s = do {
     (r, s1) \<leftarrow> find_node key s;
     case r of
       Some node \<Rightarrow> update_node node new_data new_len old_data old_len now s1
     | None \<Rightarrow> do {
         (r2, s2) \<leftarrow> insert_node key new_data new_len now s1;
         Some ((r2, old_data, old_len), s2)
       }
   }"

definition delete_node ::
    "int \<Rightarrow> byte list option \<Rightarrow> int option \<Rightarrow> CHashMap \<Rightarrow>
     ((int \<times> byte list option \<times> int option) \<times> CHashMap) option" where
  "delete_node node data data_len s = do {
     (ret, data', data_len') \<leftarrow> fetch_old node data data_len s;
     if ret \<noteq> 0 then Some ((-1, data', data_len'), s)
     else do {
       let s1 = delete_from_add_list node s;
       s2 \<leftarrow> free_node node s1;
       Some ((0, data', data_len'), node_free_list_insert node s2)
     }
   }"

definition merge_node_data :: "CHashMap \<Rightarrow> int \<Rightarrow> byte list \<Rightarrow> int \<Rightarrow> (int \<times> byte list \<times> int) option" where
  "merge_node_data s node data data_len =
     chunk_merge (m_allocator s) (m_chunk_head (m_hash_node s node)) (m_chunk_len (m_hash_node s node)) data data_len"

definition set_node_flag :: "int \<Rightarrow> ENodeFlag \<Rightarrow> CHashMap \<Rightarrow> CHashMap" where
  "set_node_flag node f = upd_node node (\<lambda>n. n\<lparr>m_flag := flag_code f\<rparr>)"

definition set_expiretime :: "int \<Rightarrow> int \<Rightarrow> CHashMap \<Rightarrow> CHashMap" where
  "set_expiretime node expiretime = upd_node node (\<lambda>n. n\<lparr>m_add_info_2 := expiretime\<rparr>)"

definition get_expiretime :: "CHashMap \<Rightarrow> int \<Rightarrow> int" where
  "get_expiretime s node = m_add_info_2 (m_hash_node s node)"

definition used_node_num :: "CHashMap \<Rightarrow> int" where
  "used_node_num s = m_used_node_num s"

definition free_node_num :: "CHashMap \<Rightarrow> int" where
  "free_node_num s = m_node_total s - m_used_node_num s"

end
