(* ===== verification/HashMapLists.thy ===== *)
theory HashMapLists
  imports HashMap
begin

text \<open>
  The lists inside the hash map. For each of the pieces a map operation is built from, this theory
  shows what it does to the list it works on and that it leaves everything else alone: the order of
  use (\<open>order_ok\<close>), the free list, the bucket lists (\<open>buckets_ok\<close>). The link fields of a node are
  read through \<open>add_next\<close>, \<open>add_prev\<close>, \<open>node_next\<close>, \<open>node_prev\<close>, the rest of it through \<open>payload\<close>.
\<close>

definition payload :: "CHashMap \<Rightarrow> int \<Rightarrow> THashNode" where
  "payload s a = (m_hash_node s a)\<lparr>m_node_prev := -1, m_node_next := -1, m_add_prev := -1, m_add_next := -1\<rparr>"

definition order_ok :: "CHashMap \<Rightarrow> int list \<Rightarrow> bool" where
  "order_ok s L \<longleftrightarrow> dll (add_next s) (add_prev s) (m_add_head s) (m_add_tail s) L"

definition sizes_ok :: "CHashMap \<Rightarrow> bool" where
  "sizes_ok s \<longleftrightarrow> 0 < m_bucket_size s \<and> m_bucket_size s < 2 ^ 31 \<and> length (m_bucket s) = nat (m_bucket_size s)"

definition bucket_of :: "CHashMap \<Rightarrow> byte list \<Rightarrow> nat" where
  "bucket_of s key = nat (key_uin key mod m_bucket_size s)"

definition buckets_ok :: "CHashMap \<Rightarrow> int set \<Rightarrow> (nat \<Rightarrow> int list) \<Rightarrow> bool" where
  "buckets_ok s U B \<longleftrightarrow>
     (\<forall>b < length (m_bucket s).
        dll (node_next s) (node_prev s) (m_bucket s ! b) (last_of (B b)) (B b) \<and>
        set (B b) = {n \<in> U. bucket_of s (m_key (payload s n)) = b})"

section \<open>Reading after writing\<close>

lemmas node_field_defs = node_next_def node_prev_def add_next_def add_prev_def payload_def
  set_node_next_def set_node_prev_def set_add_next_def set_add_prev_def upd_node_def

lemma link_simps [simp]:
  "node_next (set_node_next a v s) = (node_next s)(a := v)"
  "node_next (set_node_prev a v s) = node_next s"
  "node_next (set_add_next a v s) = node_next s"
  "node_next (set_add_prev a v s) = node_next s"
  "node_prev (set_node_next a v s) = node_prev s"
  "node_prev (set_node_prev a v s) = (node_prev s)(a := v)"
  "node_prev (set_add_next a v s) = node_prev s"
  "node_prev (set_add_prev a v s) = node_prev s"
  "add_next (set_node_next a v s) = add_next s"
  "add_next (set_node_prev a v s) = add_next s"
  "add_next (set_add_next a v s) = (add_next s)(a := v)"
  "add_next (set_add_prev a v s) = add_next s"
  "add_prev (set_node_next a v s) = add_prev s"
  "add_prev (set_node_prev a v s) = add_prev s"
  "add_prev (set_add_next a v s) = add_prev s"
  "add_prev (set_add_prev a v s) = (add_prev s)(a := v)"
  "payload (set_node_next a v s) = payload s"
  "payload (set_node_prev a v s) = payload s"
  "payload (set_add_next a v s) = payload s"
  "payload (set_add_prev a v s) = payload s"
  by (auto simp: node_field_defs fun_eq_iff)

lemma header_simps [simp]:
  "m_add_head (upd_node a f s) = m_add_head s"
  "m_add_tail (upd_node a f s) = m_add_tail s"
  "m_node_free_list (upd_node a f s) = m_node_free_list s"
  "m_bucket (upd_node a f s) = m_bucket s"
  "m_bucket_size (upd_node a f s) = m_bucket_size s"
  "m_node_total (upd_node a f s) = m_node_total s"
  "m_used_node_num (upd_node a f s) = m_used_node_num s"
  "m_used_bucket_num (upd_node a f s) = m_used_bucket_num s"
  "m_node_pool_tail (upd_node a f s) = m_node_pool_tail s"
  "m_allocator (upd_node a f s) = m_allocator s"
  by (simp_all add: upd_node_def)

lemmas setter_defs = set_node_next_def set_node_prev_def set_add_next_def set_add_prev_def

lemma node_ptr2handler_tail:
  "m_node_pool_tail s' = m_node_pool_tail s \<Longrightarrow> node_ptr2handler s' p = node_ptr2handler s p"
  by (simp add: node_ptr2handler_def split: option.splits)

lemma key_payload [simp]:
  "m_key (payload s a) = m_key (m_hash_node s a)"
  "m_chunk_len (payload s a) = m_chunk_len (m_hash_node s a)"
  "m_chunk_head (payload s a) = m_chunk_head (m_hash_node s a)"
  "m_add_info_1 (payload s a) = m_add_info_1 (m_hash_node s a)"
  "m_add_info_2 (payload s a) = m_add_info_2 (m_hash_node s a)"
  "m_flag (payload s a) = m_flag (m_hash_node s a)"
  by (simp_all add: payload_def)

lemma payload_fields:
  assumes "payload s' a = payload s a"
  shows "m_key (m_hash_node s' a) = m_key (m_hash_node s a)"
    and "m_chunk_len (m_hash_node s' a) = m_chunk_len (m_hash_node s a)"
    and "m_chunk_head (m_hash_node s' a) = m_chunk_head (m_hash_node s a)"
    and "m_add_info_1 (m_hash_node s' a) = m_add_info_1 (m_hash_node s a)"
    and "m_add_info_2 (m_hash_node s' a) = m_add_info_2 (m_hash_node s a)"
    and "m_flag (m_hash_node s' a) = m_flag (m_hash_node s a)"
  using key_payload [of s a] key_payload [of s' a] assms by simp_all

lemma node_handler2ptr_simps [simp]:
  "node_handler2ptr (-1) = None" "h \<noteq> -1 \<Longrightarrow> node_handler2ptr h = Some h"
  by (simp_all add: node_handler2ptr_def)

interpretation add_links: double_links add_next set_add_next add_prev set_add_prev
  by unfold_locales simp_all

interpretation bucket_links: double_links node_next set_node_next node_prev set_node_prev
  by unfold_locales simp_all

section \<open>The order of use\<close>

text \<open>Everything but the order of use, in one value.\<close>

definition off_order :: "CHashMap \<Rightarrow> CHashMap \<Rightarrow> bool" where
  "off_order s' s \<longleftrightarrow>
     node_next s' = node_next s \<and> node_prev s' = node_prev s \<and> payload s' = payload s \<and>
     m_node_free_list s' = m_node_free_list s \<and> m_bucket s' = m_bucket s \<and>
     m_bucket_size s' = m_bucket_size s \<and> m_node_total s' = m_node_total s \<and>
     m_used_node_num s' = m_used_node_num s \<and> m_used_bucket_num s' = m_used_bucket_num s \<and>
     m_node_pool_tail s' = m_node_pool_tail s \<and> m_allocator s' = m_allocator s"

lemma off_order_trans: "off_order s2 s1 \<Longrightarrow> off_order s1 s \<Longrightarrow> off_order s2 s"
  by (simp add: off_order_def)

lemma payload_head_tail [simp]:
  "payload (s\<lparr>m_add_head := h\<rparr>) = payload s" "payload (s\<lparr>m_add_tail := h\<rparr>) = payload s"
  "node_next (s\<lparr>m_add_head := h\<rparr>) = node_next s" "node_next (s\<lparr>m_add_tail := h\<rparr>) = node_next s"
  "node_prev (s\<lparr>m_add_head := h\<rparr>) = node_prev s" "node_prev (s\<lparr>m_add_tail := h\<rparr>) = node_prev s"
  "add_next (s\<lparr>m_add_head := h\<rparr>) = add_next s" "add_next (s\<lparr>m_add_tail := h\<rparr>) = add_next s"
  "add_prev (s\<lparr>m_add_head := h\<rparr>) = add_prev s" "add_prev (s\<lparr>m_add_tail := h\<rparr>) = add_prev s"
  by (simp_all add: node_field_defs fun_eq_iff)

lemma off_order_delete: "off_order (delete_from_add_list n s) s"
  by (simp add: off_order_def delete_from_add_list_def Let_def, simp add: setter_defs)

lemma off_order_insert_head: "off_order (insert_add_list_head n s) s"
proof -
  have "off_order (insert_add_list_head n s) (delete_from_add_list n s)"
    by (simp add: off_order_def insert_add_list_head_def Let_def split: option.splits, simp add: setter_defs)
  then show ?thesis using off_order_delete by (rule off_order_trans)
qed

lemma off_order_insert_tail: "off_order (insert_add_list_tail n s) s"
proof -
  have "off_order (insert_add_list_tail n s) (delete_from_add_list n s)"
    by (simp add: off_order_def insert_add_list_tail_def Let_def split: option.splits, simp add: setter_defs)
  then show ?thesis using off_order_delete by (rule off_order_trans)
qed

lemma header_setters [simp]:
  "m_add_head (set_node_next a v s) = m_add_head s" "m_add_head (set_node_prev a v s) = m_add_head s"
  "m_add_head (set_add_next a v s) = m_add_head s" "m_add_head (set_add_prev a v s) = m_add_head s"
  "m_add_tail (set_node_next a v s) = m_add_tail s" "m_add_tail (set_node_prev a v s) = m_add_tail s"
  "m_add_tail (set_add_next a v s) = m_add_tail s" "m_add_tail (set_add_prev a v s) = m_add_tail s"
  "m_node_free_list (set_node_next a v s) = m_node_free_list s" "m_node_free_list (set_node_prev a v s) = m_node_free_list s"
  "m_node_free_list (set_add_next a v s) = m_node_free_list s" "m_node_free_list (set_add_prev a v s) = m_node_free_list s"
  "m_bucket (set_node_next a v s) = m_bucket s" "m_bucket (set_node_prev a v s) = m_bucket s"
  "m_bucket (set_add_next a v s) = m_bucket s" "m_bucket (set_add_prev a v s) = m_bucket s"
  "m_bucket_size (set_node_next a v s) = m_bucket_size s" "m_bucket_size (set_node_prev a v s) = m_bucket_size s"
  "m_bucket_size (set_add_next a v s) = m_bucket_size s" "m_bucket_size (set_add_prev a v s) = m_bucket_size s"
  "m_node_total (set_node_next a v s) = m_node_total s" "m_node_total (set_node_prev a v s) = m_node_total s"
  "m_node_total (set_add_next a v s) = m_node_total s" "m_node_total (set_add_prev a v s) = m_node_total s"
  "m_used_node_num (set_node_next a v s) = m_used_node_num s" "m_used_node_num (set_node_prev a v s) = m_used_node_num s"
  "m_used_node_num (set_add_next a v s) = m_used_node_num s" "m_used_node_num (set_add_prev a v s) = m_used_node_num s"
  "m_used_bucket_num (set_node_next a v s) = m_used_bucket_num s" "m_used_bucket_num (set_node_prev a v s) = m_used_bucket_num s"
  "m_used_bucket_num (set_add_next a v s) = m_used_bucket_num s" "m_used_bucket_num (set_add_prev a v s) = m_used_bucket_num s"
  "m_node_pool_tail (set_node_next a v s) = m_node_pool_tail s" "m_node_pool_tail (set_node_prev a v s) = m_node_pool_tail s"
  "m_node_pool_tail (set_add_next a v s) = m_node_pool_tail s" "m_node_pool_tail (set_add_prev a v s) = m_node_pool_tail s"
  "m_allocator (set_node_next a v s) = m_allocator s" "m_allocator (set_node_prev a v s) = m_allocator s"
  "m_allocator (set_add_next a v s) = m_allocator s" "m_allocator (set_add_prev a v s) = m_allocator s"
  by (simp_all add: setter_defs)

lemma delete_from_add_list_absent:
  assumes "order_ok s L" and "n \<notin> set L" and "n \<noteq> -1" and "node_ptr2handler s (Some n) = n"
    and "add_next s n = -1" and "add_prev s n = -1"
  shows "delete_from_add_list n s = s"
proof -
  have "m_add_head s \<noteq> n" "m_add_tail s \<noteq> n"
    using dll_ends [of "add_next s" "add_prev s" "m_add_head s" "m_add_tail s" L] assms(1-3)
    by (auto simp: order_ok_def)
  with assms show ?thesis by (simp add: delete_from_add_list_def)
qed

lemma delete_from_add_list_present:
  assumes "order_ok s (as @ n # bs)" and "node_ptr2handler s (Some n) = n"
  defines "s' \<equiv> delete_from_add_list n s"
  shows "order_ok s' (as @ bs)" and "add_next s' n = -1" and "add_prev s' n = -1"
    and "\<And>a. a \<notin> set (as @ n # bs) \<Longrightarrow> add_next s' a = add_next s a \<and> add_prev s' a = add_prev s a"
proof -
  define s1 where "s1 = (if add_prev s n \<noteq> -1 then set_add_next (add_prev s n) (add_next s n) s else s)"
  define s2 where "s2 = (if add_next s n \<noteq> -1 then set_add_prev (add_next s n) (add_prev s1 n) s1 else s1)"
  define s3 where "s3 = (if m_add_head s2 = n then s2\<lparr>m_add_head := add_next s n\<rparr> else s2)"
  define s4 where "s4 = (if m_add_tail s3 = n then s3\<lparr>m_add_tail := add_prev s n\<rparr> else s3)"
  have d: "dll (add_next s) (add_prev s) (m_add_head s) (m_add_tail s) (as @ n # bs)"
    using assms(1) by (simp add: order_ok_def)
  have "n \<notin> set (as @ bs)" using dll_distinct [OF d] by simp
  have in_list: "\<not> (add_next s n = -1 \<and> add_prev s n = -1 \<and> m_add_head s \<noteq> n \<and> m_add_tail s \<noteq> n)"
    using not_in_dll [OF d, of n] by simp
  have "add_prev s1 = add_prev s" by (simp add: s1_def)
  then have s2: "s2 = (if add_next s n \<noteq> -1 then set_add_prev (add_next s n) (add_prev s n) s1 else s1)"
    by (simp add: s2_def)
  have "s' = set_add_next n (-1) (set_add_prev n (-1) s4)"
    by (simp only: s'_def delete_from_add_list_def Let_def assms(2) in_list if_False s1_def s2_def s3_def s4_def)
  moreover have "m_add_head s2 = m_add_head s" "m_add_tail s2 = m_add_tail s"
    by (simp_all add: s1_def s2_def)
  ultimately have s': "add_next s' = (add_next s2)(n := -1)" "add_prev s' = (add_prev s2)(n := -1)"
    "m_add_head s' = (if m_add_head s = n then add_next s n else m_add_head s)"
    "m_add_tail s' = (if m_add_tail s = n then add_prev s n else m_add_tail s)"
    by (simp_all add: s3_def s4_def)
  show "order_ok s' (as @ bs)"
    using add_links.unlink_dll [OF d s1_def s2] \<open>n \<notin> set (as @ bs)\<close> by (simp add: order_ok_def s')
  show "add_next s' n = -1" "add_prev s' n = -1" by (simp_all add: s')
  fix a assume a: "a \<notin> set (as @ n # bs)"
  with dll_neighbours [OF d, of n] show "add_next s' a = add_next s a \<and> add_prev s' a = add_prev s a"
    unfolding s' s1_def s2 by auto
qed

text \<open>Both cases together: the node leaves the list if it is on it.\<close>

lemma delete_from_add_list_spec:
  assumes "order_ok s L" and "n \<noteq> -1" and "node_ptr2handler s (Some n) = n"
    and "n \<notin> set L \<Longrightarrow> add_next s n = -1 \<and> add_prev s n = -1"
  defines "s' \<equiv> delete_from_add_list n s"
  shows "order_ok s' (remove1 n L) \<and> add_next s' n = -1 \<and> add_prev s' n = -1 \<and>
    (\<forall>a. a \<notin> set L \<longrightarrow> add_next s' a = add_next s a \<and> add_prev s' a = add_prev s a)"
proof (cases "n \<in> set L")
  case True
  then obtain as bs where L: "L = as @ n # bs" "n \<notin> set as" by (auto dest: split_list_first)
  then have "remove1 n L = as @ bs" by (simp add: remove1_append)
  then show ?thesis
    using delete_from_add_list_present [of s as n bs] assms(1,3) L unfolding s'_def by simp
next
  case False
  then have "s' = s" using delete_from_add_list_absent [of s L n] assms by (simp add: s'_def)
  then show ?thesis using False assms by (simp add: remove1_idem)
qed

lemma insert_add_list_head_spec:
  assumes "order_ok s L" and "n \<noteq> -1" and "node_ptr2handler s (Some n) = n"
    and "n \<notin> set L \<Longrightarrow> add_next s n = -1 \<and> add_prev s n = -1"
  defines "s' \<equiv> insert_add_list_head n s"
  shows "order_ok s' (n # remove1 n L) \<and>
    (\<forall>a. a \<notin> set L \<and> a \<noteq> n \<longrightarrow> add_next s' a = add_next s a \<and> add_prev s' a = add_prev s a)"
proof -
  define t where "t = delete_from_add_list n s"
  define t4 where "t4 = set_add_prev n (-1) (set_add_next n (m_add_head t) t)"
  define t5 where "t5 = (if m_add_head t \<noteq> -1 then set_add_prev (m_add_head t) n t4 else t4)"
  have t: "order_ok t (remove1 n L)"
    "\<And>a. a \<notin> set L \<Longrightarrow> add_next t a = add_next s a \<and> add_prev t a = add_prev s a"
    using delete_from_add_list_spec [of s L n] assms unfolding t_def by blast+
  have hdr: "node_ptr2handler t (Some n) = n"
    using assms(3) off_order_delete [of n s] node_ptr2handler_tail [of t s] by (simp add: t_def off_order_def)
  have new: "n \<notin> set (remove1 n L)"
    using dll_distinct assms(1) by (auto simp: order_ok_def)
  have d: "dll (add_next t) (add_prev t) (m_add_head t) (m_add_tail t) (remove1 n L)"
    using t(1) by (simp add: order_ok_def)
  have "m_add_head s' = n" "m_add_tail s' = (if m_add_tail t = -1 then n else m_add_tail t)"
    "add_next s' = add_next t5" "add_prev s' = add_prev t5"
    unfolding s'_def insert_add_list_head_def Let_def t_def [symmetric] hdr
    by (cases "m_add_head t = -1"; simp add: t4_def t5_def node_handler2ptr_def)+
  then have "order_ok s' (n # remove1 n L)"
    using add_links.push_front_dll [OF d assms(2) new t4_def t5_def] by (simp add: order_ok_def)
  moreover have "add_next s' a = add_next s a \<and> add_prev s' a = add_prev s a" if "a \<notin> set L" "a \<noteq> n" for a
  proof -
    have "a \<noteq> m_add_head t \<or> m_add_head t = -1"
      using dll_ends(1) [OF d] that set_remove1_subset [of n L] by auto
    then show ?thesis
      using t(2) [OF that(1)] that(2) \<open>add_next s' = add_next t5\<close> \<open>add_prev s' = add_prev t5\<close>
      by (auto simp: t4_def t5_def)
  qed
  ultimately show ?thesis by blast
qed

lemma insert_add_list_tail_spec:
  assumes "order_ok s L" and "n \<noteq> -1" and "node_ptr2handler s (Some n) = n"
    and "n \<notin> set L \<Longrightarrow> add_next s n = -1 \<and> add_prev s n = -1"
  shows "order_ok (insert_add_list_tail n s) (remove1 n L @ [n])"
proof -
  define t where "t = delete_from_add_list n s"
  define t4 where "t4 = set_add_next n (-1) (set_add_prev n (m_add_tail t) t)"
  define t5 where "t5 = (if m_add_tail t \<noteq> -1 then set_add_next (m_add_tail t) n t4 else t4)"
  have hdr: "node_ptr2handler t (Some n) = n"
    using assms(3) off_order_delete [of n s] node_ptr2handler_tail [of t s] by (simp add: t_def off_order_def)
  have new: "n \<notin> set (remove1 n L)"
    using dll_distinct assms(1) by (auto simp: order_ok_def)
  have d: "dll (add_next t) (add_prev t) (m_add_head t) (m_add_tail t) (remove1 n L)"
    using delete_from_add_list_spec [of s L n] assms unfolding t_def order_ok_def by blast
  have "m_add_tail (insert_add_list_tail n s) = n"
    "m_add_head (insert_add_list_tail n s) = (if m_add_head t = -1 then n else m_add_head t)"
    "add_next (insert_add_list_tail n s) = add_next t5" "add_prev (insert_add_list_tail n s) = add_prev t5"
    unfolding insert_add_list_tail_def Let_def t_def [symmetric] hdr
    by (cases "m_add_tail t = -1"; simp add: t4_def t5_def node_handler2ptr_def)+
  then show ?thesis
    using add_links.push_back_dll [OF d assms(2) new t4_def t5_def] by (simp add: order_ok_def)
qed

section \<open>The buckets\<close>

text \<open>Everything but the bucket lists and the number of nodes in use.\<close>

definition off_buckets :: "CHashMap \<Rightarrow> CHashMap \<Rightarrow> bool" where
  "off_buckets s' s \<longleftrightarrow>
     add_next s' = add_next s \<and> add_prev s' = add_prev s \<and> payload s' = payload s \<and>
     m_add_head s' = m_add_head s \<and> m_add_tail s' = m_add_tail s \<and>
     m_node_free_list s' = m_node_free_list s \<and> length (m_bucket s') = length (m_bucket s) \<and>
     m_bucket_size s' = m_bucket_size s \<and> m_node_total s' = m_node_total s \<and>
     m_used_bucket_num s' = m_used_bucket_num s \<and>
     m_node_pool_tail s' = m_node_pool_tail s \<and> m_allocator s' = m_allocator s"

lemma c_int_small: "- (2 ^ 31) \<le> v \<Longrightarrow> v < 2 ^ 31 \<Longrightarrow> c_int v = v"
  unfolding c_int_def by (rule signed_take_bit_int_eq_self) simp_all

lemma get_bucket_id_ok:
  assumes "sizes_ok s"
  shows "get_bucket_id s key = Some (int (bucket_of s key))" and "bucket_of s key < length (m_bucket s)"
proof -
  have b: "0 < m_bucket_size s" "m_bucket_size s < 2 ^ 31" using assms by (simp_all add: sizes_ok_def)
  then have "c_unsigned (m_bucket_size s) = m_bucket_size s" by (simp add: c_unsigned_def)
  moreover have m: "0 \<le> key_uin key mod m_bucket_size s" "key_uin key mod m_bucket_size s < m_bucket_size s"
    using b by simp_all
  have "c_int (key_uin key mod m_bucket_size s) = key_uin key mod m_bucket_size s"
    by (rule c_int_small) (use m b in linarith)+
  ultimately show "get_bucket_id s key = Some (int (bucket_of s key))"
    using b by (simp add: get_bucket_id_def bucket_of_def Let_def)
  show "bucket_of s key < length (m_bucket s)"
    using assms b by (simp add: bucket_of_def sizes_ok_def nat_less_iff)
qed

lemma bucket_of_size: "m_bucket_size s' = m_bucket_size s \<Longrightarrow> bucket_of s' = bucket_of s"
  by (simp add: bucket_of_def fun_eq_iff)

lemma buckets_bucket:
  assumes "buckets_ok s U B" and "b < length (m_bucket s)"
  shows "dll (node_next s) (node_prev s) (m_bucket s ! b) (last_of (B b)) (B b)"
    and "set (B b) = {n \<in> U. bucket_of s (m_key (m_hash_node s n)) = b}"
  using assms by (simp_all add: buckets_ok_def)

lemma buckets_ok_update:
  assumes "buckets_ok s U B" and "b < length (m_bucket s)"
    and "m_bucket s' = (m_bucket s)[b := h]" and "m_bucket_size s' = m_bucket_size s"
    and "payload s' = payload s"
    and "dll (node_next s') (node_prev s') h (last_of xs) xs"
    and "set xs = {n \<in> U'. bucket_of s (m_key (m_hash_node s n)) = b}"
    and "\<And>n. bucket_of s (m_key (m_hash_node s n)) \<noteq> b \<Longrightarrow> n \<in> U' \<longleftrightarrow> n \<in> U"
    and "\<And>a. a \<in> U \<Longrightarrow> bucket_of s (m_key (m_hash_node s a)) \<noteq> b \<Longrightarrow>
           node_next s' a = node_next s a \<and> node_prev s' a = node_prev s a"
  shows "buckets_ok s' U' (B(b := xs))"
  unfolding buckets_ok_def
proof (intro allI impI)
  fix b' assume b': "b' < length (m_bucket s')"
  have bo: "bucket_of s' = bucket_of s" using assms(4) by (rule bucket_of_size)
  show "dll (node_next s') (node_prev s') (m_bucket s' ! b') (last_of ((B(b := xs)) b')) ((B(b := xs)) b') \<and>
    set ((B(b := xs)) b') = {n \<in> U'. bucket_of s' (m_key (payload s' n)) = b'}"
  proof (cases "b' = b")
    case True
    with assms(2,3,5-7) bo show ?thesis by simp
  next
    case False
    have B: "dll (node_next s) (node_prev s) (m_bucket s ! b') (last_of (B b')) (B b')"
      "set (B b') = {n \<in> U. bucket_of s (m_key (m_hash_node s n)) = b'}"
      using buckets_bucket [OF assms(1)] b' assms(3) by simp_all
    have "dll (node_next s') (node_prev s') (m_bucket s ! b') (last_of (B b')) (B b')"
      using B assms(9) False by (subst dll_cong [of _ _ "node_next s" _ "node_prev s"]) auto
    moreover have "{n \<in> U'. bucket_of s (m_key (m_hash_node s n)) = b'} = set (B b')"
      using B(2) assms(8) False by auto
    ultimately show ?thesis using False assms(3,5) bo by simp
  qed
qed

lemma bucket_frame [simp]:
  "node_next (s\<lparr>m_bucket := bs\<rparr>) = node_next s" "node_prev (s\<lparr>m_bucket := bs\<rparr>) = node_prev s"
  "add_next (s\<lparr>m_bucket := bs\<rparr>) = add_next s" "add_prev (s\<lparr>m_bucket := bs\<rparr>) = add_prev s"
  "payload (s\<lparr>m_bucket := bs\<rparr>) = payload s"
  "node_next (s\<lparr>m_used_node_num := k\<rparr>) = node_next s" "node_prev (s\<lparr>m_used_node_num := k\<rparr>) = node_prev s"
  "add_next (s\<lparr>m_used_node_num := k\<rparr>) = add_next s" "add_prev (s\<lparr>m_used_node_num := k\<rparr>) = add_prev s"
  "payload (s\<lparr>m_used_node_num := k\<rparr>) = payload s"
  "node_next (s\<lparr>m_node_free_list := h\<rparr>) = node_next s" "node_prev (s\<lparr>m_node_free_list := h\<rparr>) = node_prev s"
  "add_next (s\<lparr>m_node_free_list := h\<rparr>) = add_next s" "add_prev (s\<lparr>m_node_free_list := h\<rparr>) = add_prev s"
  "payload (s\<lparr>m_node_free_list := h\<rparr>) = payload s"
  "node_next (s\<lparr>m_allocator := a\<rparr>) = node_next s" "node_prev (s\<lparr>m_allocator := a\<rparr>) = node_prev s"
  "add_next (s\<lparr>m_allocator := a\<rparr>) = add_next s" "add_prev (s\<lparr>m_allocator := a\<rparr>) = add_prev s"
  "payload (s\<lparr>m_allocator := a\<rparr>) = payload s"
  by (simp_all add: node_field_defs fun_eq_iff)

lemma insert_node_list_spec:
  assumes "sizes_ok s" and "buckets_ok s U B" and "n \<notin> U" and "n \<noteq> -1" and "node_ptr2handler s (Some n) = n"
  defines "b \<equiv> bucket_of s (m_key (m_hash_node s n))"
  shows "\<exists>s'. insert_node_list n s = Some s' \<and> buckets_ok s' (insert n U) (B(b := n # B b)) \<and>
    off_buckets s' s \<and> m_used_node_num s' = m_used_node_num s + 1 \<and>
    (\<forall>a. a \<notin> U \<and> a \<noteq> n \<longrightarrow> node_next s' a = node_next s a)"
proof -
  have b: "get_bucket_id s (m_key (m_hash_node s n)) = Some (int b)" "b < length (m_bucket s)"
    using get_bucket_id_ok [OF assms(1)] by (simp_all add: b_def)
  define h where "h = m_bucket s ! b"
  note B = buckets_bucket [OF assms(2) b(2), folded h_def]
  define t1 where "t1 = set_node_prev n (-1) (set_node_next n h s)"
  define t2 where "t2 = (if h \<noteq> -1 then set_node_prev h n t1 else t1)"
  define s' where "s' = (if h \<noteq> -1 then set_node_prev h n (t1\<lparr>m_bucket := (m_bucket s)[b := n]\<rparr>)
     else t1\<lparr>m_bucket := (m_bucket s)[b := n]\<rparr>)\<lparr>m_used_node_num := m_used_node_num s + 1\<rparr>"
  have m1: "m_bucket t1 = m_bucket s" "m_used_node_num t1 = m_used_node_num s" "node_next t1 n = h"
    by (simp_all add: t1_def)
  have run: "insert_node_list n s = Some s'"
    using b assms(5) m1
    by (cases "h = -1")
      (simp_all add: insert_node_list_def bucket_at_def set_bucket_def h_def [symmetric] t1_def s'_def)
  have n: "n \<notin> set (B b)" using B(2) assms(3) by auto
  have links: "node_next s' = node_next t2" "node_prev s' = node_prev t2"
    by (simp_all add: s'_def t2_def)
  have d: "dll (node_next t2) (node_prev t2) n (last_of (n # B b)) (n # B b)"
    using bucket_links.push_front_dll [OF B(1) assms(4) n t1_def t2_def] by (rule dll_last_of)
  have out: "node_next s' a = node_next s a \<and> node_prev s' a = node_prev s a"
    if "a \<noteq> n" "a \<notin> set (B b)" for a
    using that dll_ends(1) [OF B(1)] by (auto simp: links t1_def t2_def)
  have fr: "off_buckets s' s" "m_used_node_num s' = m_used_node_num s + 1"
    "m_bucket s' = (m_bucket s)[b := n]"
    by (simp_all add: off_buckets_def s'_def t1_def)
  have "buckets_ok s' (insert n U) (B(b := n # B b))"
  proof (rule buckets_ok_update [OF assms(2) b(2) fr(3)])
    show "m_bucket_size s' = m_bucket_size s" "payload s' = payload s" using fr(1) by (simp_all add: off_buckets_def)
    show "dll (node_next s') (node_prev s') n (last_of (n # B b)) (n # B b)"
      using d links by simp
    show "set (n # B b) = {n' \<in> insert n U. bucket_of s (m_key (m_hash_node s n')) = b}"
      using B(2) by (auto simp: b_def)
    show "node_next s' a = node_next s a \<and> node_prev s' a = node_prev s a"
      if "a \<in> U" "bucket_of s (m_key (m_hash_node s a)) \<noteq> b" for a
      using out [of a] that B(2) by (auto simp: b_def)
  qed (auto simp: b_def)
  moreover have "node_next s' a = node_next s a" if "a \<notin> U" "a \<noteq> n" for a
    using out [of a] that B(2) by auto
  ultimately show ?thesis using run fr by blast
qed

lemma delete_from_node_list_spec:
  assumes "sizes_ok s" and "buckets_ok s U B" and "n \<in> U" and "node_ptr2handler s (Some n) = n"
  defines "b \<equiv> bucket_of s (m_key (m_hash_node s n))"
  shows "\<exists>s'. delete_from_node_list n s = Some s' \<and> buckets_ok s' (U - {n}) (B(b := remove1 n (B b))) \<and>
    off_buckets s' s \<and> m_used_node_num s' = m_used_node_num s - 1 \<and>
    node_next s' n = -1 \<and> node_prev s' n = -1 \<and> (\<forall>a. a \<notin> U \<longrightarrow> node_next s' a = node_next s a)"
proof -
  have b: "b < length (m_bucket s)"
    using get_bucket_id_ok [OF assms(1)] by (simp add: b_def)
  define h where "h = m_bucket s ! b"
  note B = buckets_bucket [OF assms(2) b, folded h_def]
  have "n \<in> set (B b)" using B(2) assms(3) by (simp add: b_def)
  then obtain as bs where Bb: "B b = as @ n # bs" "n \<notin> set as" by (auto dest: split_list_first)
  have rem: "remove1 n (B b) = as @ bs" using Bb by (simp add: remove1_append)
  have nn: "n \<notin> set (as @ bs)" using dll_distinct [OF B(1)] Bb by simp
  have d: "dll (node_next s) (node_prev s) h (last_of (B b)) (as @ n # bs)" using B(1) Bb by simp
  define t1 where "t1 = (if node_prev s n \<noteq> -1 then set_node_next (node_prev s n) (node_next s n) s else s)"
  define t2 where "t2 = (if node_next s n \<noteq> -1 then set_node_prev (node_next s n) (node_prev s n) t1 else t1)"
  define h' where "h' = (if h = n then node_next s n else h)"
  define t3 where "t3 = t2\<lparr>m_bucket := (m_bucket s)[b := h']\<rparr>"
  define s' where "s' = (set_node_prev n (-1) (set_node_next n (-1) t3))\<lparr>m_used_node_num := m_used_node_num s - 1\<rparr>"
  have np1: "node_prev t1 = node_prev s" by (simp add: t1_def)
  have m2: "m_bucket t2 = m_bucket s" "m_used_node_num t2 = m_used_node_num s" "m_bucket_size t2 = m_bucket_size s"
    "m_node_pool_tail t2 = m_node_pool_tail s" "payload t2 = payload s" "add_next t2 = add_next s" "add_prev t2 = add_prev s"
    by (simp_all add: t1_def t2_def)
  have id2: "get_bucket_id t2 (m_key (m_hash_node t2 n)) = Some (int b)"
  proof -
    have "sizes_ok t2" using assms(1) m2 by (simp add: sizes_ok_def)
    moreover have "m_key (m_hash_node t2 n) = m_key (m_hash_node s n)" by (rule payload_fields) (simp add: m2)
    ultimately show ?thesis by (simp add: get_bucket_id_ok b_def bucket_of_size [OF m2(3)])
  qed
  have hdr: "node_ptr2handler t2 (Some n) = n" using assms(4) by (simp add: node_ptr2handler_tail [OF m2(4)])
  have t3': "(if n = h then set_bucket (int b) (node_next s n) t2 else Some t2) = Some t3"
    using b m2 by (simp add: set_bucket_def t3_def h'_def h_def list_update_same_conv)
  have run: "delete_from_node_list n s = Some s'"
    unfolding delete_from_node_list_def Let_def t1_def [symmetric]
    unfolding np1 t2_def [symmetric] id2 hdr
    using b m2 t3' by (simp add: bucket_at_def h_def [symmetric]) (simp add: s'_def t3_def)
  have links: "node_next s' = (node_next t2)(n := -1)" "node_prev s' = (node_prev t2)(n := -1)"
    by (simp_all add: s'_def t3_def)
  have "dll (node_next t2) (node_prev t2) h' (last_of (as @ bs)) (as @ bs)"
    using bucket_links.unlink_dll [OF d t1_def t2_def] unfolding h'_def by (rule dll_last_of)
  then have d': "dll (node_next s') (node_prev s') h' (last_of (as @ bs)) (as @ bs)"
    using nn by (simp add: links)
  have out: "node_next s' a = node_next s a \<and> node_prev s' a = node_prev s a" if "a \<notin> set (B b)" for a
    using that dll_neighbours [OF d, of n] Bb by (auto simp: links t1_def t2_def)
  have fr: "off_buckets s' s" "m_used_node_num s' = m_used_node_num s - 1" "m_bucket s' = (m_bucket s)[b := h']"
    by (simp_all add: off_buckets_def s'_def t3_def m2, simp_all add: t1_def t2_def)
  have "buckets_ok s' (U - {n}) (B(b := remove1 n (B b)))"
  proof (rule buckets_ok_update [OF assms(2) b fr(3)])
    show "m_bucket_size s' = m_bucket_size s" "payload s' = payload s" using fr(1) by (simp_all add: off_buckets_def)
    show "dll (node_next s') (node_prev s') h' (last_of (remove1 n (B b))) (remove1 n (B b))"
      using d' rem by simp
    show "set (remove1 n (B b)) = {n' \<in> U - {n}. bucket_of s (m_key (m_hash_node s n')) = b}"
      using B(2) dll_distinct [OF B(1)] by auto
    show "node_next s' a = node_next s a \<and> node_prev s' a = node_prev s a"
      if "a \<in> U" "bucket_of s (m_key (m_hash_node s a)) \<noteq> b" for a
      using out [of a] that B(2) by auto
  qed (auto simp: b_def)
  moreover have "node_next s' a = node_next s a" if "a \<notin> U" for a
    using out [of a] that B(2) by auto
  ultimately show ?thesis using run fr links by auto
qed

end
