(* ===== verification/HashMapInv.thy ===== *)
theory HashMapInv
  imports HashMapLists "HOL-Library.Multiset"
begin

text \<open>
  The invariant of the hash map and what its operations do to the entries it holds. \<open>hm_ok s L V\<close>
  says that the pool \<open>s\<close> is in order and holds the entries \<open>V n\<close> for the nodes \<open>n\<close> of \<open>L\<close>, in order of
  use, the most recent first: the node array is split between \<open>L\<close> and the free list, every used node
  is on the list of its bucket and on no other, keys are unique, the chunk array is split between the
  values and the free chunks, and each value is held by as many chunks as it needs. The operations of
  the map are then described by what they do to \<open>L\<close> and \<open>V\<close>.
\<close>

record entry =
  e_key :: "byte list"
  e_data :: "byte list"
  e_info_1 :: int
  e_info_2 :: int
  e_flag :: int

definition node_offs :: "CHashMap \<Rightarrow> int list" where
  "node_offs s = map (\<lambda>i. hash_head_size + m_bucket_size s * 4 + int i * 64) [0..<nat (m_node_total s)]"

definition node_room :: "CHashMap \<Rightarrow> bool" where
  "node_room s \<longleftrightarrow> 0 \<le> m_node_total s \<and> sizes_ok s \<and>
     m_node_pool_tail s = hash_head_size + m_bucket_size s * 4 + m_node_total s * 64 \<and>
     m_node_pool_tail s < 2 ^ 31"

definition node_key :: "CHashMap \<Rightarrow> int \<Rightarrow> byte list" where
  "node_key s n = m_key (m_hash_node s n)"

definition hm_nodes :: "CHashMap \<Rightarrow> int list \<Rightarrow> int list \<Rightarrow> bool" where
  "hm_nodes s U F \<longleftrightarrow>
     node_room s \<and> chain (node_next s) (m_node_free_list s) F \<and> (\<exists>B. buckets_ok s (set U) B) \<and>
     mset (U @ F) = mset (node_offs s) \<and> distinct (map (node_key s) U) \<and>
     m_used_node_num s = int (length U) \<and> (\<forall>a\<in>set F. m_flag (m_hash_node s a) = 0)"

definition entry_at :: "CHashMap \<Rightarrow> int list \<Rightarrow> int \<Rightarrow> entry \<Rightarrow> bool" where
  "entry_at s xs n e \<longleftrightarrow>
     m_key (m_hash_node s n) = e_key e \<and> m_chunk_len (m_hash_node s n) = int (length (e_data e)) \<and>
     m_add_info_1 (m_hash_node s n) = e_info_1 e \<and> m_add_info_2 (m_hash_node s n) = e_info_2 e \<and>
     m_flag (m_hash_node s n) = e_flag e \<and>
     holds_value (chunk_next (m_allocator s)) (chunk_data (m_allocator s)) (m_chunk_head (m_hash_node s n)) xs (e_data e) \<and>
     int (length xs) = chunks_for (m_chunk_size (m_allocator s)) (int (length (e_data e)))"

definition hm_values :: "CHashMap \<Rightarrow> int list \<Rightarrow> (int \<Rightarrow> int list) \<Rightarrow> int list \<Rightarrow> (int \<Rightarrow> entry) \<Rightarrow> bool" where
  "hm_values s U X C V \<longleftrightarrow>
     alloc_ok (m_allocator s) C \<and> mset (concat (map X U) @ C) = mset (chunk_offs (m_allocator s)) \<and>
     (\<forall>n\<in>set U. entry_at s (X n) n (V n))"

definition hm_order :: "CHashMap \<Rightarrow> int list \<Rightarrow> int list \<Rightarrow> bool" where
  "hm_order s L F \<longleftrightarrow> order_ok s L \<and> (\<forall>a\<in>set F. add_next s a = -1 \<and> add_prev s a = -1)"

definition hm_ok :: "CHashMap \<Rightarrow> int list \<Rightarrow> (int \<Rightarrow> entry) \<Rightarrow> bool" where
  "hm_ok s L V \<longleftrightarrow> (\<exists>F X C. hm_nodes s L F \<and> hm_values s L X C V \<and> hm_order s L F)"

section \<open>The nodes of the pool\<close>

lemma mset_concat_map:
  assumes "mset U' = mset U"
  shows "mset (concat (map X U')) = mset (concat (map X U))"
proof -
  have "mset (concat (map X ys)) = sum_mset (image_mset (\<lambda>n. mset (X n)) (mset ys))" for ys
    by (induction ys) simp_all
  with assms show ?thesis by simp
qed

lemma node_offs_range:
  assumes "node_room s" and "a \<in> set (node_offs s)"
  shows "0 \<le> a" and "a < m_node_pool_tail s" and "a \<noteq> -1" and "node_ptr2handler s (Some a) = a"
proof -
  from assms(2) obtain i where i: "i < nat (m_node_total s)"
    "a = hash_head_size + m_bucket_size s * 4 + int i * 64" by (auto simp: node_offs_def)
  have "0 < m_bucket_size s" using assms(1) by (simp add: node_room_def sizes_ok_def)
  with i show p: "0 \<le> a" by (simp add: hash_head_size_def)
  show t: "a < m_node_pool_tail s" using i assms(1) by (simp add: node_room_def)
  from p show "a \<noteq> -1" by simp
  from p t show "node_ptr2handler s (Some a) = a" by (simp add: node_ptr2handler_def)
qed

lemma node_offs_distinct: "distinct (node_offs s)"
  by (auto simp: node_offs_def distinct_map inj_on_def)

lemma hm_nodes_parts:
  assumes "hm_nodes s U F"
  shows "node_room s" and "sizes_ok s" and "distinct (U @ F)" and "set U \<union> set F = set (node_offs s)"
    and "int (length U) + int (length F) = m_node_total s"
proof -
  have m: "mset (U @ F) = mset (node_offs s)" and r: "node_room s" using assms by (simp_all add: hm_nodes_def)
  show "node_room s" by (rule r)
  then show "sizes_ok s" by (simp add: node_room_def)
  show "distinct (U @ F)" using m node_offs_distinct mset_eq_imp_distinct_iff by blast
  show "set U \<union> set F = set (node_offs s)" using mset_eq_setD [OF m] by simp
  have "length (U @ F) = length (node_offs s)" using m mset_eq_length by blast
  then have "length U + length F = nat (m_node_total s)" by (simp add: node_offs_def)
  then show "int (length U) + int (length F) = m_node_total s"
    using r unfolding node_room_def by linarith
qed

lemma hm_used_node:
  assumes "hm_nodes s U F" and "n \<in> set U \<union> set F"
  shows "n \<noteq> -1" and "node_ptr2handler s (Some n) = n"
  using node_offs_range [of s n] hm_nodes_parts(1,4) [OF assms(1)] assms(2) by auto

lemma buckets_ok_cong:
  assumes "buckets_ok s U B" and "m_bucket s' = m_bucket s" and "m_bucket_size s' = m_bucket_size s"
    and "\<And>a. a \<in> U \<Longrightarrow> node_next s' a = node_next s a \<and> node_prev s' a = node_prev s a"
    and "\<And>a. a \<in> U \<Longrightarrow> node_key s' a = node_key s a"
  shows "buckets_ok s' U B"
  unfolding buckets_ok_def
proof (intro allI impI)
  fix b assume "b < length (m_bucket s')"
  then have b: "b < length (m_bucket s)" using assms(2) by simp
  note B = buckets_bucket [OF assms(1) b]
  have "dll (node_next s') (node_prev s') (m_bucket s ! b) (last_of (B b)) (B b)"
    using B assms(4) by (subst dll_cong [of _ _ "node_next s" _ "node_prev s"]) auto
  moreover have "{n \<in> U. bucket_of s' (m_key (payload s' n)) = b} = {n \<in> U. bucket_of s (m_key (payload s n)) = b}"
    using assms(5) bucket_of_size [OF assms(3)] by (auto simp: node_key_def)
  ultimately show "dll (node_next s') (node_prev s') (m_bucket s' ! b) (last_of (B b)) (B b) \<and>
    set (B b) = {n \<in> U. bucket_of s' (m_key (payload s' n)) = b}"
    using B(2) assms(2) by simp
qed

lemma hm_nodes_cong:
  assumes "hm_nodes s U F" and "mset U' = mset U"
    and "m_node_total s' = m_node_total s" "m_bucket_size s' = m_bucket_size s" "m_bucket s' = m_bucket s"
      "m_node_pool_tail s' = m_node_pool_tail s" "m_node_free_list s' = m_node_free_list s"
      "m_used_node_num s' = m_used_node_num s"
    and "node_next s' = node_next s" "node_prev s' = node_prev s"
    and "\<And>a. a \<in> set U \<Longrightarrow> node_key s' a = node_key s a"
    and "\<And>a. a \<in> set F \<Longrightarrow> m_flag (m_hash_node s' a) = m_flag (m_hash_node s a)"
  shows "hm_nodes s' U' F"
proof -
  have U: "set U' = set U" "length U' = length U" using assms(2) mset_eq_setD mset_eq_length by auto
  have "\<exists>B. buckets_ok s' (set U) B"
    using assms(1) buckets_ok_cong [of s "set U" _ s'] assms(4,5,9-11) unfolding hm_nodes_def by metis
  moreover have "distinct (map (node_key s') U')"
  proof -
    have "image_mset (node_key s') (mset U') = image_mset (node_key s) (mset U)"
      unfolding assms(2) using assms(11) by (intro image_mset_cong) simp
    then show ?thesis
      using assms(1) mset_eq_imp_distinct_iff [of "map (node_key s') U'" "map (node_key s) U"]
      by (simp add: hm_nodes_def)
  qed
  moreover have "node_offs s' = node_offs s" by (simp add: node_offs_def assms(3,4))
  ultimately show ?thesis
    using assms by (simp add: hm_nodes_def node_room_def sizes_ok_def U)
qed

lemma entry_at_cong:
  assumes "entry_at s xs n e" and "payload s' n = payload s n"
    and "m_chunk_size (m_allocator s') = m_chunk_size (m_allocator s)"
    and "\<And>a. a \<in> set xs \<Longrightarrow> chunk_next (m_allocator s') a = chunk_next (m_allocator s) a \<and>
           chunk_data (m_allocator s') a = chunk_data (m_allocator s) a"
  shows "entry_at s' xs n e"
  using assms(1) payload_fields [OF assms(2)] assms(3)
    holds_value_frame [of "chunk_next (m_allocator s)" "chunk_data (m_allocator s)" _ xs "e_data e"
      "chunk_next (m_allocator s')" "chunk_data (m_allocator s')"] assms(4)
  by (simp add: entry_at_def)

text \<open>Moving a node within the order of use touches nothing else.\<close>

lemma hm_off_order:
  assumes "hm_nodes s U F" and "hm_values s U X C V" and "off_order s' s" and "mset U' = mset U"
  shows "hm_nodes s' U' F" and "hm_values s' U' X C V"
proof -
  have p: "\<And>a. payload s' a = payload s a" using assms(3) by (simp add: off_order_def)
  have "set U' = set U" using assms(4) by (rule mset_eq_setD)
  have "mset (concat (map X U')) = mset (concat (map X U))"
    using assms(4) by (rule mset_concat_map)
  then show "hm_values s' U' X C V"
    using assms(2,3) entry_at_cong [of s _ _ _ s'] p \<open>set U' = set U\<close>
    by (simp add: hm_values_def off_order_def)
  show "hm_nodes s' U' F"
    by (rule hm_nodes_cong [OF assms(1,4)])
      (use assms(3) payload_fields [OF p] in \<open>simp_all add: off_order_def node_key_def\<close>)
qed

lemma hm_order_head:
  assumes "hm_order s L F" and "n \<noteq> -1" and "node_ptr2handler s (Some n) = n"
    and "n \<notin> set L \<Longrightarrow> add_next s n = -1 \<and> add_prev s n = -1"
    and "set L \<inter> set F = {}" and "n \<notin> set F"
  shows "hm_order (insert_add_list_head n s) (n # remove1 n L) F"
  using insert_add_list_head_spec [of s L n] assms by (auto simp: hm_order_def)

lemma hm_touch:
  assumes "hm_ok s L V" and "n \<in> set L"
  shows "hm_ok (insert_add_list_head n s) (n # remove1 n L) V"
proof -
  from assms(1) obtain F X C where ok: "hm_nodes s L F" "hm_values s L X C V" "hm_order s L F"
    by (auto simp: hm_ok_def)
  have "mset (n # remove1 n L) = mset L" using assms(2) by simp
  note hm_off_order [OF ok(1,2) off_order_insert_head this]
  moreover have "hm_order (insert_add_list_head n s) (n # remove1 n L) F"
    using hm_order_head [OF ok(3) hm_used_node [OF ok(1)]] hm_nodes_parts(3) [OF ok(1)] assms(2) by auto
  ultimately show ?thesis unfolding hm_ok_def by blast
qed

section \<open>Looking up a key\<close>

lemma find_node_loop_chain:
  "chain (node_next s) h xs \<Longrightarrow> find_node_loop s key h = Some (find (\<lambda>n. node_key s n = key) xs)"
proof (induction xs arbitrary: h)
  case Nil
  then show ?case by (simp add: find_node_loop.simps)
next
  case (Cons x xs)
  then show ?case by (subst find_node_loop.simps) (simp add: node_key_def)
qed

definition lookup_node :: "(int \<Rightarrow> entry) \<Rightarrow> int list \<Rightarrow> byte list \<Rightarrow> int option" where
  "lookup_node V L key = find (\<lambda>n. e_key (V n) = key) L"

lemma lookup_node_None: "lookup_node V L key = None \<longleftrightarrow> key \<notin> e_key ` V ` set L"
  by (auto simp: lookup_node_def find_None_iff)

lemma lookup_node_Some: "lookup_node V L key = Some n \<Longrightarrow> n \<in> set L \<and> e_key (V n) = key"
  by (auto simp: lookup_node_def find_Some_iff)

lemma hm_ok_keys:
  assumes "hm_ok s L V"
  shows "\<And>n. n \<in> set L \<Longrightarrow> node_key s n = e_key (V n)" and "distinct (map (\<lambda>n. e_key (V n)) L)" and "distinct L"
proof -
  from assms obtain F X C where ok: "hm_nodes s L F" "hm_values s L X C V" by (auto simp: hm_ok_def)
  then show k: "node_key s n = e_key (V n)" if "n \<in> set L" for n
    using that by (auto simp: hm_values_def entry_at_def node_key_def)
  have "map (node_key s) L = map (\<lambda>n. e_key (V n)) L" using k by simp
  moreover have "distinct (map (node_key s) L)" using ok(1) by (simp add: hm_nodes_def)
  ultimately show "distinct (map (\<lambda>n. e_key (V n)) L)" by metis
  then show "distinct L" by (simp add: distinct_map)
qed

lemma find_node_run:
  assumes "hm_ok s L V"
  shows "find_node key s =
    (case lookup_node V L key of None \<Rightarrow> Some (None, s) | Some n \<Rightarrow> Some (Some n, insert_add_list_head n s))"
proof -
  from assms obtain F where ok: "hm_nodes s L F" by (auto simp: hm_ok_def)
  then obtain B where bok: "buckets_ok s (set L) B" by (auto simp: hm_nodes_def)
  define b where "b = bucket_of s key"
  have b: "get_bucket_id s key = Some (int b)" "b < length (m_bucket s)"
    using get_bucket_id_ok [OF hm_nodes_parts(2) [OF ok]] by (simp_all add: b_def)
  note B = buckets_bucket [OF bok b(2)]
  have k: "\<And>n. n \<in> set L \<Longrightarrow> node_key s n = e_key (V n)" by (rule hm_ok_keys [OF assms])
  have loop: "find_node_loop s key (m_bucket s ! b) = Some (find (\<lambda>n. node_key s n = key) (B b))"
    using B(1) by (intro find_node_loop_chain) (simp add: dll_def)
  have "find (\<lambda>n. node_key s n = key) (B b) = lookup_node V L key"
  proof (cases "lookup_node V L key")
    case None
    then have "find (\<lambda>n. node_key s n = key) (B b) = None"
      using k B(2) by (auto simp: lookup_node_None find_None_iff)
    with None show ?thesis by simp
  next
    case (Some n)
    then have n: "n \<in> set L" "e_key (V n) = key" by (simp_all add: lookup_node_Some)
    then have "n \<in> set (B b)" using B(2) k [OF n(1)] by (simp add: b_def node_key_def)
    then have "find (\<lambda>n. node_key s n = key) (B b) \<noteq> None"
      using k [OF n(1)] n(2) by (auto simp: find_None_iff)
    then obtain n' where n': "find (\<lambda>n. node_key s n = key) (B b) = Some n'" by blast
    then have "n' \<in> set (B b)" "node_key s n' = key" by (auto simp: find_Some_iff)
    then have "n' \<in> set L" "node_key s n' = key" using B(2) by simp_all
    moreover have "inj_on (\<lambda>n. e_key (V n)) (set L)" using hm_ok_keys(2) [OF assms] by (simp add: distinct_map)
    ultimately have "n' = n" using n k [of n'] by (auto dest: inj_onD)
    with n' Some show ?thesis by simp
  qed
  with b loop show ?thesis by (simp add: find_node_def bucket_at_def split: option.splits)
qed

lemma find_node_spec:
  assumes "hm_ok s L V"
  shows "lookup_node V L key = None \<Longrightarrow> find_node key s = Some (None, s)"
    and "lookup_node V L key = Some n \<Longrightarrow>
      \<exists>s'. find_node key s = Some (Some n, s') \<and> hm_ok s' (n # remove1 n L) V"
  using find_node_run [OF assms, of key] hm_touch [OF assms, of n] lookup_node_Some [of V L key n] by auto

section \<open>Taking a node into use\<close>

lemma hash_node_upd [simp]: "m_hash_node (upd_node a f s) = (m_hash_node s)(a := f (m_hash_node s a))"
  by (simp add: upd_node_def)

lemma upd_node_links [simp]:
  "node_next (upd_node a f s) = (node_next s)(a := m_node_next (f (m_hash_node s a)))"
  "node_prev (upd_node a f s) = (node_prev s)(a := m_node_prev (f (m_hash_node s a)))"
  "add_next (upd_node a f s) = (add_next s)(a := m_add_next (f (m_hash_node s a)))"
  "add_prev (upd_node a f s) = (add_prev s)(a := m_add_prev (f (m_hash_node s a)))"
  "a \<noteq> b \<Longrightarrow> payload (upd_node a f s) b = payload s b"
  by (simp_all add: node_next_def node_prev_def add_next_def add_prev_def payload_def fun_eq_iff)

lemma links_unchanged [simp]:
  "(node_next s)(a := m_node_next (m_hash_node s a)) = node_next s"
  "(node_prev s)(a := m_node_prev (m_hash_node s a)) = node_prev s"
  "(add_next s)(a := m_add_next (m_hash_node s a)) = add_next s"
  "(add_prev s)(a := m_add_prev (m_hash_node s a)) = add_prev s"
  by (simp_all add: node_next_def node_prev_def add_next_def add_prev_def fun_eq_iff)

lemmas links_fold = node_next_def [symmetric] node_prev_def [symmetric] add_next_def [symmetric] add_prev_def [symmetric]

lemma order_ok_upd_node:
  assumes "\<And>x. m_add_next (f x) = m_add_next x" and "\<And>x. m_add_prev (f x) = m_add_prev x"
  shows "hm_order (upd_node n f s) L F = hm_order s L F"
  using assms by (simp add: hm_order_def order_ok_def)

lemma setter_fields [simp]:
  "m_flag (m_hash_node (set_node_next a v s) b) = m_flag (m_hash_node s b)"
  "m_flag (m_hash_node (set_node_prev a v s) b) = m_flag (m_hash_node s b)"
  "m_key (m_hash_node (set_node_next a v s) b) = m_key (m_hash_node s b)"
  "m_key (m_hash_node (set_node_prev a v s) b) = m_key (m_hash_node s b)"
  by (rule payload_fields; simp)+

lemma free_list_put_back:
  assumes "m_node_free_list s = n" and "n \<noteq> -1" and "node_ptr2handler s (Some n) = n"
  defines "t \<equiv> set_node_next n (-1) (s\<lparr>m_node_free_list := node_next s n\<rparr>)"
  shows "node_free_list_remove s = (Some n, t)" and "node_free_list_insert n t = s"
proof -
  show "node_free_list_remove s = (Some n, t)"
    using assms by (simp add: node_free_list_remove_def)
  have "node_free_list_insert n t = (set_node_next n (node_next s n) t)\<lparr>m_node_free_list := n\<rparr>"
    using node_ptr2handler_tail [of "set_node_next n (node_next s n) t" s "Some n"] assms(3)
    by (simp add: node_free_list_insert_def t_def)
  then show "node_free_list_insert n t = s"
    using assms(1) by (simp add: t_def set_node_next_def upd_node_def node_next_def)
qed

text \<open>There is room for a value when a node is free and the value has chunks and they are free.\<close>

definition room_for :: "CHashMap \<Rightarrow> byte list \<Rightarrow> bool" where
  "room_for s d \<longleftrightarrow> 0 < free_node_num s \<and> d \<noteq> [] \<and>
     chunks_for (m_chunk_size (m_allocator s)) (int (length d)) \<le> get_free_chunk_num (m_allocator s)"

lemma hm_free_nums:
  assumes "hm_nodes s L F" and "alloc_ok (m_allocator s) C"
  shows "free_node_num s = int (length F)" and "get_free_chunk_num (m_allocator s) = int (length C)"
  using hm_nodes_parts(5) [OF assms(1)] assms
  by (simp_all add: free_node_num_def hm_nodes_def get_free_chunk_num_def alloc_ok_def)

lemma insert_node_data_full:
  assumes "hm_ok s L V" and "\<not> room_for s d"
  shows "insert_node_data key d (int (length d)) s = Some (None, s)"
proof -
  from assms obtain F X C where ok: "hm_nodes s L F" "hm_values s L X C V" by (auto simp: hm_ok_def)
  define k where "k = chunks_for (m_chunk_size (m_allocator s)) (int (length d))"
  have al: "alloc_ok (m_allocator s) C" using ok(2) by (simp add: hm_values_def)
  note num = hm_free_nums [OF ok(1) al]
  have c: "0 < m_chunk_size (m_allocator s)" using al by (simp add: alloc_ok_def chunk_pool_ok_def)
  have free: "chain (node_next s) (m_node_free_list s) F" using ok(1) by (simp add: hm_nodes_def)
  show ?thesis
  proof (cases F)
    case Nil
    then show ?thesis using free by (simp add: insert_node_data_def node_free_list_remove_def)
  next
    case (Cons n F')
    then have n: "m_node_free_list s = n" "n \<noteq> -1" "node_ptr2handler s (Some n) = n"
      using free hm_used_node [OF ok(1), of n] by simp_all
    have m: "chunk_malloc k (m_allocator s) = Some (-1, m_allocator s)"
    proof (cases "d = []")
      case True
      then have "k = 0" using chunks_for_bounds(4) [OF c] by (simp add: k_def)
      then show ?thesis using al by (simp add: chunk_malloc_def chunk_ptr2handler_def alloc_ok_def)
    next
      case False
      then have "int (length C) < k" using assms(2) num Cons by (simp add: room_for_def k_def)
      then show ?thesis using al by (intro chunk_malloc_lack) (simp add: alloc_ok_def)
    qed
    define t where "t = set_node_next n (-1) (s\<lparr>m_node_free_list := node_next s n\<rparr>)"
    have tt: "m_allocator t = m_allocator s" "t\<lparr>m_allocator := m_allocator s\<rparr> = t"
      by (simp_all add: t_def set_node_next_def upd_node_def)
    show ?thesis
      using free_list_put_back [OF n, folded t_def] m c
      by (simp add: insert_node_data_def get_chunk_num_nonneg k_def [symmetric] tt)
  qed
qed

lemma use_free_node:
  fixes a
  assumes "hm_nodes s L (n # F)" and "hm_order s L (n # F)" and "key \<notin> node_key s ` set L"
  defines "t \<equiv> (set_node_next n (-1) (s\<lparr>m_node_free_list := node_next s n\<rparr>))\<lparr>m_allocator := a\<rparr>"
  shows "\<exists>s'. use_node n key len h t = Some s' \<and> hm_nodes s' (n # L) F \<and> hm_order s' L F \<and>
    add_next s' n = -1 \<and> add_prev s' n = -1 \<and> m_allocator s' = a \<and>
    (\<forall>b. b \<noteq> n \<longrightarrow> payload s' b = payload s b) \<and>
    m_key (m_hash_node s' n) = key \<and> m_chunk_len (m_hash_node s' n) = len \<and> m_chunk_head (m_hash_node s' n) = h \<and>
    m_add_info_1 (m_hash_node s' n) = 0 \<and> m_add_info_2 (m_hash_node s' n) = 0 \<and> m_flag (m_hash_node s' n) = 0"
proof -
  define u where "u = upd_node n (\<lambda>x. x\<lparr>m_key := key, m_chunk_len := len, m_chunk_head := h,
          m_add_info_1 := 0, m_add_info_2 := 0\<rparr>) t"
  obtain B where B: "buckets_ok s (set L) B" using assms(1) by (auto simp: hm_nodes_def)
  have n: "n \<notin> set L" "n \<notin> set F" "set L \<inter> set F = {}" using hm_nodes_parts(3) [OF assms(1)] by auto
  have n': "n \<noteq> -1" "node_ptr2handler s (Some n) = n" using hm_used_node [OF assms(1), of n] by simp_all
  have u: "node_next u = (node_next s)(n := -1)" "node_prev u = node_prev s" "m_bucket u = m_bucket s"
    "m_bucket_size u = m_bucket_size s" "m_node_total u = m_node_total s" "m_node_pool_tail u = m_node_pool_tail s"
    "m_used_node_num u = m_used_node_num s" "m_node_free_list u = node_next s n" "m_allocator u = a"
    "add_next u = add_next s" "add_prev u = add_prev s" "m_add_head u = m_add_head s" "m_add_tail u = m_add_tail s"
    by (simp_all add: u_def t_def links_fold)
  have pay: "payload u b = payload s b" if "b \<noteq> n" for b using that by (simp add: u_def t_def)
  have fields: "m_key (m_hash_node u n) = key" "m_chunk_len (m_hash_node u n) = len" "m_chunk_head (m_hash_node u n) = h"
    "m_add_info_1 (m_hash_node u n) = 0" "m_add_info_2 (m_hash_node u n) = 0" "m_flag (m_hash_node u n) = 0"
    using assms(1) by (simp_all add: u_def t_def hm_nodes_def)
  have keys: "node_key u b = node_key s b" if "b \<noteq> n" for b
    using payload_fields(1) [OF pay [OF that]] by (simp add: node_key_def)
  have "buckets_ok u (set L) B"
  proof (rule buckets_ok_cong [OF B])
    show "node_key u b = node_key s b" if "b \<in> set L" for b using keys [of b] n(1) that by auto
  qed (use n(1) in \<open>auto simp: u\<close>)
  moreover have "sizes_ok u" using hm_nodes_parts(2) [OF assms(1)] by (simp add: sizes_ok_def u)
  moreover have "node_ptr2handler u (Some n) = n" using n'(2) by (simp add: node_ptr2handler_tail [OF u(6)])
  ultimately obtain s' where s': "insert_node_list n u = Some s'"
      "buckets_ok s' (insert n (set L)) (B(bucket_of u (m_key (m_hash_node u n)) := n # B (bucket_of u (m_key (m_hash_node u n)))))"
      "off_buckets s' u" "m_used_node_num s' = m_used_node_num u + 1"
      "\<forall>b. b \<notin> set L \<and> b \<noteq> n \<longrightarrow> node_next s' b = node_next u b"
    using insert_node_list_spec [of u "set L" B n] n(1) n'(1) by blast
  have p': "\<And>b. payload s' b = payload u b" using s'(3) by (simp add: off_buckets_def)
  note f' = payload_fields [OF p']
  have k': "node_key s' b = (if b = n then key else node_key s b)" for b
    using f'(1) keys fields(1) by (simp add: node_key_def)
  have "hm_nodes s' (n # L) F"
    unfolding hm_nodes_def
  proof (intro conjI)
    show "node_room s'" "m_used_node_num s' = int (length (n # L))"
      using assms(1) s'(3,4) u by (simp_all add: hm_nodes_def node_room_def sizes_ok_def off_buckets_def)
    have "chain (node_next s) (node_next s n) F" using assms(1) by (simp add: hm_nodes_def)
    then show "chain (node_next s') (m_node_free_list s') F"
      using s'(3,5) u n by (subst chain_cong [of _ _ "node_next s"]) (auto simp: off_buckets_def)
    show "\<exists>B. buckets_ok s' (set (n # L)) B" using s'(2) by auto
    show "mset ((n # L) @ F) = mset (node_offs s')"
      using assms(1) s'(3) u by (simp add: hm_nodes_def node_offs_def off_buckets_def)
    have "map (node_key s') L = map (node_key s) L" using n(1) by (auto simp: k')
    moreover have "distinct (map (node_key s) L)" using assms(1) by (simp add: hm_nodes_def)
    ultimately have "distinct (map (node_key s') L)" by metis
    then show "distinct (map (node_key s') (n # L))" using assms(3) n(1) by (auto simp: k')
    have "m_flag (m_hash_node s' b) = m_flag (m_hash_node s b)" if "b \<in> set F" for b
      using f'(6) [of b] payload_fields(6) [OF pay, of b] that n(2) by auto
    then show "\<forall>b\<in>set F. m_flag (m_hash_node s' b) = 0" using assms(1) by (simp add: hm_nodes_def)
  qed
  moreover have "hm_order s' L F" "add_next s' n = -1" "add_prev s' n = -1"
    using assms(2) s'(3) u by (simp_all add: hm_order_def order_ok_def off_buckets_def)
  moreover have "m_allocator s' = a" "\<forall>b. b \<noteq> n \<longrightarrow> payload s' b = payload s b"
    using s'(3) u pay by (simp_all add: off_buckets_def)
  ultimately show ?thesis using s'(1) f' fields by (simp add: use_node_def u_def)
qed

lemma fresh_value:
  assumes "hm_values s L X C V" and "d \<noteq> []"
  defines "k \<equiv> chunks_for (m_chunk_size (m_allocator s)) (int (length d))"
  assumes "k \<le> int (length C)"
  defines "xs \<equiv> rev (take (nat k) C)"
  shows "\<exists>a1 a2. chunk_malloc k (m_allocator s) = Some (first_of xs, a1) \<and> first_of xs \<noteq> -1 \<and>
    chunk_split (first_of xs) d (int (length d)) a1 = Some a2 \<and> alloc_ok a2 (drop (nat k) C) \<and>
    holds_value (chunk_next a2) (chunk_data a2) (first_of xs) xs d \<and> int (length xs) = k \<and>
    chunk_offs a2 = chunk_offs (m_allocator s) \<and> m_chunk_size a2 = m_chunk_size (m_allocator s) \<and>
    (\<forall>b. b \<notin> set xs \<longrightarrow> chunk_next a2 b = chunk_next (m_allocator s) b \<and> chunk_data a2 b = chunk_data (m_allocator s) b)"
proof -
  have al: "alloc_ok (m_allocator s) C" using assms(1) by (simp add: hm_values_def)
  then have c: "0 < m_chunk_size (m_allocator s)" by (simp add: alloc_ok_def chunk_pool_ok_def)
  have k: "0 \<le> k" "k \<noteq> 0" using chunks_for_bounds(3,4) [OF c, of "int (length d)"] assms(2) by (simp_all add: k_def)
  have len: "int (length xs) = k" using k(1) assms(4) unfolding xs_def by simp
  have "length d \<le> nat k * nat (m_chunk_size (m_allocator s))"
  proof -
    have "nat k = length xs" using len by linarith
    moreover have "nat (int (length d)) \<le> length xs * nat (m_chunk_size (m_allocator s))"
      by (rule chunks_for_nat [OF c]) (simp_all add: len [unfolded k_def])
    ultimately show ?thesis by simp
  qed
  from cs.alloc_store [OF al k(1) assms(4) this, folded xs_def] obtain a1 a2 where
    r: "chunk_malloc k (m_allocator s) = Some (first_of xs, a1)"
      "chunk_split (first_of xs) d (int (length d)) a1 = Some a2" "alloc_ok a2 (drop (nat k) C)"
      "holds_value (chunk_next a2) (chunk_data a2) (first_of xs) xs d" "chunk_offs a2 = chunk_offs (m_allocator s)"
      "m_chunk_size a2 = m_chunk_size (m_allocator s)"
      "\<forall>b. b \<notin> set xs \<longrightarrow> chunk_next a2 b = chunk_next (m_allocator s) b \<and> chunk_data a2 b = chunk_data (m_allocator s) b"
    by blast
  obtain x ys where "xs = x # ys" using len k by (cases xs) auto
  moreover have "-1 \<notin> set xs" using r(4) by (auto simp: holds_value_def dest: chain_not_invalid)
  ultimately show ?thesis using r len by simp
qed

lemma distinct_concat_disjoint:
  assumes "distinct (concat (map X L))" and "n \<in> set L" and "m \<in> set L" and "n \<noteq> m"
  shows "set (X n) \<inter> set (X m) = {}"
  using assms
proof (induction L)
  case (Cons a L)
  then show ?case by (cases "a = n"; cases "a = m") auto
qed simp

text \<open>The chunk array is split between the values of the nodes \<open>L\<close> and the chunks \<open>D\<close>.\<close>

definition hm_part :: "CHashMap \<Rightarrow> int list \<Rightarrow> (int \<Rightarrow> int list) \<Rightarrow> int list \<Rightarrow> (int \<Rightarrow> entry) \<Rightarrow> bool" where
  "hm_part s L X D V \<longleftrightarrow>
     distinct (chunk_offs (m_allocator s)) \<and>
     mset (concat (map X L) @ D) = mset (chunk_offs (m_allocator s)) \<and> (\<forall>n\<in>set L. entry_at s (X n) n (V n))"

lemma hm_values_part: "hm_values s L X C V \<longleftrightarrow> alloc_ok (m_allocator s) C \<and> hm_part s L X C V"
  using chunk_offs_distinct [of "m_allocator s"] by (auto simp: hm_values_def hm_part_def alloc_ok_def)

lemma hm_part_chunks:
  assumes "hm_part s L X D V" and "n \<in> set L"
  shows "set (X n) \<subseteq> set (chunk_offs (m_allocator s))" and "set (X n) \<inter> set D = {}"
    and "m \<in> set L \<Longrightarrow> m \<noteq> n \<Longrightarrow> set (X n) \<inter> set (X m) = {}"
proof -
  have m: "mset (concat (map X L) @ D) = mset (chunk_offs (m_allocator s))"
    and "distinct (chunk_offs (m_allocator s))" using assms(1) by (simp_all add: hm_part_def)
  then have d: "distinct (concat (map X L) @ D)" using mset_eq_imp_distinct_iff by blast
  show "set (X n) \<subseteq> set (chunk_offs (m_allocator s))" using mset_eq_setD [OF m] assms(2) by auto
  show "set (X n) \<inter> set D = {}" using d assms(2) by auto
  show "m \<in> set L \<Longrightarrow> m \<noteq> n \<Longrightarrow> set (X n) \<inter> set (X m) = {}"
    using distinct_concat_disjoint [of X L n m] d assms(2) by auto
qed

text \<open>Values live on while nothing outside \<open>D\<close> is written.\<close>

lemma hm_part_frame:
  assumes "hm_part s L X D V" and "mset D' = mset D"
    and "chunk_offs (m_allocator s') = chunk_offs (m_allocator s)"
    and "m_chunk_size (m_allocator s') = m_chunk_size (m_allocator s)"
    and "\<And>b. b \<in> set L \<Longrightarrow> payload s' b = payload s b"
    and "\<And>b. b \<notin> set D \<Longrightarrow> chunk_next (m_allocator s') b = chunk_next (m_allocator s) b \<and>
           chunk_data (m_allocator s') b = chunk_data (m_allocator s) b"
  shows "hm_part s' L X D' V"
proof -
  have "entry_at s' (X m) m (V m)" if "m \<in> set L" for m
  proof (rule entry_at_cong)
    show "entry_at s (X m) m (V m)" using assms(1) that by (simp add: hm_part_def)
    show "payload s' m = payload s m" using assms(5) that by blast
    show "chunk_next (m_allocator s') a = chunk_next (m_allocator s) a \<and>
        chunk_data (m_allocator s') a = chunk_data (m_allocator s) a" if "a \<in> set (X m)" for a
      using assms(6) [of a] hm_part_chunks(2) [OF assms(1) \<open>m \<in> set L\<close>] that by blast
  qed (rule assms(4))
  then show ?thesis using assms(1-3) by (simp add: hm_part_def)
qed

lemma hm_part_add:
  assumes "hm_part s L X D V" and "n \<notin> set L" and "entry_at s xs n e" and "mset (xs @ C) = mset D"
  shows "hm_part s (n # L) (X(n := xs)) C (V(n := e))"
proof -
  have *: "map (X(n := xs)) L = map X L" using assms(2) by auto
  have "mset (concat (map (X(n := xs)) (n # L)) @ C) = mset (concat (map X L)) + mset (xs @ C)"
    by (simp add: * add.left_commute)
  also have "\<dots> = mset (concat (map X L) @ D)" unfolding assms(4) by simp
  also have "\<dots> = mset (chunk_offs (m_allocator s))" using assms(1) unfolding hm_part_def by blast
  finally show ?thesis using assms(1-3) by (auto simp: hm_part_def)
qed

lemma hm_part_remove:
  assumes "hm_part s L X C V" and "n \<in> set L"
  shows "hm_part s (remove1 n L) X (X n @ C) V"
proof -
  have "mset (concat (map X L)) = mset (concat (map X (n # remove1 n L)))"
    using assms(2) by (intro mset_concat_map) simp
  then have "mset (concat (map X (remove1 n L)) @ X n @ C) = mset (concat (map X L) @ C)"
    by (simp add: add.left_commute)
  then show ?thesis
    using assms(1) set_remove1_subset [of n L] unfolding hm_part_def by (metis subsetD)
qed

lemma hm_part_perm: "hm_part s L X D V \<Longrightarrow> mset L' = mset L \<Longrightarrow> hm_part s L' X D V"
  using mset_concat_map [of L' L X] mset_eq_setD [of L' L] by (simp add: hm_part_def)

definition new_entry :: "byte list \<Rightarrow> byte list \<Rightarrow> int \<Rightarrow> int \<Rightarrow> entry" where
  "new_entry key d i1 i2 = \<lparr>e_key = key, e_data = d, e_info_1 = i1, e_info_2 = i2, e_flag = 0\<rparr>"

lemma insert_node_data_room:
  assumes ok: "hm_nodes s L F" "hm_values s L X C V" "hm_order s L F"
    and "key \<notin> e_key ` V ` set L" and "room_for s d"
  shows "\<exists>n s' F' X' C'. insert_node_data key d (int (length d)) s = Some (Some n, s') \<and> n \<notin> set L \<and> n \<notin> set F' \<and>
    hm_nodes s' (n # L) F' \<and> hm_values s' (n # L) X' C' (V(n := new_entry key d 0 0)) \<and> hm_order s' L F' \<and>
    add_next s' n = -1 \<and> add_prev s' n = -1"
proof -
  have al: "alloc_ok (m_allocator s) C" using ok(2) by (simp add: hm_values_def)
  then have c: "0 < m_chunk_size (m_allocator s)" by (simp add: alloc_ok_def chunk_pool_ok_def)
  define k where "k = chunks_for (m_chunk_size (m_allocator s)) (int (length d))"
  define xs where "xs = rev (take (nat k) C)"
  have room: "F \<noteq> []" "d \<noteq> []" "k \<le> int (length C)"
    using assms(5) hm_free_nums [OF ok(1) al] by (simp_all add: room_for_def k_def)
  then obtain n F' where F: "F = n # F'" by (cases F) auto
  have n: "m_node_free_list s = n" "n \<noteq> -1" "node_ptr2handler s (Some n) = n" "n \<notin> set L" "n \<notin> set F'"
    using ok(1) hm_used_node [OF ok(1), of n] hm_nodes_parts(3) [OF ok(1)] F by (auto simp: hm_nodes_def)
  from fresh_value [OF ok(2) room(2), folded k_def, OF room(3), folded xs_def] obtain a1 a2 where
    a: "chunk_malloc k (m_allocator s) = Some (first_of xs, a1)" "first_of xs \<noteq> -1"
      "chunk_split (first_of xs) d (int (length d)) a1 = Some a2" "alloc_ok a2 (drop (nat k) C)"
      "holds_value (chunk_next a2) (chunk_data a2) (first_of xs) xs d" "int (length xs) = k"
      "chunk_offs a2 = chunk_offs (m_allocator s)" "m_chunk_size a2 = m_chunk_size (m_allocator s)"
      "\<forall>b. b \<notin> set xs \<longrightarrow> chunk_next a2 b = chunk_next (m_allocator s) b \<and> chunk_data a2 b = chunk_data (m_allocator s) b"
    by blast
  define t where "t = set_node_next n (-1) (s\<lparr>m_node_free_list := node_next s n\<rparr>)"
  have key: "key \<notin> node_key s ` set L"
    using assms(4) ok(2) by (auto simp: hm_values_def entry_at_def node_key_def)
  from use_free_node [OF ok(1,3) [unfolded F] key, of "int (length d)" "first_of xs" a2, folded t_def] obtain s' where
    s': "use_node n key (int (length d)) (first_of xs) (t\<lparr>m_allocator := a2\<rparr>) = Some s'" "hm_nodes s' (n # L) F'"
      "hm_order s' L F'" "add_next s' n = -1" "add_prev s' n = -1" "m_allocator s' = a2"
      "\<forall>b. b \<noteq> n \<longrightarrow> payload s' b = payload s b"
      "m_key (m_hash_node s' n) = key" "m_chunk_len (m_hash_node s' n) = int (length d)"
      "m_chunk_head (m_hash_node s' n) = first_of xs"
      "m_add_info_1 (m_hash_node s' n) = 0" "m_add_info_2 (m_hash_node s' n) = 0" "m_flag (m_hash_node s' n) = 0"
    by blast
  have run: "insert_node_data key d (int (length d)) s = Some (Some n, s')"
  proof -
    have "m_allocator t = m_allocator s" by (simp add: t_def)
    then show ?thesis
      using free_list_put_back(1) [OF n(1-3), folded t_def] a(1-3) c s'(1)
      by (simp add: insert_node_data_def get_chunk_num_nonneg k_def [symmetric])
  qed
  have "hm_part s' L X C V"
  proof (rule hm_part_frame)
    show "hm_part s L X C V" using ok(2) by (simp add: hm_values_part)
    show "payload s' b = payload s b" if "b \<in> set L" for b using s'(7) that n(4) by metis
    show "chunk_next (m_allocator s') b = chunk_next (m_allocator s) b \<and>
        chunk_data (m_allocator s') b = chunk_data (m_allocator s) b" if "b \<notin> set C" for b
      using a(9) s'(6) that set_take_subset [of "nat k" C] by (auto simp: xs_def)
  qed (use s' a in simp_all)
  moreover have "entry_at s' xs n (new_entry key d 0 0)"
    using s' a by (simp add: entry_at_def new_entry_def k_def)
  moreover have "mset (xs @ drop (nat k) C) = mset C"
    unfolding xs_def by (metis append_take_drop_id mset_append mset_rev)
  ultimately have "hm_part s' (n # L) (X(n := xs)) (drop (nat k) C) (V(n := new_entry key d 0 0))"
    using n(4) by (intro hm_part_add)
  then have "hm_values s' (n # L) (X(n := xs)) (drop (nat k) C) (V(n := new_entry key d 0 0))"
    using a(4) s'(6) by (simp add: hm_values_part)
  with run s' n show ?thesis by blast
qed

text \<open>The information fields of a used node.\<close>

lemma hm_info_upd:
  assumes ok: "hm_nodes s U F" "hm_values s U X C V" "hm_order s L F" and n: "n \<in> set U"
    and f: "\<And>x. m_key (f x) = m_key x" "\<And>x. m_chunk_len (f x) = m_chunk_len x" "\<And>x. m_chunk_head (f x) = m_chunk_head x"
      "\<And>x. m_node_next (f x) = m_node_next x" "\<And>x. m_node_prev (f x) = m_node_prev x"
      "\<And>x. m_add_next (f x) = m_add_next x" "\<And>x. m_add_prev (f x) = m_add_prev x"
  defines "s' \<equiv> upd_node n f s"
  defines "e \<equiv> (V n)\<lparr>e_info_1 := m_add_info_1 (f (m_hash_node s n)),
    e_info_2 := m_add_info_2 (f (m_hash_node s n)), e_flag := m_flag (f (m_hash_node s n))\<rparr>"
  shows "hm_nodes s' U F" and "hm_values s' U X C (V(n := e))" and "hm_order s' L F"
proof -
  have nF: "n \<notin> set F" using hm_nodes_parts(3) [OF ok(1)] n by auto
  show "hm_nodes s' U F"
    by (rule hm_nodes_cong [OF ok(1)]) (use nF f in \<open>auto simp: s'_def node_key_def\<close>)
  show "hm_order s' L F" unfolding s'_def using order_ok_upd_node [OF f(6,7)] ok(3) by simp
  have "entry_at s' (X m) m ((V(n := e)) m)" if "m \<in> set U" for m
  proof (cases "m = n")
    case True
    have "entry_at s (X n) n (V n)" using ok(2) n by (simp add: hm_values_def)
    then show ?thesis using True f by (simp add: entry_at_def s'_def e_def)
  next
    case False
    have "entry_at s (X m) m (V m)" using ok(2) that by (simp add: hm_values_def)
    then show ?thesis using False by (auto intro!: entry_at_cong [of s] simp: s'_def)
  qed
  then show "hm_values s' U X C (V(n := e))" using ok(2) by (simp add: hm_values_def s'_def)
qed

lemma hm_ok_info_upd:
  assumes "hm_ok s L V" and "n \<in> set L"
    and "\<And>x. m_key (f x) = m_key x" "\<And>x. m_chunk_len (f x) = m_chunk_len x" "\<And>x. m_chunk_head (f x) = m_chunk_head x"
      "\<And>x. m_node_next (f x) = m_node_next x" "\<And>x. m_node_prev (f x) = m_node_prev x"
      "\<And>x. m_add_next (f x) = m_add_next x" "\<And>x. m_add_prev (f x) = m_add_prev x"
  shows "hm_ok (upd_node n f s) L (V(n := (V n)\<lparr>e_info_1 := m_add_info_1 (f (m_hash_node s n)),
    e_info_2 := m_add_info_2 (f (m_hash_node s n)), e_flag := m_flag (f (m_hash_node s n))\<rparr>))"
  using assms(1) hm_info_upd [OF _ _ _ assms(2-9)] unfolding hm_ok_def by meson

lemma hm_ok_fields:
  assumes "hm_ok s L V" and "n \<in> set L"
  shows "m_key (m_hash_node s n) = e_key (V n)" "m_chunk_len (m_hash_node s n) = int (length (e_data (V n)))"
    "m_add_info_1 (m_hash_node s n) = e_info_1 (V n)" "m_add_info_2 (m_hash_node s n) = e_info_2 (V n)"
    "m_flag (m_hash_node s n) = e_flag (V n)"
  using assms by (auto simp: hm_ok_def hm_values_def entry_at_def)

lemma insert_new_node:
  assumes "hm_ok s L V" and "key \<notin> e_key ` V ` set L" and "room_for s d"
    and f: "\<And>x. m_key (f x) = m_key x" "\<And>x. m_chunk_len (f x) = m_chunk_len x" "\<And>x. m_chunk_head (f x) = m_chunk_head x"
      "\<And>x. m_node_next (f x) = m_node_next x" "\<And>x. m_node_prev (f x) = m_node_prev x"
      "\<And>x. m_add_next (f x) = m_add_next x" "\<And>x. m_add_prev (f x) = m_add_prev x"
      "\<And>x. m_add_info_1 (f x) = i1" "\<And>x. m_add_info_2 x = 0 \<Longrightarrow> m_add_info_2 (f x) = i2" "\<And>x. m_flag (f x) = m_flag x"
  shows "\<exists>n s1. insert_node_data key d (int (length d)) s = Some (Some n, s1) \<and> n \<notin> set L \<and>
    hm_ok (insert_add_list_head n (upd_node n f s1)) (n # L) (V(n := new_entry key d i1 i2))"
proof -
  from assms(1) obtain F X C where ok: "hm_nodes s L F" "hm_values s L X C V" "hm_order s L F"
    by (auto simp: hm_ok_def)
  from insert_node_data_room [OF ok assms(2,3)] obtain n s1 F' X' C' where
    r: "insert_node_data key d (int (length d)) s = Some (Some n, s1)" "n \<notin> set L" "n \<notin> set F'"
      "hm_nodes s1 (n # L) F'" "hm_values s1 (n # L) X' C' (V(n := new_entry key d 0 0))" "hm_order s1 L F'"
      "add_next s1 n = -1" "add_prev s1 n = -1"
    by blast
  define t where "t = upd_node n f s1"
  have info: "m_add_info_2 (m_hash_node s1 n) = 0" "m_flag (m_hash_node s1 n) = 0"
    using r(5) by (auto simp: hm_values_def entry_at_def new_entry_def)
  note t = hm_info_upd [OF r(4-6) _ f(1-7), of n, folded t_def]
  have "V(n := new_entry key d 0 0, n := (new_entry key d 0 0)\<lparr>e_info_1 := m_add_info_1 (f (m_hash_node s1 n)),
      e_info_2 := m_add_info_2 (f (m_hash_node s1 n)), e_flag := m_flag (f (m_hash_node s1 n))\<rparr>) =
      V(n := new_entry key d i1 i2)"
    using info f(8-10) by (simp add: new_entry_def)
  then have v: "hm_values t (n # L) X' C' (V(n := new_entry key d i1 i2))"
    using t(2) by simp
  have "hm_order (insert_add_list_head n t) (n # remove1 n L) F'"
  proof (rule hm_order_head)
    show "hm_order t L F'" using t(3) by simp
    show "n \<noteq> -1" "node_ptr2handler t (Some n) = n"
      using hm_used_node [of t "n # L" F' n] t(1) by simp_all
    show "add_next t n = -1 \<and> add_prev t n = -1" using r(7,8) f by (simp add: t_def links_fold)
    show "set L \<inter> set F' = {}" using hm_nodes_parts(3) [OF r(4)] by auto
  qed (rule r(3))
  then have "hm_order (insert_add_list_head n t) (n # L) F'" using r(2) by (simp add: remove1_idem)
  moreover note hm_off_order [OF t(1) v off_order_insert_head, of "n # L" n]
  ultimately have "hm_ok (insert_add_list_head n t) (n # L) (V(n := new_entry key d i1 i2))"
    unfolding hm_ok_def by auto
  with r(1,2) show ?thesis by (auto simp: t_def)
qed

lemma insert_node_spec:
  assumes "hm_ok s L V" and "key \<notin> e_key ` V ` set L"
  shows "\<not> room_for s d \<Longrightarrow> insert_node key d (int (length d)) now s = Some (None, s)"
    and "room_for s d \<Longrightarrow> \<exists>n s'. insert_node key d (int (length d)) now s = Some (Some n, s') \<and>
      n \<notin> set L \<and> hm_ok s' (n # L) (V(n := new_entry key d now 0))"
proof -
  show "insert_node key d (int (length d)) now s = Some (None, s)" if "\<not> room_for s d"
    using insert_node_data_full [OF assms(1) that] by (simp add: insert_node_def)
  assume "room_for s d"
  from insert_new_node [OF assms this, where f = "\<lambda>x. x\<lparr>m_add_info_1 := now\<rparr>" and ?i1.0 = now and ?i2.0 = 0]
  obtain n s1 where "insert_node_data key d (int (length d)) s = Some (Some n, s1)" "n \<notin> set L"
    "hm_ok (insert_add_list_head n (upd_node n (\<lambda>x. x\<lparr>m_add_info_1 := now\<rparr>) s1)) (n # L) (V(n := new_entry key d now 0))"
    by auto
  then show "\<exists>n s'. insert_node key d (int (length d)) now s = Some (Some n, s') \<and>
      n \<notin> set L \<and> hm_ok s' (n # L) (V(n := new_entry key d now 0))"
    by (simp add: insert_node_def)
qed

lemma insert_node_metadata_spec:
  assumes "hm_ok s L V" and "key \<notin> e_key ` V ` set L"
  shows "\<not> room_for s d \<Longrightarrow> insert_node_metadata key d (int (length d)) expire now s = Some (None, s)"
    and "room_for s d \<Longrightarrow> \<exists>n s'. insert_node_metadata key d (int (length d)) expire now s = Some (Some n, s') \<and>
      n \<notin> set L \<and> hm_ok s' (n # L) (V(n := new_entry key d now expire))"
proof -
  show "insert_node_metadata key d (int (length d)) expire now s = Some (None, s)" if "\<not> room_for s d"
    using insert_node_data_full [OF assms(1) that] by (simp add: insert_node_metadata_def)
  assume "room_for s d"
  from insert_new_node [OF assms this, where f = "\<lambda>x. x\<lparr>m_add_info_1 := now, m_add_info_2 := expire\<rparr>"
      and ?i1.0 = now and ?i2.0 = expire]
  obtain n s1 where "insert_node_data key d (int (length d)) s = Some (Some n, s1)" "n \<notin> set L"
    "hm_ok (insert_add_list_head n (upd_node n (\<lambda>x. x\<lparr>m_add_info_1 := now, m_add_info_2 := expire\<rparr>) s1)) (n # L)
       (V(n := new_entry key d now expire))"
    by auto
  then show "\<exists>n s'. insert_node_metadata key d (int (length d)) expire now s = Some (Some n, s') \<and>
      n \<notin> set L \<and> hm_ok s' (n # L) (V(n := new_entry key d now expire))"
    by (simp add: insert_node_metadata_def)
qed

end
