(* ===== verification/HashMapOps.thy ===== *)
theory HashMapOps
  imports HashMapInv
begin

text \<open>
  What the remaining operations of the hash map do to the entries: replacing the value of a node,
  deleting a node, reading a value, and opening a fresh pool.
\<close>

section \<open>Replacing a value\<close>

text \<open>A value fits in place of another when its chunks suffice together with the free ones.\<close>

definition fits_for :: "CHashMap \<Rightarrow> byte list \<Rightarrow> byte list \<Rightarrow> bool" where
  "fits_for s old d \<longleftrightarrow>
     chunks_for (m_chunk_size (m_allocator s)) (int (length d)) \<le>
     get_free_chunk_num (m_allocator s) + chunks_for (m_chunk_size (m_allocator s)) (int (length old))"

lemma replace_value:
  assumes ok: "hm_nodes s L F" "hm_values s L X C V" "hm_order s L F" and n: "n \<in> set L"
    and a: "alloc_ok a C'" "chunk_offs a = chunk_offs (m_allocator s)" "m_chunk_size a = m_chunk_size (m_allocator s)"
      "holds_value (chunk_next a) (chunk_data a) h xs d" "mset (xs @ C') = mset (X n @ C)"
      "int (length xs) = chunks_for (m_chunk_size a) (int (length d))"
      "\<And>b. b \<notin> set (X n @ C) \<Longrightarrow> chunk_next a b = chunk_next (m_allocator s) b \<and>
             chunk_data a b = chunk_data (m_allocator s) b"
  defines "s' \<equiv> upd_node n (\<lambda>x. x\<lparr>m_chunk_len := int (length d), m_chunk_head := h\<rparr>) (s\<lparr>m_allocator := a\<rparr>)"
  shows "hm_nodes s' L F" and "hm_values s' L (X(n := xs)) C' (V(n := (V n)\<lparr>e_data := d\<rparr>))" and "hm_order s' L F"
proof -
  show "hm_nodes s' L F"
    by (rule hm_nodes_cong [OF ok(1)]) (auto simp: s'_def node_key_def)
  have "hm_order (s\<lparr>m_allocator := a\<rparr>) L F" using ok(3) by (simp add: hm_order_def order_ok_def)
  then show "hm_order s' L F" by (simp add: s'_def order_ok_upd_node)
  have L: "distinct L" using hm_nodes_parts(3) [OF ok(1)] by simp
  have p: "hm_part s L X C V" using ok(2) by (simp add: hm_values_part)
  have "hm_part s' (remove1 n L) X (X n @ C) V"
    by (rule hm_part_frame [OF hm_part_remove [OF p n]]) (use a(2,3,7) L in \<open>auto simp: s'_def\<close>)
  moreover have "entry_at s' xs n ((V n)\<lparr>e_data := d\<rparr>)"
    using ok(2) n a by (simp add: hm_values_def entry_at_def s'_def)
  ultimately have "hm_part s' (n # remove1 n L) (X(n := xs)) C' (V(n := (V n)\<lparr>e_data := d\<rparr>))"
    using L by (intro hm_part_add [OF _ _ _ a(5)]) simp_all
  then have "hm_part s' L (X(n := xs)) C' (V(n := (V n)\<lparr>e_data := d\<rparr>))"
    by (rule hm_part_perm) (use n in simp)
  then show "hm_values s' L (X(n := xs)) C' (V(n := (V n)\<lparr>e_data := d\<rparr>))"
    using a(1) by (simp add: hm_values_part s'_def)
qed

lemma free_then_store:
  fixes d :: "byte list"
  assumes "hm_values s L X C V" and "n \<in> set L"
  defines "k \<equiv> chunks_for (m_chunk_size (m_allocator s)) (int (length d))"
  assumes "k \<le> int (length (X n) + length C)"
  shows "\<exists>a1 h a2 a3 xs C'. chunk_free (m_chunk_head (m_hash_node s n)) (m_allocator s) = Some a1 \<and>
    chunk_malloc k a1 = Some (h, a2) \<and> chunk_split h d (int (length d)) a2 = Some a3 \<and>
    alloc_ok a3 C' \<and> chunk_offs a3 = chunk_offs (m_allocator s) \<and> m_chunk_size a3 = m_chunk_size (m_allocator s) \<and>
    holds_value (chunk_next a3) (chunk_data a3) h xs d \<and> mset (xs @ C') = mset (X n @ C) \<and> int (length xs) = k \<and>
    (\<forall>b. b \<notin> set (X n @ C) \<longrightarrow> chunk_next a3 b = chunk_next (m_allocator s) b \<and> chunk_data a3 b = chunk_data (m_allocator s) b)"
proof -
  have al: "alloc_ok (m_allocator s) C" and p: "hm_part s L X C V" using assms(1) by (simp_all add: hm_values_part)
  have c: "0 < m_chunk_size (m_allocator s)" using al by (simp add: alloc_ok_def chunk_pool_ok_def)
  have "chain (chunk_next (m_allocator s)) (m_chunk_head (m_hash_node s n)) (X n)"
    using assms(1,2) by (auto simp: hm_values_def entry_at_def holds_value_def)
  from cs.release_law [OF al this] obtain a1 where
    a1: "chunk_free (m_chunk_head (m_hash_node s n)) (m_allocator s) = Some a1" "alloc_ok a1 (rev (X n) @ C)"
      "\<forall>b. b \<notin> set (X n) \<longrightarrow> chunk_next a1 b = chunk_next (m_allocator s) b"
      "chunk_data a1 = chunk_data (m_allocator s)" "chunk_offs a1 = chunk_offs (m_allocator s)"
      "m_chunk_size a1 = m_chunk_size (m_allocator s)"
    using hm_part_chunks(1,2) [OF p assms(2)] by blast
  define fs where "fs = rev (X n) @ C"
  define xs where "xs = rev (take (nat k) fs)"
  have k: "0 \<le> k" using chunks_for_bounds(3) [OF c] by (simp add: k_def)
  have kl: "k \<le> int (length fs)" using assms(4) by (simp add: fs_def)
  have len: "int (length xs) = k" using k kl unfolding xs_def by simp
  have "nat k = length xs" using len by linarith
  moreover have "nat (int (length d)) \<le> length xs * nat (m_chunk_size (m_allocator s))"
    by (rule chunks_for_nat [OF c]) (simp_all add: len [unfolded k_def])
  ultimately have "length d \<le> nat k * nat (m_chunk_size a1)" using a1(6) by simp
  from cs.alloc_store [OF a1(2) [folded fs_def] k kl this, folded xs_def] obtain a2 a3 where
    r: "chunk_malloc k a1 = Some (first_of xs, a2)" "chunk_split (first_of xs) d (int (length d)) a2 = Some a3"
      "alloc_ok a3 (drop (nat k) fs)" "holds_value (chunk_next a3) (chunk_data a3) (first_of xs) xs d"
      "chunk_offs a3 = chunk_offs a1" "m_chunk_size a3 = m_chunk_size a1"
      "\<forall>b. b \<notin> set xs \<longrightarrow> chunk_next a3 b = chunk_next a1 b \<and> chunk_data a3 b = chunk_data a1 b"
    by blast
  have "mset (xs @ drop (nat k) fs) = mset fs" unfolding xs_def by (metis append_take_drop_id mset_append mset_rev)
  then have "mset (xs @ drop (nat k) fs) = mset (X n @ C)" by (simp add: fs_def)
  moreover have "set xs \<subseteq> set (X n @ C)" using set_take_subset [of "nat k" fs] by (auto simp: xs_def fs_def)
  ultimately show ?thesis using a1 r len by (intro exI conjI) (auto dest: subsetD)
qed

lemma update_node_data_spec:
  assumes ok: "hm_nodes s L F" "hm_values s L X C V" "hm_order s L F" and n: "n \<in> set L"
  shows "\<not> fits_for s (e_data (V n)) d \<Longrightarrow> update_node_data n d (int (length d)) s = Some (False, s)"
    and "fits_for s (e_data (V n)) d \<Longrightarrow> \<exists>s' X' C'. update_node_data n d (int (length d)) s = Some (True, s') \<and>
      hm_nodes s' L F \<and> hm_values s' L X' C' (V(n := (V n)\<lparr>e_data := d\<rparr>)) \<and> hm_order s' L F"
proof -
  define c where "c = m_chunk_size (m_allocator s)"
  define old where "old = chunks_for c (int (length (e_data (V n))))"
  define new where "new = chunks_for c (int (length d))"
  have al: "alloc_ok (m_allocator s) C" and p: "hm_part s L X C V" using ok(2) by (simp_all add: hm_values_part)
  then have c: "0 < c" by (simp add: alloc_ok_def chunk_pool_ok_def c_def)
  have ent: "m_chunk_len (m_hash_node s n) = int (length (e_data (V n)))" "int (length (X n)) = old"
    and hv: "chain (chunk_next (m_allocator s)) (m_chunk_head (m_hash_node s n)) (X n)"
    using ok(2) n by (auto simp: hm_values_def entry_at_def holds_value_def old_def c_def)
  have num: "get_chunk_num (m_allocator s) (m_chunk_len (m_hash_node s n)) = Some old"
    "get_chunk_num (m_allocator s) (int (length d)) = Some new"
    using get_chunk_num_nonneg [of "m_allocator s"] c ent(1) by (simp_all add: c_def old_def new_def)
  have free: "get_free_chunk_num (m_allocator s) = int (length C)"
    using al by (simp add: get_free_chunk_num_def alloc_ok_def)
  have fit: "fits_for s (e_data (V n)) d \<longleftrightarrow> new \<le> int (length C) + old"
    by (simp add: fits_for_def free new_def old_def c_def)
  note run = update_node_data_def num free
  show "update_node_data n d (int (length d)) s = Some (False, s)" if "\<not> fits_for s (e_data (V n)) d"
    using that fit by (simp add: run)
  assume "fits_for s (e_data (V n)) d"
  then have le: "new \<le> int (length C) + old" using fit by simp
  show "\<exists>s' X' C'. update_node_data n d (int (length d)) s = Some (True, s') \<and>
      hm_nodes s' L F \<and> hm_values s' L X' C' (V(n := (V n)\<lparr>e_data := d\<rparr>)) \<and> hm_order s' L F"
  proof (cases "old = new")
    case True
    have "nat (int (length d)) \<le> length (X n) * nat (m_chunk_size (m_allocator s))"
      by (rule chunks_for_nat) (use c ent(2) True in \<open>simp_all add: c_def new_def\<close>)
    then have "length d \<le> length (X n) * nat (m_chunk_size (m_allocator s))" by simp
    from cs.store_law [OF al hv _ this] obtain a where
      a: "chunk_split (m_chunk_head (m_hash_node s n)) d (int (length d)) (m_allocator s) = Some a" "alloc_ok a C"
        "chunk_next a = chunk_next (m_allocator s)"
        "\<forall>b. b \<notin> set (X n) \<longrightarrow> chunk_data a b = chunk_data (m_allocator s) b"
        "chunk_offs a = chunk_offs (m_allocator s)" "m_chunk_size a = m_chunk_size (m_allocator s)"
        "holds_value (chunk_next a) (chunk_data a) (m_chunk_head (m_hash_node s n)) (X n) d"
      using hm_part_chunks(1) [OF p n] by blast
    have "upd_node n (\<lambda>x. x\<lparr>m_chunk_len := int (length d)\<rparr>) (s\<lparr>m_allocator := a\<rparr>) =
        upd_node n (\<lambda>x. x\<lparr>m_chunk_len := int (length d), m_chunk_head := m_chunk_head (m_hash_node s n)\<rparr>) (s\<lparr>m_allocator := a\<rparr>)"
      by (simp add: upd_node_def)
    then have "update_node_data n d (int (length d)) s = Some (True,
        upd_node n (\<lambda>x. x\<lparr>m_chunk_len := int (length d), m_chunk_head := m_chunk_head (m_hash_node s n)\<rparr>) (s\<lparr>m_allocator := a\<rparr>))"
      using True a(1) by (simp add: run)
    then show ?thesis
      using replace_value [OF ok n a(2,5,6,7), OF refl] a(3,4,6) ent(2) True
      by (auto simp: c_def new_def)
  next
    case False
    have "new \<le> int (length (X n) + length C)" using le ent(2) by simp
    from free_then_store [OF ok(2) n, of d, folded c_def, folded new_def, OF this] obtain a1 h a2 a3 xs C' where
      a: "chunk_free (m_chunk_head (m_hash_node s n)) (m_allocator s) = Some a1"
        "chunk_malloc new a1 = Some (h, a2)" "chunk_split h d (int (length d)) a2 = Some a3"
        "alloc_ok a3 C'" "chunk_offs a3 = chunk_offs (m_allocator s)" "m_chunk_size a3 = c"
        "holds_value (chunk_next a3) (chunk_data a3) h xs d" "mset (xs @ C') = mset (X n @ C)" "int (length xs) = new"
        "\<forall>b. b \<notin> set (X n @ C) \<longrightarrow> chunk_next a3 b = chunk_next (m_allocator s) b \<and> chunk_data a3 b = chunk_data (m_allocator s) b"
      by blast
    then have "update_node_data n d (int (length d)) s = Some (True,
        upd_node n (\<lambda>x. x\<lparr>m_chunk_len := int (length d), m_chunk_head := h\<rparr>) (s\<lparr>m_allocator := a3\<rparr>))"
      using False le by (simp add: run)
    moreover have "int (length xs) = chunks_for (m_chunk_size a3) (int (length d))"
      using a(6,9) by (simp add: new_def)
    ultimately show ?thesis
      using replace_value [OF ok n a(4,5) a(6) [unfolded c_def] a(7,8)] a(10) by blast
  qed
qed

section \<open>Reading a value\<close>

lemma merge_node_data_spec:
  assumes "hm_ok s L V" and "n \<in> set L"
  shows "length (e_data (V n)) \<le> length buf \<Longrightarrow> merge_node_data s n buf (int (length buf)) =
      Some (0, e_data (V n) @ drop (length (e_data (V n))) buf, int (length (e_data (V n))))"
    and "data_len < int (length (e_data (V n))) \<Longrightarrow>
      merge_node_data s n buf data_len = Some (-2, buf, int (length (e_data (V n))))"
proof -
  from assms(1) obtain X C where v: "hm_values s L X C V" by (auto simp: hm_ok_def)
  then have p: "hm_part s L X C V" "chunk_pool_ok (m_allocator s)" by (simp_all add: hm_values_part alloc_ok_def)
  have e: "m_chunk_len (m_hash_node s n) = int (length (e_data (V n)))"
    "holds_value (chunk_next (m_allocator s)) (chunk_data (m_allocator s)) (m_chunk_head (m_hash_node s n)) (X n) (e_data (V n))"
    using v assms(2) by (auto simp: hm_values_def entry_at_def)
  show "length (e_data (V n)) \<le> length buf \<Longrightarrow> merge_node_data s n buf (int (length buf)) =
      Some (0, e_data (V n) @ drop (length (e_data (V n))) buf, int (length (e_data (V n))))"
    using chunk_merge_holds [OF p(2) e(2)] hm_part_chunks(1) [OF p(1) assms(2)] e(1) by (simp add: merge_node_data_def)
  show "data_len < int (length (e_data (V n))) \<Longrightarrow>
      merge_node_data s n buf data_len = Some (-2, buf, int (length (e_data (V n))))"
    using e(1) by (simp add: merge_node_data_def chunk_merge_short)
qed

section \<open>Updating and deleting a node\<close>

lemma fetch_old_spec:
  assumes "hm_ok s L V" and "n \<in> set L"
  defines "m \<equiv> int (length (e_data (V n)))"
  shows "fetch_old n b None s = Some (0, b, None)"
    and "fetch_old n None (Some k) s = Some (0, None, Some m)"
    and "length (e_data (V n)) \<le> length buf \<Longrightarrow> fetch_old n (Some buf) (Some (int (length buf))) s =
      Some (0, Some (e_data (V n) @ drop (length (e_data (V n))) buf), Some m)"
    and "k < m \<Longrightarrow> fetch_old n (Some buf) (Some k) s = Some (-2, Some buf, Some m)"
  using merge_node_data_spec [OF assms(1,2)] hm_ok_fields(2) [OF assms(1,2)]
  by (simp_all add: fetch_old_def merge_node_data_def m_def split: option.splits)

lemma hm_ok_touch_info:
  assumes "hm_nodes s L F" "hm_values s L X C V" "hm_order s L F" and "n \<in> set L"
    and f: "\<And>x. m_key (f x) = m_key x" "\<And>x. m_chunk_len (f x) = m_chunk_len x" "\<And>x. m_chunk_head (f x) = m_chunk_head x"
      "\<And>x. m_node_next (f x) = m_node_next x" "\<And>x. m_node_prev (f x) = m_node_prev x"
      "\<And>x. m_add_next (f x) = m_add_next x" "\<And>x. m_add_prev (f x) = m_add_prev x"
      "\<And>x. m_add_info_1 (f x) = i" "\<And>x. m_add_info_2 (f x) = m_add_info_2 x" "\<And>x. m_flag (f x) = m_flag x"
  shows "hm_ok (insert_add_list_head n (upd_node n f s)) (n # remove1 n L) (V(n := (V n)\<lparr>e_info_1 := i\<rparr>))"
proof -
  have "hm_ok s L V" using assms(1-3) by (auto simp: hm_ok_def)
  moreover have "hm_ok (upd_node n f s) L (V(n := (V n)\<lparr>e_info_1 := i, e_info_2 := m_add_info_2 (m_hash_node s n),
      e_flag := m_flag (m_hash_node s n)\<rparr>))"
    using hm_ok_info_upd [OF calculation assms(4) f(1-7)] by (simp add: f)
  moreover have "(V n)\<lparr>e_info_1 := i, e_info_2 := m_add_info_2 (m_hash_node s n), e_flag := m_flag (m_hash_node s n)\<rparr> =
      (V n)\<lparr>e_info_1 := i\<rparr>"
    using hm_ok_fields(4,5) [OF calculation(1) assms(4)] by simp
  ultimately show ?thesis using hm_touch assms(4) by metis
qed

lemma update_node_spec:
  assumes "hm_ok s L V" and "n \<in> set L" and "fetch_old n od ol s = Some (0, od', ol')"
  shows "\<not> fits_for s (e_data (V n)) d \<Longrightarrow>
      update_node n d (int (length d)) od ol now s = Some ((None, od', ol'), s)"
    and "fits_for s (e_data (V n)) d \<Longrightarrow>
      \<exists>s'. update_node n d (int (length d)) od ol now s = Some ((Some n, od', ol'), s') \<and>
        hm_ok s' (n # remove1 n L) (V(n := (V n)\<lparr>e_data := d, e_info_1 := now\<rparr>))"
proof -
  from assms(1) obtain F X C where ok: "hm_nodes s L F" "hm_values s L X C V" "hm_order s L F"
    by (auto simp: hm_ok_def)
  note upd = update_node_data_spec [OF ok assms(2), of d]
  show "update_node n d (int (length d)) od ol now s = Some ((None, od', ol'), s)" if "\<not> fits_for s (e_data (V n)) d"
    using upd(1) [OF that] assms(3) by (simp add: update_node_def)
  assume "fits_for s (e_data (V n)) d"
  from upd(2) [OF this] obtain s1 X' C' where
    s1: "update_node_data n d (int (length d)) s = Some (True, s1)" "hm_nodes s1 L F"
      "hm_values s1 L X' C' (V(n := (V n)\<lparr>e_data := d\<rparr>))" "hm_order s1 L F" by blast
  have "hm_ok (insert_add_list_head n (upd_node n (\<lambda>x. x\<lparr>m_add_info_1 := now\<rparr>) s1)) (n # remove1 n L)
      (V(n := (V n)\<lparr>e_data := d, e_info_1 := now\<rparr>))"
    using hm_ok_touch_info [OF s1(2-4) assms(2), of "\<lambda>x. x\<lparr>m_add_info_1 := now\<rparr>" now] by simp
  then show "\<exists>s'. update_node n d (int (length d)) od ol now s = Some ((Some n, od', ol'), s') \<and>
        hm_ok s' (n # remove1 n L) (V(n := (V n)\<lparr>e_data := d, e_info_1 := now\<rparr>))"
    using s1(1) assms(3) by (simp add: update_node_def)
qed

lemma upd_node_twice: "upd_node n f (upd_node n g s) = upd_node n (\<lambda>x. f (g x)) s"
  by (simp add: upd_node_def)

lemma update_node_metadata_spec:
  assumes "hm_ok s L V" and "n \<in> set L"
  shows "\<not> fits_for s (e_data (V n)) d \<Longrightarrow>
      update_node_metadata n d (int (length d)) expiretime now s = Some (None, s)"
    and "fits_for s (e_data (V n)) d \<Longrightarrow>
      \<exists>s'. update_node_metadata n d (int (length d)) expiretime now s = Some (Some n, s') \<and>
        hm_ok s' (n # remove1 n L) (V(n := (V n)\<lparr>e_data := d, e_info_1 := expiretime\<rparr>))"
proof -
  from assms(1) obtain F X C where ok: "hm_nodes s L F" "hm_values s L X C V" "hm_order s L F"
    by (auto simp: hm_ok_def)
  note upd = update_node_data_spec [OF ok assms(2), of d]
  show "update_node_metadata n d (int (length d)) expiretime now s = Some (None, s)" if "\<not> fits_for s (e_data (V n)) d"
    using upd(1) [OF that] by (simp add: update_node_metadata_def)
  assume "fits_for s (e_data (V n)) d"
  from upd(2) [OF this] obtain s1 X' C' where
    s1: "update_node_data n d (int (length d)) s = Some (True, s1)" "hm_nodes s1 L F"
      "hm_values s1 L X' C' (V(n := (V n)\<lparr>e_data := d\<rparr>))" "hm_order s1 L F" by blast
  have "hm_ok (insert_add_list_head n (upd_node n (\<lambda>x. x\<lparr>m_add_info_1 := expiretime\<rparr>) s1)) (n # remove1 n L)
      (V(n := (V n)\<lparr>e_data := d, e_info_1 := expiretime\<rparr>))"
    using hm_ok_touch_info [OF s1(2-4) assms(2), of "\<lambda>x. x\<lparr>m_add_info_1 := expiretime\<rparr>" expiretime] by simp
  then show "\<exists>s'. update_node_metadata n d (int (length d)) expiretime now s = Some (Some n, s') \<and>
        hm_ok s' (n # remove1 n L) (V(n := (V n)\<lparr>e_data := d, e_info_1 := expiretime\<rparr>))"
    using s1(1) by (simp add: update_node_metadata_def upd_node_twice)
qed

text \<open>A node that left the order of use goes back to the free list with its chunks.\<close>

lemma release_node:
  assumes ok: "hm_nodes s L F" "hm_values s L X C V" and n: "n \<in> set L"
    and order: "order_ok s (remove1 n L)" "\<forall>a\<in>set (n # F). add_next s a = -1 \<and> add_prev s a = -1"
  shows "\<exists>s1. free_node n s = Some s1 \<and> hm_ok (node_free_list_insert n s1) (remove1 n L) V"
proof -
  obtain B where B: "buckets_ok s (set L) B" using ok(1) by (auto simp: hm_nodes_def)
  have L: "distinct L" "n \<notin> set F" "set L \<inter> set F = {}" using hm_nodes_parts(3) [OF ok(1)] n by auto
  have n': "n \<noteq> -1" "node_ptr2handler s (Some n) = n" using hm_used_node [OF ok(1), of n] n by simp_all
  from delete_from_node_list_spec [OF hm_nodes_parts(2) [OF ok(1)] B n n'(2)] obtain s2 B' where
    s2: "delete_from_node_list n s = Some s2" "buckets_ok s2 (set L - {n}) B'" "off_buckets s2 s"
      "m_used_node_num s2 = m_used_node_num s - 1" "\<forall>a. a \<notin> set L \<longrightarrow> node_next s2 a = node_next s a"
    by blast
  have p2: "\<And>a. payload s2 a = payload s a" using s2(3) by (simp add: off_buckets_def)
  have p: "hm_part s L X C V" and al: "alloc_ok (m_allocator s) C" using ok(2) by (simp_all add: hm_values_part)
  have ch: "chain (chunk_next (m_allocator s)) (m_chunk_head (m_hash_node s n)) (X n)"
    using ok(2) n by (auto simp: hm_values_def entry_at_def holds_value_def)
  from cs.release_law [OF al ch] obtain a where
    a: "chunk_free (m_chunk_head (m_hash_node s n)) (m_allocator s) = Some a" "alloc_ok a (rev (X n) @ C)"
      "\<forall>b. b \<notin> set (X n) \<longrightarrow> chunk_next a b = chunk_next (m_allocator s) b" "chunk_data a = chunk_data (m_allocator s)"
      "chunk_offs a = chunk_offs (m_allocator s)" "m_chunk_size a = m_chunk_size (m_allocator s)"
    using hm_part_chunks(1,2) [OF p n] by blast
  define s1 where "s1 = init_node n (s2\<lparr>m_allocator := a\<rparr>)"
  define s' where "s' = node_free_list_insert n s1"
  have run: "free_node n s = Some s1"
    using s2(1,3) a(1) payload_fields(3) [OF p2] by (simp add: free_node_def s1_def off_buckets_def)
  have hdr: "node_ptr2handler (set_node_next n (m_node_free_list s1) s1) (Some n) = n"
    using n'(2) s2(3) by (subst node_ptr2handler_tail [of _ s]) (simp_all add: s1_def init_node_def off_buckets_def)
  have s': "s' = (set_node_next n (m_node_free_list s) s1)\<lparr>m_node_free_list := n\<rparr>"
    using hdr s2(3) by (simp add: s'_def node_free_list_insert_def s1_def init_node_def off_buckets_def)
  have f: "m_node_total s' = m_node_total s" "m_bucket_size s' = m_bucket_size s" "m_bucket s' = m_bucket s2"
    "m_node_pool_tail s' = m_node_pool_tail s" "m_node_free_list s' = n" "m_used_node_num s' = m_used_node_num s - 1"
    "m_allocator s' = a" "node_next s' = (node_next s2)(n := m_node_free_list s)" "node_prev s' = (node_prev s2)(n := -1)"
    "add_next s' = add_next s" "add_prev s' = add_prev s" "m_add_head s' = m_add_head s" "m_add_tail s' = m_add_tail s"
    using s2(3,4) order(2) by (auto simp: s' s1_def init_node_def init_node_value_def off_buckets_def fun_eq_iff)
  have pay: "payload s' b = payload s b" if "b \<noteq> n" for b
    using that p2 by (simp add: s' s1_def init_node_def)
  note fld = payload_fields [OF pay]
  have flag: "m_flag (m_hash_node s' n) = 0" by (simp add: s' s1_def init_node_def init_node_value_def)
  have key: "node_key s' b = node_key s b" if "b \<noteq> n" for b using fld(1) [OF that] by (simp add: node_key_def)
  have set: "set (remove1 n L) = set L - {n}" using L(1) by simp
  have "hm_nodes s' (remove1 n L) (n # F)"
    unfolding hm_nodes_def
  proof (intro conjI)
    show "node_room s'" using ok(1) f s2(3) by (simp add: hm_nodes_def node_room_def sizes_ok_def off_buckets_def)
    have "chain (node_next s') (m_node_free_list s) F"
      using ok(1) s2(5) L f(8) by (subst chain_cong [of _ _ "node_next s"]) (auto simp: hm_nodes_def)
    then show "chain (node_next s') (m_node_free_list s') (n # F)" using n'(1) f(5,8) by simp
    have "buckets_ok s' (set L - {n}) B'"
    proof (rule buckets_ok_cong [OF s2(2)])
      show "node_key s' b = node_key s2 b" if "b \<in> set L - {n}" for b
        using key [of b] payload_fields(1) [OF p2, of b] that by (simp add: node_key_def)
    qed (use f s2(3) in \<open>auto simp: off_buckets_def\<close>)
    then show "\<exists>B. buckets_ok s' (set (remove1 n L)) B" using set by auto
    have "mset (remove1 n L @ n # F) = mset (L @ F)" using n by simp
    also have "\<dots> = mset (node_offs s')" using ok(1) f(1,2) by (simp add: hm_nodes_def node_offs_def)
    finally show "mset (remove1 n L @ n # F) = mset (node_offs s')" .
    have "map (node_key s') (remove1 n L) = map (node_key s) (remove1 n L)"
      using key L(1) by (intro map_cong refl) auto
    moreover have "distinct (map (node_key s) (remove1 n L))"
      using ok(1) L(1) set_remove1_subset [of n L] by (auto simp: hm_nodes_def distinct_map intro: inj_on_subset)
    ultimately show "distinct (map (node_key s') (remove1 n L))" by metis
    show "m_used_node_num s' = int (length (remove1 n L))"
    proof -
      have "length (remove1 n L) = length L - 1" "0 < length L" using n length_pos_if_in_set [OF n] by (simp_all add: length_remove1)
      moreover have "m_used_node_num s = int (length L)" using ok(1) by (simp add: hm_nodes_def)
      ultimately show ?thesis using f(6) by linarith
    qed
    have "m_flag (m_hash_node s' b) = 0" if "b \<in> set F" for b
      using fld(6) [of b] that L(2) ok(1) by (auto simp: hm_nodes_def)
    then show "\<forall>b\<in>set (n # F). m_flag (m_hash_node s' b) = 0" using flag by simp
  qed
  moreover have "hm_part s' (remove1 n L) X (rev (X n) @ C) V"
  proof (rule hm_part_frame [OF hm_part_remove [OF p n]])
    show "payload s' b = payload s b" if "b \<in> set (remove1 n L)" for b using pay that set by blast
  qed (use f(7) a(3-6) in simp_all)
  moreover have "hm_order s' (remove1 n L) (n # F)"
    using order f by (simp add: hm_order_def order_ok_def)
  ultimately have "hm_ok s' (remove1 n L) V"
    using a(2) f(7) unfolding hm_ok_def hm_values_part by blast
  then show ?thesis using run by (auto simp: s'_def)
qed

lemma delete_node_spec:
  assumes "hm_ok s L V" and "n \<in> set L" and "fetch_old n od ol s = Some (0, od', ol')"
  shows "\<exists>s'. delete_node n od ol s = Some ((0, od', ol'), s') \<and> hm_ok s' (remove1 n L) V"
proof -
  from assms(1) obtain F X C where ok: "hm_nodes s L F" "hm_values s L X C V" "hm_order s L F"
    by (auto simp: hm_ok_def)
  define t where "t = delete_from_add_list n s"
  have n': "n \<noteq> -1" "node_ptr2handler s (Some n) = n" using hm_used_node [OF ok(1), of n] assms(2) by simp_all
  have "order_ok t (remove1 n L) \<and> add_next t n = -1 \<and> add_prev t n = -1 \<and>
    (\<forall>a. a \<notin> set L \<longrightarrow> add_next t a = add_next s a \<and> add_prev t a = add_prev s a)"
    unfolding t_def using delete_from_add_list_spec [of s L n] ok(3) n' assms(2) by (simp add: hm_order_def)
  moreover have "\<forall>a\<in>set F. a \<notin> set L" using hm_nodes_parts(3) [OF ok(1)] by auto
  ultimately have o: "order_ok t (remove1 n L)" "\<forall>a\<in>set (n # F). add_next t a = -1 \<and> add_prev t a = -1"
    using ok(3) by (simp_all add: hm_order_def)
  have "hm_nodes t L F" "hm_values t L X C V"
    using hm_off_order [OF ok(1,2) off_order_delete refl, of n] by (simp_all add: t_def)
  from release_node [OF this assms(2) o] show ?thesis
    using assms(3) by (auto simp: delete_node_def t_def)
qed

section \<open>Opening a pool\<close>

definition init_step :: "int \<Rightarrow> CHashMap \<Rightarrow> CHashMap" where
  "init_step a s = (upd_node a (\<lambda>_. init_node_value\<lparr>m_node_next := m_node_free_list s\<rparr>) s)\<lparr>m_node_free_list := a\<rparr>"

lemma hash_init_loop_node_step:
  assumes "0 < b" and "hash_head_size + b * 4 + int (Suc i) * 64 \<le> m_node_pool_tail s" and "m_node_pool_tail s < 2 ^ 31"
  shows "hash_init_loop_node b i s = init_step (hash_head_size + b * 4 + int i * 64) s"
proof -
  have "c_int (int i * 64) = int i * 64" "c_int (b * 4) = b * 4"
    by (rule c_int_small; use assms in \<open>simp add: hash_head_size_def\<close>)+
  then show ?thesis
    using assms
    by (simp add: hash_init_loop_node_def hash_node_base_def init_step_def init_node_def node_free_list_insert_def Let_def
        node_ptr2handler_def set_node_next_def upd_node_def hash_head_size_def)
qed

lemma init_step_fields:
  "m_hash_node (init_step a s) = (m_hash_node s)(a := init_node_value\<lparr>m_node_next := m_node_free_list s\<rparr>)"
  "m_node_free_list (init_step a s) = a" "m_node_pool_tail (init_step a s) = m_node_pool_tail s"
  "m_node_total (init_step a s) = m_node_total s" "m_bucket_size (init_step a s) = m_bucket_size s"
  "m_bucket (init_step a s) = m_bucket s" "m_used_node_num (init_step a s) = m_used_node_num s"
  "m_add_head (init_step a s) = m_add_head s" "m_add_tail (init_step a s) = m_add_tail s"
  "m_allocator (init_step a s) = m_allocator s"
  by (simp_all add: init_step_def upd_node_def)

lemma hash_init_fold:
  assumes "0 < b" and "hash_head_size + b * 4 + int k * 64 \<le> m_node_pool_tail s" and "m_node_pool_tail s < 2 ^ 31"
    and "m_node_free_list s = -1"
  defines "off \<equiv> \<lambda>i. hash_head_size + b * 4 + int i * 64"
  defines "t \<equiv> fold (hash_init_loop_node b) [0..<k] s"
  shows "chain (node_next t) (m_node_free_list t) (rev (map off [0..<k])) \<and>
    (\<forall>i<k. add_next t (off i) = -1 \<and> add_prev t (off i) = -1 \<and> m_flag (m_hash_node t (off i)) = 0) \<and>
    m_node_pool_tail t = m_node_pool_tail s \<and> m_node_total t = m_node_total s \<and> m_bucket_size t = m_bucket_size s \<and>
    m_bucket t = m_bucket s \<and> m_used_node_num t = m_used_node_num s \<and> m_add_head t = m_add_head s \<and>
    m_add_tail t = m_add_tail s \<and> m_allocator t = m_allocator s"
  using assms(2) unfolding t_def
proof (induction k)
  case 0
  then show ?case using assms(4) by simp
next
  case (Suc k)
  define u where "u = fold (hash_init_loop_node b) [0..<k] s"
  have le: "hash_head_size + b * 4 + int k * 64 \<le> m_node_pool_tail s" using Suc.prems by simp
  note ih = Suc.IH [OF le, folded u_def]
  have step: "fold (hash_init_loop_node b) [0..<Suc k] s = init_step (off k) u"
    using hash_init_loop_node_step [of b k u] assms(1,3) Suc.prems ih by (simp add: u_def off_def)
  have new: "off k \<notin> set (rev (map off [0..<k]))" "off k \<noteq> -1"
    using assms(1) by (auto simp: off_def hash_head_size_def)
  have nn: "node_next (init_step (off k) u) = (node_next u)(off k := m_node_free_list u)"
    by (simp add: node_next_def init_step_fields fun_eq_iff)
  have "chain (node_next (init_step (off k) u)) (off k) (off k # rev (map off [0..<k]))"
    unfolding nn using ih by (intro chain_push new) blast
  moreover have "\<forall>i<Suc k. add_next (init_step (off k) u) (off i) = -1 \<and> add_prev (init_step (off k) u) (off i) = -1 \<and>
      m_flag (m_hash_node (init_step (off k) u) (off i)) = 0"
    using ih by (auto simp: less_Suc_eq add_next_def add_prev_def init_step_fields init_node_value_def)
  ultimately show ?case unfolding step using ih by (simp add: init_step_fields)
qed

lemma hash_init_nodes:
  assumes "0 < b" and "0 \<le> n" and "hash_head_size + b * 4 + n * 64 < 2 ^ 31"
    and "m_node_pool_tail s = hash_head_size + b * 4 + n * 64"
  defines "t \<equiv> hash_init_pool_data n b s"
  shows "hm_nodes t [] (rev (node_offs t))" and "hm_order t [] (rev (node_offs t))" and "m_node_total t = n"
    and "m_bucket_size t = b" and "m_node_pool_tail t = m_node_pool_tail s"
proof -
  define s2 where "s2 = s\<lparr>m_node_total := n, m_bucket_size := b, m_used_node_num := 0, m_used_bucket_num := 0,
    m_add_head := -1, m_add_tail := -1, m_node_free_list := -1, m_bucket := replicate (nat b) (-1)\<rparr>"
  have t: "t = fold (hash_init_loop_node b) [0..<nat n] s2"
    by (simp add: t_def hash_init_pool_data_def s2_def Let_def)
  have s2: "m_node_pool_tail s2 = m_node_pool_tail s" "m_node_total s2 = n" "m_bucket_size s2 = b"
    "m_bucket s2 = replicate (nat b) (-1)" "m_used_node_num s2 = 0" "m_add_head s2 = -1" "m_add_tail s2 = -1"
    "m_node_free_list s2 = -1" by (simp_all add: s2_def)
  have "hash_head_size + b * 4 + int (nat n) * 64 \<le> m_node_pool_tail s2" "m_node_pool_tail s2 < 2 ^ 31"
    using assms s2(1) by simp_all
  note f = hash_init_fold [OF assms(1) this s2(8), folded t, unfolded s2]
  have offs: "node_offs t = map (\<lambda>i. hash_head_size + b * 4 + int i * 64) [0..<nat n]"
    using f by (simp add: node_offs_def)
  show "m_node_total t = n" "m_bucket_size t = b" "m_node_pool_tail t = m_node_pool_tail s" using f by simp_all
  show "hm_order t [] (rev (node_offs t))" using f by (auto simp: hm_order_def order_ok_def offs)
  have "buckets_ok t {} (\<lambda>_. [])" using f by (simp add: buckets_ok_def last_of_def first_of_def)
  moreover have "b < 2 ^ 31" using assms(1-3) by (simp add: hash_head_size_def)
  ultimately show "hm_nodes t [] (rev (node_offs t))"
    using f assms(1-4) by (auto simp: hm_nodes_def node_room_def sizes_ok_def offs)
qed

lemma hash_pool_size_exact:
  assumes "0 < b" and "0 \<le> n" and "hash_head_size + b * 4 + n * 64 < 2 ^ 31"
  shows "hash_get_pool_size n b = hash_head_size + b * 4 + n * 64"
proof -
  have "c_int (b * 4) = b * 4" "c_int (n * 64) = n * 64"
    "c_int (hash_head_size + b * 4) = hash_head_size + b * 4"
    "c_int (hash_head_size + b * 4 + n * 64) = hash_head_size + b * 4 + n * 64"
    by (rule c_int_small; use assms in \<open>simp add: hash_head_size_def\<close>)+
  then show ?thesis by (simp add: hash_get_pool_size_def)
qed

lemma hash_count_free_chain:
  "chain (node_next s) h xs \<Longrightarrow> hash_count_free s (node_handler2ptr h) k = Some (k + int (length xs))"
proof (induction xs arbitrary: h k)
  case Nil
  then show ?case by (simp add: hash_count_free.simps)
next
  case (Cons x xs)
  then show ?case by (subst hash_count_free.simps) simp
qed

lemma chunk_open_attach:
  assumes "alloc_ok a C"
  shows "chunk_open raw False (m_chunk_total a) (m_chunk_size a) a = Some (0, a)"
proof -
  have "a\<lparr>m_pool_tail := chunk_get_pool_size (m_chunk_total a) (m_chunk_size a)\<rparr> = a"
    using assms by (simp add: alloc_ok_def chunk_pool_ok_def)
  moreover have "chunk_count_free a (chunk_handler2ptr (m_free_list a)) 0 = Some (m_free_total a)"
    using chunk_count_free_chain [of a "m_free_list a" C 0] assms by (simp add: alloc_ok_def)
  ultimately show ?thesis by (simp add: chunk_open_def chunk_verify_pool_data_def)
qed

lemma hash_open_attach:
  assumes "hm_ok s L V"
  shows "hash_open raw False (m_node_total s) (m_bucket_size s) (m_chunk_total (m_allocator s))
    (m_chunk_size (m_allocator s)) s = Some (0, s)"
proof -
  from assms obtain F X C where ok: "hm_nodes s L F" "hm_values s L X C V" by (auto simp: hm_ok_def)
  have tail: "m_node_pool_tail s = hash_get_pool_size (m_node_total s) (m_bucket_size s)"
    using hash_pool_size_exact [of "m_bucket_size s" "m_node_total s"] hm_nodes_parts(1) [OF ok(1)]
    by (simp add: node_room_def sizes_ok_def)
  have "s\<lparr>m_node_pool_tail := hash_get_pool_size (m_node_total s) (m_bucket_size s)\<rparr> = s"
    by (simp flip: tail)
  moreover have "hash_count_free s (node_handler2ptr (m_node_free_list s)) 0 = Some (int (length F))"
    using hash_count_free_chain [of s "m_node_free_list s" F 0] ok(1) by (simp add: hm_nodes_def)
  moreover have "m_used_node_num s + int (length F) = m_node_total s"
    using hm_nodes_parts(5) [OF ok(1)] ok(1) by (simp add: hm_nodes_def)
  moreover have "alloc_ok (m_allocator s) C" using ok(2) by (simp add: hm_values_def)
  ultimately show ?thesis by (simp add: hash_open_def hash_verify_pool_data_def chunk_open_attach)
qed

lemma hash_open_init:
  assumes "0 < b" and "0 \<le> n" and "hash_head_size + b * 4 + n * 64 < 2 ^ 31" and "0 < c" and "0 \<le> k"
  shows "\<exists>s'. hash_open raw True n b k c s = Some (0, s') \<and> hm_ok s' [] V \<and> m_node_total s' = n \<and>
    m_bucket_size s' = b \<and> m_chunk_total (m_allocator s') = k \<and> m_chunk_size (m_allocator s') = c \<and>
    get_free_chunk_num (m_allocator s') = k"
proof -
  define t where "t = hash_init_pool_data n b (s\<lparr>m_node_pool_tail := hash_head_size + b * 4 + n * 64\<rparr>)"
  have t: "hm_nodes t [] (rev (node_offs t))" "hm_order t [] (rev (node_offs t))" "m_node_total t = n" "m_bucket_size t = b"
    using hash_init_nodes [OF assms(1-3), of "s\<lparr>m_node_pool_tail := hash_head_size + b * 4 + n * 64\<rparr>"]
    by (simp_all add: t_def)
  define a where "a = chunk_init_pool_data (\<lambda>i. raw (hash_head_size + b * 4 + n * 64 + i)) k c
    ((m_allocator t)\<lparr>m_pool_tail := chunk_get_pool_size k c\<rparr>)"
  have a: "alloc_ok a (rev (chunk_offs a))" "m_chunk_total a = k" "m_chunk_size a = c"
    using chunk_init_correct [OF assms(4,5)] by (simp_all add: a_def)
  have free: "m_free_total a = k" by (simp add: a_def chunk_init_pool_data_def Let_def)
  define s' where "s' = t\<lparr>m_allocator := a\<rparr>"
  have run: "hash_open raw True n b k c s = Some (0, s')"
    by (simp add: hash_open_def hash_pool_size_exact [OF assms(1-3)] t_def [symmetric] chunk_open_def a_def [symmetric] s'_def)
  have "hm_nodes s' [] (rev (node_offs t))" by (rule hm_nodes_cong [OF t(1)]) (simp_all add: s'_def)
  moreover have "hm_order s' [] (rev (node_offs t))" using t(2) by (simp add: s'_def hm_order_def order_ok_def)
  moreover have "hm_values s' [] (\<lambda>_. []) (rev (chunk_offs a)) V" using a(1) by (simp add: hm_values_def s'_def)
  ultimately have "hm_ok s' [] V" unfolding hm_ok_def by blast
  with run a t free show ?thesis by (simp add: s'_def get_free_chunk_num_def)
qed

end
