(* ===== verification/Files.thy ===== *)
theory Files
  imports Prelude
begin

text \<open>
  What the sources use of the C library on files: a directory that maps names to files, byte
  contents, and streams with a position and an end-of-file indicator. A stream keeps its file when the
  name is renamed or removed. \<open>locked\<close> names are those on which \<open>fopen\<close>, \<open>remove\<close> and \<open>rename\<close> fail.
  Writes go to the end of the file: every stream that is written was opened with mode \<open>a\<close> or was just
  truncated by mode \<open>w\<close>, and the only writer of the binlog flushes after each record. Also here: the
  decimal printing of \<open>%d\<close>.
\<close>

record FileSys =
  dir :: "string \<Rightarrow> nat option"
  content :: "nat \<Rightarrow> byte list"
  fresh :: nat
  locked :: "string \<Rightarrow> bool"

record FILE =
  f_file :: nat
  f_pos :: nat
  f_eof :: bool

definition fs_exists :: "FileSys \<Rightarrow> string \<Rightarrow> bool" where
  "fs_exists fs name \<longleftrightarrow> dir fs name \<noteq> None"

definition fs_size :: "FileSys \<Rightarrow> string \<Rightarrow> int option" where
  "fs_size fs name = map_option (\<lambda>i. int (length (content fs i))) (dir fs name)"

definition fopen_r :: "string \<Rightarrow> FileSys \<Rightarrow> FILE option" where
  "fopen_r name fs =
     (if locked fs name then None
      else map_option (\<lambda>i. \<lparr>f_file = i, f_pos = 0, f_eof = False\<rparr>) (dir fs name))"

definition fs_create :: "string \<Rightarrow> FileSys \<Rightarrow> FileSys" where
  "fs_create name fs = fs\<lparr>dir := (dir fs)(name \<mapsto> fresh fs), content := (content fs)(fresh fs := []),
     fresh := Suc (fresh fs)\<rparr>"

definition fopen_a :: "string \<Rightarrow> FileSys \<Rightarrow> FILE option \<times> FileSys" where
  "fopen_a name fs =
     (if locked fs name then (None, fs)
      else case dir fs name of
        Some i \<Rightarrow> (Some \<lparr>f_file = i, f_pos = 0, f_eof = False\<rparr>, fs)
      | None \<Rightarrow> (Some \<lparr>f_file = fresh fs, f_pos = 0, f_eof = False\<rparr>, fs_create name fs))"

definition fopen_w :: "string \<Rightarrow> FileSys \<Rightarrow> FILE option \<times> FileSys" where
  "fopen_w name fs =
     (if locked fs name then (None, fs)
      else case dir fs name of
        Some i \<Rightarrow> (Some \<lparr>f_file = i, f_pos = 0, f_eof = False\<rparr>, fs\<lparr>content := (content fs)(i := [])\<rparr>)
      | None \<Rightarrow> (Some \<lparr>f_file = fresh fs, f_pos = 0, f_eof = False\<rparr>, fs_create name fs))"

definition fwrite :: "byte list \<Rightarrow> FILE \<Rightarrow> FileSys \<Rightarrow> FileSys" where
  "fwrite bs fp fs = fs\<lparr>content := (content fs)(f_file fp := content fs (f_file fp) @ bs)\<rparr>"

definition fread :: "nat \<Rightarrow> FILE \<Rightarrow> FileSys \<Rightarrow> byte list \<times> FILE" where
  "fread n fp fs =
     (let bs = take n (drop (f_pos fp) (content fs (f_file fp)))
      in (bs, fp\<lparr>f_pos := f_pos fp + length bs, f_eof := f_eof fp \<or> length bs < n\<rparr>))"

text \<open>\<open>fread(&v, sizeof(int), 1, fp)\<close>: a short read overwrites only the first bytes of the variable.\<close>

definition fread_int :: "int \<Rightarrow> FILE \<Rightarrow> FileSys \<Rightarrow> int \<times> FILE" where
  "fread_int v fp fs =
     (let (bs, fp') = fread 4 fp fs in (le_int (bs @ drop (length bs) (le_bytes 4 v)), fp'))"

text \<open>\<open>fseek(fp, -k, SEEK_CUR)\<close> clears the end-of-file indicator; a target before the start fails.\<close>

definition fseek_back :: "int \<Rightarrow> FILE \<Rightarrow> FILE" where
  "fseek_back k fp = (if int (f_pos fp) < k then fp else fp\<lparr>f_pos := nat (int (f_pos fp) - k), f_eof := False\<rparr>)"

definition fs_remove :: "string \<Rightarrow> FileSys \<Rightarrow> FileSys option" where
  "fs_remove name fs = (if locked fs name \<or> dir fs name = None then None else Some (fs\<lparr>dir := (dir fs)(name := None)\<rparr>))"

definition fs_rename :: "string \<Rightarrow> string \<Rightarrow> FileSys \<Rightarrow> FileSys option" where
  "fs_rename old new fs =
     (if locked fs old \<or> locked fs new \<or> dir fs old = None then None
      else if old = new then Some fs
      else Some (fs\<lparr>dir := (dir fs)(new := dir fs old, old := None)\<rparr>))"

section \<open>Decimal numbers\<close>

definition digit_char :: "nat \<Rightarrow> char" where
  "digit_char d = char_of (48 + d)"

fun nat_str :: "nat \<Rightarrow> string" where
  "nat_str n = (if n < 10 then [digit_char n] else nat_str (n div 10) @ [digit_char (n mod 10)])"

declare nat_str.simps [simp del]

definition int_str :: "int \<Rightarrow> string" where
  "int_str i = (if i < 0 then CHR ''-'' # nat_str (nat (- i)) else nat_str (nat i))"

definition str_nat :: "string \<Rightarrow> nat" where
  "str_nat cs = foldl (\<lambda>v c. 10 * v + (of_char c - 48)) 0 cs"

lemma of_char_digit [simp]: "d < 10 \<Longrightarrow> (of_char (digit_char d) :: nat) = 48 + d"
  by (simp add: digit_char_def)

lemma str_nat_str [simp]: "str_nat (nat_str n) = n"
proof (induction n rule: nat_str.induct)
  case (1 n)
  show ?case
  proof (cases "n < 10")
    case True
    then show ?thesis by (subst nat_str.simps) (simp add: str_nat_def)
  next
    case False
    then have "str_nat (nat_str (n div 10)) = n div 10" using 1 by simp
    then show ?thesis using False by (subst nat_str.simps) (simp add: str_nat_def)
  qed
qed

lemma nat_str_inj [simp]: "nat_str m = nat_str n \<longleftrightarrow> m = n"
  by (metis str_nat_str)

lemma nat_str_zero: "nat_str 0 = ''0''"
  by code_simp

lemma nat_str_nonempty [simp]: "nat_str n \<noteq> []"
  by (subst nat_str.simps) simp

lemma nat_str_digits: "c \<in> set (nat_str n) \<Longrightarrow> (of_char c :: nat) \<in> {48..57}"
proof (induction n rule: nat_str.induct)
  case (1 n)
  have "n mod 10 < 10" by simp
  then have "(of_char (digit_char (n mod 10)) :: nat) \<in> {48..57}" by (subst of_char_digit) simp_all
  then show ?case
    using 1 nat_str.simps [of n] by (cases "n < 10") auto
qed

section \<open>Streams\<close>

lemma fs_fields [simp]:
  "dir (fwrite bs fp fs) = dir fs" "fresh (fwrite bs fp fs) = fresh fs" "locked (fwrite bs fp fs) = locked fs"
  "content (fwrite bs fp fs) = (content fs)(f_file fp := content fs (f_file fp) @ bs)"
  "dir (fs_create name fs) = (dir fs)(name \<mapsto> fresh fs)" "content (fs_create name fs) = (content fs)(fresh fs := [])"
  "fresh (fs_create name fs) = Suc (fresh fs)" "locked (fs_create name fs) = locked fs"
  by (simp_all add: fwrite_def fs_create_def)

text \<open>What is left to read on a stream.\<close>

definition f_rest :: "FILE \<Rightarrow> FileSys \<Rightarrow> byte list" where
  "f_rest fp fs = drop (f_pos fp) (content fs (f_file fp))"

lemma fread_full:
  assumes "f_rest fp fs = bs @ rest"
  shows "\<exists>fp'. fread (length bs) fp fs = (bs, fp') \<and> f_rest fp' fs = rest \<and> f_eof fp' = f_eof fp \<and> f_file fp' = f_file fp"
proof -
  have b: "take (length bs) (drop (f_pos fp) (content fs (f_file fp))) = bs"
    using assms by (simp add: f_rest_def)
  have "drop (f_pos fp + length bs) (content fs (f_file fp)) = drop (length bs) (f_rest fp fs)"
    by (simp add: f_rest_def add.commute)
  then have "drop (f_pos fp + length bs) (content fs (f_file fp)) = rest" using assms by simp
  with b show ?thesis by (simp add: fread_def f_rest_def)
qed

lemma fread_int_full:
  assumes "f_rest fp fs = le_bytes 4 v @ rest" and "- (2 ^ 31) \<le> v" and "v < 2 ^ 31"
  shows "\<exists>fp'. fread_int old fp fs = (v, fp') \<and> f_rest fp' fs = rest \<and> f_eof fp' = f_eof fp \<and> f_file fp' = f_file fp"
proof -
  have "le_int (le_bytes 4 v) = v" using assms(2,3) by (intro le_int_le_bytes) simp_all
  with fread_full [OF assms(1)] show ?thesis by (auto simp: fread_int_def)
qed

lemma fread_at_end:
  "f_rest fp fs = [] \<Longrightarrow> 0 < n \<Longrightarrow> fread n fp fs = ([], fp\<lparr>f_eof := True\<rparr>)"
  by (simp add: fread_def f_rest_def)

end
