(* ===== verification/Binlog.thy ===== *)
theory Binlog
  imports Files
begin

text \<open>
  The binary log of the cache (\<open>cdb/tfc_binlog.h\<close> and \<open>.cpp\<close>, class \<open>CBinLog\<close>): a current file
  \<open><base>.log\<close> and older files \<open><base>1.log\<close>, \<open><base>2.log\<close>, \<open>...\<close>. A record is a time stamp, a length and
  the bytes. When the current file reaches \<open>_maxlog_size\<close>, the files are shifted by one and the oldest
  is dropped. Reading goes from the oldest file to the current one. A member \<open>_x\<close> of the class is the
  record field \<open>m_x\<close>. The build is the one without \<open>_TDC_DISKCACHE_\<close>.
\<close>

definition MAX_BINLOG_ITEM_LEN :: int where
  "MAX_BINLOG_ITEM_LEN = 32 * 1024 * 1024 + 512"

record CBinLog =
  m_log_basename :: string
  m_maxlog_size :: int
  m_maxlog_num :: int
  m_write_fp :: "FILE option"
  m_read_fp :: "FILE option"
  m_readidx :: int

definition CBinLog_new :: CBinLog where
  "CBinLog_new = \<lparr>m_log_basename = ''./mcdbin_'', m_maxlog_size = 20000000, m_maxlog_num = 8,
     m_write_fp = None, m_read_fp = None, m_readidx = 8\<rparr>"

definition c_string :: "nat \<Rightarrow> string \<Rightarrow> string" where
  "c_string n s = take n (takeWhile (\<lambda>c. c \<noteq> CHR 0x00) s)"

definition binlog_Init :: "string \<Rightarrow> int \<Rightarrow> int \<Rightarrow> CBinLog \<Rightarrow> int \<times> CBinLog" where
  "binlog_Init sPLogBaseName lPMaxLogSize iPMaxLogNum b =
     (0, b\<lparr>m_write_fp := None, m_read_fp := None, m_log_basename := c_string 255 sPLogBaseName,
         m_maxlog_num := iPMaxLogNum, m_maxlog_size := lPMaxLogSize\<rparr>)"

definition log_name :: "string \<Rightarrow> int \<Rightarrow> string" where
  "log_name base i = (if i = 0 then base @ ''.log'' else base @ int_str i @ ''.log'')"

definition down_to_zero :: "int \<Rightarrow> int list" where
  "down_to_zero i = rev (map int [0..<nat (i + 1)])"

definition clear_step :: "string \<Rightarrow> int \<Rightarrow> FileSys \<Rightarrow> FileSys" where
  "clear_step base i fs =
     (if \<not> fs_exists fs (log_name base i) then fs
      else case fs_remove (log_name base i) fs of None \<Rightarrow> fs | Some fs' \<Rightarrow> fs')"

definition ClearAllBinLog :: "CBinLog \<Rightarrow> FileSys \<Rightarrow> int \<times> CBinLog \<times> FileSys" where
  "ClearAllBinLog b fs =
     (0, b\<lparr>m_write_fp := None, m_read_fp := None\<rparr>,
      fold (clear_step (m_log_basename b)) (down_to_zero (m_maxlog_num b - 1)) fs)"

section \<open>Positioning the reader\<close>

text \<open>The \<open>do ... while\<close> loop of \<open>SetReadRecordStartTime\<close>: records before \<open>starttime\<close> are skipped.
  \<open>Some None\<close>: a record is longer than the local buffer.\<close>

partial_function (option) skip_records ::
    "FileSys \<Rightarrow> int \<Rightarrow> int \<Rightarrow> int \<Rightarrow> FILE \<Rightarrow> (int \<times> int \<times> FILE) option option" where
  "skip_records fs starttime tLogTime len fp =
     (let (t1, fp1) = fread_int tLogTime fp fs;
          (n1, fp2) = fread_int len fp1 fs
      in if n1 > 65535 then Some None
         else if n1 < 0 then None
         else let (_, fp3) = fread (nat n1) fp2 fs
              in if t1 < starttime \<and> \<not> f_eof fp3 then skip_records fs starttime t1 n1 fp3
                 else Some (Some (t1, n1, fp3)))"

definition start_found :: "(FILE \<times> int) option \<Rightarrow> CBinLog \<Rightarrow> int \<times> CBinLog" where
  "start_found maybe b =
     (if m_read_fp b \<noteq> None then (0, b)
      else case maybe of
        Some (fp, maybeidx) \<Rightarrow> (0, b\<lparr>m_read_fp := Some fp, m_readidx := maybeidx\<rparr>)
      | None \<Rightarrow> (-1, b))"

fun scan_start ::
    "FileSys \<Rightarrow> int \<Rightarrow> int list \<Rightarrow> int \<Rightarrow> int \<Rightarrow> (FILE \<times> int) option \<Rightarrow> CBinLog \<Rightarrow> (int \<times> CBinLog) option" where
  "scan_start fs starttime [] tLogTime len maybe b =
     Some (start_found maybe (b\<lparr>m_readidx := max 0 (m_maxlog_num b)\<rparr>))"
| "scan_start fs starttime (i # is) tLogTime len maybe b =
     (if \<not> fs_exists fs (log_name (m_log_basename b) i) then scan_start fs starttime is tLogTime len maybe b
      else case fopen_r (log_name (m_log_basename b) i) fs of
        None \<Rightarrow> Some (-1, b\<lparr>m_readidx := i\<rparr>)
      | Some fp \<Rightarrow>
          let (t, fp1) = fread_int tLogTime fp fs
          in if t < starttime
             then let (n, fp2) = fread_int len fp1 fs
                  in if n > 65535 then Some (-1, b\<lparr>m_readidx := i\<rparr>)
                     else if n < 0 then None
                     else let (_, fp3) = fread (nat n) fp2 fs
                          in do {
                            r \<leftarrow> skip_records fs starttime t n fp3;
                            case r of
                              None \<Rightarrow> Some (-1, b\<lparr>m_readidx := i\<rparr>)
                            | Some (t', n', fp4) \<Rightarrow>
                                if t' \<ge> starttime
                                then Some (start_found maybe
                                       (b\<lparr>m_readidx := i, m_read_fp := Some (fseek_back (8 + n') fp4)\<rparr>))
                                else Some (start_found maybe (b\<lparr>m_readidx := i\<rparr>))
                          }
             else if t > starttime then scan_start fs starttime is t len maybe b
             else scan_start fs starttime is t len (Some (fseek_back 4 fp1, i)) b)"

text \<open>\<open>tLogTime\<close> and \<open>len\<close> are the values of the uninitialised locals.\<close>

definition SetReadRecordStartTime ::
    "int \<Rightarrow> int \<Rightarrow> int \<Rightarrow> FileSys \<Rightarrow> CBinLog \<Rightarrow> (int \<times> CBinLog) option" where
  "SetReadRecordStartTime tLogTime len starttime fs b =
     (let b1 = b\<lparr>m_read_fp := None\<rparr>
      in if starttime = -1 then Some (0, b1\<lparr>m_readidx := m_maxlog_num b1\<rparr>)
         else scan_start fs starttime (map int [0..<nat (m_maxlog_num b1)]) tLogTime len None b1)"

section \<open>Reading\<close>

function next_log :: "string \<Rightarrow> FileSys \<Rightarrow> int \<Rightarrow> int" where
  "next_log base fs idx =
     (if idx - 1 \<ge> 0 \<and> \<not> fs_exists fs (log_name base (idx - 1)) then next_log base fs (idx - 1) else idx - 1)"
  by pat_completeness auto

termination
  by (relation "measure (\<lambda>(_, _, idx). nat idx)") auto

declare next_log.simps [simp del]

text \<open>The result is the return value, the buffer and the log object. A negative length makes \<open>fread\<close>
  write past the buffer.\<close>

partial_function (option) ReadRecordFromBinLog ::
    "byte list \<Rightarrow> int \<Rightarrow> FileSys \<Rightarrow> CBinLog \<Rightarrow> (int \<times> byte list \<times> CBinLog) option" where
  "ReadRecordFromBinLog buff maxsize fs b =
     (let at_end = (case m_read_fp b of None \<Rightarrow> True | Some fp \<Rightarrow> f_eof fp);
          i = next_log (m_log_basename b) fs (m_readidx b);
          b1 = (if at_end then b\<lparr>m_read_fp := None, m_readidx := i\<rparr> else b)
      in if at_end \<and> i < 0 then Some (-1, buff, b1)
         else case (if at_end then fopen_r (log_name (m_log_basename b) i) fs else m_read_fp b) of
           None \<Rightarrow> Some (-2, buff, b1)
         | Some fp \<Rightarrow>
             let (tLogTime, fp1) = fread_int 0 fp fs;
                 (len, fp2) = fread_int 0 fp1 fs
             in if len > maxsize then Some (-3, buff, b1\<lparr>m_read_fp := None\<rparr>)
                else if f_eof fp2 then ReadRecordFromBinLog buff maxsize fs (b1\<lparr>m_read_fp := Some fp2\<rparr>)
                else if len < 0 then None
                else let (bs, fp3) = fread (nat len) fp2 fs
                     in if length bs \<le> length buff
                        then Some (if 0 < len \<and> length bs = nat len then 1 else 0,
                               bs @ drop (length bs) buff, b1\<lparr>m_read_fp := Some fp3\<rparr>)
                        else None)"

section \<open>Writing\<close>

fun shift_loop :: "string \<Rightarrow> int list \<Rightarrow> FileSys \<Rightarrow> int \<times> FileSys" where
  "shift_loop base [] fs = (0, fs)"
| "shift_loop base (i # is) fs =
     (if fs_exists fs (log_name base i)
      then case fs_rename (log_name base i) (base @ int_str (i + 1) @ ''.log'') fs of
             None \<Rightarrow> (-1, fs)
           | Some fs' \<Rightarrow> shift_loop base is fs'
      else shift_loop base is fs)"

definition ShiftFiles :: "CBinLog \<Rightarrow> FileSys \<Rightarrow> int \<times> CBinLog \<times> FileSys" where
  "ShiftFiles b fs =
     (case fs_size fs (m_log_basename b @ ''.log'') of
        None \<Rightarrow> (-1, b, fs)
      | Some st_size \<Rightarrow>
          if st_size < m_maxlog_size b then (0, b, fs)
          else let b1 = b\<lparr>m_write_fp := None\<rparr>;
                   last = m_log_basename b @ int_str (m_maxlog_num b - 1) @ ''.log''
               in case (if fs_exists fs last then fs_remove last fs else Some fs) of
                    None \<Rightarrow> (-1, b1, fs)
                  | Some fs1 \<Rightarrow>
                      let (ret, fs2) = shift_loop (m_log_basename b) (down_to_zero (m_maxlog_num b - 2)) fs1
                      in (ret, b1, fs2))"

definition WriteToBinLog ::
    "byte list option \<Rightarrow> int \<Rightarrow> int \<Rightarrow> CBinLog \<Rightarrow> FileSys \<Rightarrow> (int \<times> CBinLog \<times> FileSys) option" where
  "WriteToBinLog buff len now b fs =
     (case buff of
        None \<Rightarrow> Some (-1, b, fs)
      | Some bytes \<Rightarrow>
          if len \<le> 0 \<or> len > MAX_BINLOG_ITEM_LEN then Some (-1, b, fs)
          else let
            sLogFileName = m_log_basename b @ ''.log'';
            b1 = (if m_write_fp b \<noteq> None \<and> \<not> fs_exists fs sLogFileName then b\<lparr>m_write_fp := None\<rparr> else b);
            (fp, fs1) = (case m_write_fp b1 of Some fp \<Rightarrow> (Some fp, fs) | None \<Rightarrow> fopen_a sLogFileName fs)
          in case fp of
               None \<Rightarrow> Some (-1, b1\<lparr>m_write_fp := None\<rparr>, fs1)
             | Some fp \<Rightarrow>
                 if len + 8 > MAX_BINLOG_ITEM_LEN \<or> nat len > length bytes then None
                 else Some (ShiftFiles (b1\<lparr>m_write_fp := Some fp\<rparr>)
                        (fwrite (le_bytes 4 now @ le_bytes 4 len @ take (nat len) bytes) fp fs1)))"

end
