(* ===== verification/CacheAccess.thy ===== *)
theory CacheAccess
  imports HashMapOps Binlog
begin

text \<open>
  The cache proper (\<open>cdb/tfc_cache_access.h\<close> and \<open>.cpp\<close>, class \<open>CacheAccess\<close>): the operations on keys.
  A member \<open>_x\<close> of the class is the record field \<open>m_x\<close>; the record also carries the file-static buffer
  \<open>szBuff\<close> and the file system. Out-parameters are part of the result, \<open>None\<close> where the code leaves
  them alone. \<open>now\<close> is what \<open>time(NULL)\<close> returns. Lengths are \<open>unsigned\<close> in the interface and \<open>int\<close> in
  the hash map: \<open>c_int\<close> and \<open>c_unsigned\<close> are the conversions.
\<close>

record CacheAccess =
  m_cache :: CHashMap
  m_lastdumptime :: int
  m_cache_dump_min :: int
  m_cache_dump_point :: int
  m_cache_dump_file :: string
  m_binlog :: CBinLog
  m_cacheinit :: bool
  m_mem_size :: int
  m_szBuff :: "byte list"
  m_fs :: FileSys

record get_out =
  g_dirty :: bool
  g_time :: int
  g_len :: int
  g_buf :: "byte list"

text \<open>The constructor; the members it does not set are arguments. The pool memory \<open>_mem\<close> is what \<open>m_cache\<close>
  stands for.\<close>

definition CacheAccess_new :: "int \<Rightarrow> CHashMap \<Rightarrow> int \<Rightarrow> byte list \<Rightarrow> FileSys \<Rightarrow> CacheAccess" where
  "CacheAccess_new now cache mem_size buff fs = \<lparr>m_cache = cache, m_lastdumptime = now, m_cache_dump_min = -1,
     m_cache_dump_point = 0, m_cache_dump_file = ''./cache.dump'', m_binlog = CBinLog_new, m_cacheinit = True,
     m_mem_size = mem_size, m_szBuff = buff, m_fs = fs\<rparr>"

definition ca_get_hash_bucket_size :: "CacheAccess \<Rightarrow> int" where
  "ca_get_hash_bucket_size s = m_bucket_size (m_cache s)"

definition ca_is_new_init :: "CacheAccess \<Rightarrow> bool" where
  "ca_is_new_init s = m_cacheinit s"

definition op_set :: int where "op_set = 0"
definition op_mark_clean :: int where "op_mark_clean = 1"
definition op_del :: int where "op_del = 2"

definition hash_key :: "byte list \<Rightarrow> byte list option" where
  "hash_key key = memcpy (replicate 16 0) 0 key 0 16"

section \<open>Reading\<close>

definition read_node :: "CHashMap \<Rightarrow> int \<Rightarrow> byte list \<Rightarrow> int \<Rightarrow> (int \<times> get_out) option" where
  "read_node c node buf buf_size = do {
     (ret, buf', len) \<leftarrow> merge_node_data c node buf (c_int buf_size);
     Some (ret, \<lparr>g_dirty = m_flag (m_hash_node c node) \<noteq> 0, g_time = m_add_info_1 (m_hash_node c node),
       g_len = c_unsigned len, g_buf = buf'\<rparr>)
   }"

definition ca_get :: "byte list \<Rightarrow> byte list \<Rightarrow> int \<Rightarrow> CacheAccess \<Rightarrow> ((int \<times> get_out option) \<times> CacheAccess) option" where
  "ca_get key buf buf_size s = do {
     hk \<leftarrow> hash_key key;
     (r, c) \<leftarrow> find_node hk (m_cache s);
     case r of
       None \<Rightarrow> Some ((1, None), s\<lparr>m_cache := c\<rparr>)
     | Some node \<Rightarrow> do {
         (ret, out) \<leftarrow> read_node c node buf buf_size;
         Some ((ret, Some out), s\<lparr>m_cache := c\<rparr>)
       }
   }"

definition ca_get_expire ::
    "byte list \<Rightarrow> byte list \<Rightarrow> int \<Rightarrow> CacheAccess \<Rightarrow> ((int \<times> (get_out \<times> int) option) \<times> CacheAccess) option" where
  "ca_get_expire key buf buf_size s = do {
     hk \<leftarrow> hash_key key;
     (r, c) \<leftarrow> find_node hk (m_cache s);
     case r of
       None \<Rightarrow> Some ((1, None), s\<lparr>m_cache := c\<rparr>)
     | Some node \<Rightarrow> do {
         (ret, out) \<leftarrow> read_node c node buf buf_size;
         Some ((ret, Some (out, get_expiretime c node)), s\<lparr>m_cache := c\<rparr>)
       }
   }"

text \<open>The dirty flag, the time stamp and the length: what \<open>get_key\<close> and \<open>oldest_key\<close> report.\<close>

definition node_info :: "CHashMap \<Rightarrow> int \<Rightarrow> bool \<times> int \<times> int" where
  "node_info c node = (m_flag (m_hash_node c node) \<noteq> 0, m_add_info_1 (m_hash_node c node),
     c_unsigned (m_chunk_len (m_hash_node c node)))"

definition ca_get_key :: "byte list \<Rightarrow> CacheAccess \<Rightarrow> ((int \<times> (bool \<times> int \<times> int) option) \<times> CacheAccess) option" where
  "ca_get_key key s = do {
     hk \<leftarrow> hash_key key;
     (r, c) \<leftarrow> find_node hk (m_cache s);
     Some (case r of
       None \<Rightarrow> ((1, None), s\<lparr>m_cache := c\<rparr>)
     | Some node \<Rightarrow> ((0, Some (node_info c node)), s\<lparr>m_cache := c\<rparr>))
   }"

definition ca_get_lru_pre ::
    "byte list \<Rightarrow> byte list \<Rightarrow> int \<Rightarrow> CacheAccess \<Rightarrow> ((int \<times> (byte list \<times> get_out) option) \<times> CacheAccess) option" where
  "ca_get_lru_pre key buf buf_size s = do {
     hk \<leftarrow> hash_key key;
     (r, c) \<leftarrow> find_node hk (m_cache s);
     case r of
       None \<Rightarrow> Some ((1, None), s\<lparr>m_cache := c\<rparr>)
     | Some node \<Rightarrow>
         case get_add_list_next c node of
           None \<Rightarrow> Some ((1, None), s\<lparr>m_cache := c\<rparr>)
         | Some pre_node \<Rightarrow> do {
             (ret, out) \<leftarrow> read_node c pre_node buf buf_size;
             Some ((ret, Some (m_key (m_hash_node c pre_node), out)), s\<lparr>m_cache := c\<rparr>)
           }
   }"

definition ca_oldest :: "byte list \<Rightarrow> int \<Rightarrow> CacheAccess \<Rightarrow> (int \<times> (byte list \<times> get_out) option) option" where
  "ca_oldest buf buf_size s =
     (case get_add_list_tail (m_cache s) of
        None \<Rightarrow> Some (1, None)
      | Some node \<Rightarrow> do {
          (ret, out) \<leftarrow> read_node (m_cache s) node buf buf_size;
          Some (ret, Some (m_key (m_hash_node (m_cache s) node), out))
        })"

definition ca_oldest_key :: "CacheAccess \<Rightarrow> int \<times> (byte list \<times> bool \<times> int \<times> int) option" where
  "ca_oldest_key s =
     (case get_add_list_tail (m_cache s) of
        None \<Rightarrow> (1, None)
      | Some node \<Rightarrow> (0, Some (m_key (m_hash_node (m_cache s) node), node_info (m_cache s) node)))"

text \<open>The variant with the expiry time looks the key up again, which moves it to the front.\<close>

definition ca_oldest_key_expire ::
    "CacheAccess \<Rightarrow> ((int \<times> byte list option \<times> ((bool \<times> int \<times> int) \<times> int) option) \<times> CacheAccess) option" where
  "ca_oldest_key_expire s =
     (case get_add_list_tail (m_cache s) of
        None \<Rightarrow> Some ((1, None, None), s)
      | Some node0 \<Rightarrow> do {
          let key = m_key (m_hash_node (m_cache s) node0);
          hk \<leftarrow> hash_key key;
          (r, c) \<leftarrow> find_node hk (m_cache s);
          Some (case r of
            None \<Rightarrow> ((1, Some key, None), s\<lparr>m_cache := c\<rparr>)
          | Some node \<Rightarrow> ((0, Some key, Some (node_info c node, get_expiretime c node)), s\<lparr>m_cache := c\<rparr>))
        })"

section \<open>Writing\<close>

text \<open>Insert or update: the part that both \<open>set\<close> operations and the recovery share.\<close>

definition store_node :: "byte list \<Rightarrow> byte list \<Rightarrow> int \<Rightarrow> int \<Rightarrow> CHashMap \<Rightarrow> (ptr \<times> CHashMap) option" where
  "store_node hk data data_len now c = do {
     (r, c1) \<leftarrow> find_node hk c;
     case r of
       None \<Rightarrow> insert_node hk data data_len now c1
     | Some node \<Rightarrow> do {
         ((r2, _, _), c2) \<leftarrow> update_node node data data_len None None now c1;
         Some (r2, c2)
       }
   }"

text \<open>The log record of a \<open>set\<close>, built in \<open>szBuff\<close>: \<open>w\<close> bytes of the expiry time are copied, 8 or 4, but
  \<open>bufflen\<close> grows by 4 in both overloads.\<close>

definition put_set_record :: "byte list \<Rightarrow> byte list \<Rightarrow> int \<Rightarrow> int \<Rightarrow> int \<Rightarrow> byte list \<Rightarrow> (byte list \<times> int) option" where
  "put_set_record key data data_len expiretime w szBuff = do {
     b1 \<leftarrow> memcpy szBuff 0 (le_bytes 4 op_set) 0 4;
     b2 \<leftarrow> memcpy b1 4 key 0 16;
     b3 \<leftarrow> memcpy b2 20 (le_bytes 4 data_len) 0 4;
     b4 \<leftarrow> memcpy b3 24 data 0 data_len;
     b5 \<leftarrow> memcpy b4 (24 + nat data_len) (le_bytes 8 expiretime) 0 w;
     let bufflen = 24 + data_len + 4;
     if bufflen < MAX_BINLOG_ITEM_LEN then Some (b5, bufflen) else None
   }"

definition put_key_record :: "int \<Rightarrow> byte list \<Rightarrow> byte list \<Rightarrow> (byte list \<times> int) option" where
  "put_key_record op key szBuff = do {
     b1 \<leftarrow> memcpy szBuff 0 (le_bytes 4 op) 0 4;
     b2 \<leftarrow> memcpy b1 4 key 0 16;
     Some (b2, 20)
   }"

definition log_record :: "byte list \<times> int \<Rightarrow> int \<Rightarrow> CacheAccess \<Rightarrow> CacheAccess option" where
  "log_record rec now s = do {
     (_, b, fs) \<leftarrow> WriteToBinLog (Some (fst rec)) (snd rec) now (m_binlog s) (m_fs s);
     Some (s\<lparr>m_szBuff := fst rec, m_binlog := b, m_fs := fs\<rparr>)
   }"

definition ca_set :: "byte list \<Rightarrow> byte list \<Rightarrow> int \<Rightarrow> ENodeFlag \<Rightarrow> int \<Rightarrow> CacheAccess \<Rightarrow> (int \<times> CacheAccess) option" where
  "ca_set key data data_len flag now s = do {
     hk \<leftarrow> hash_key key;
     (r, c) \<leftarrow> store_node hk data (c_int data_len) now (m_cache s);
     case r of
       None \<Rightarrow> Some (1, s\<lparr>m_cache := c\<rparr>)
     | Some node \<Rightarrow> do {
         let s1 = s\<lparr>m_cache := set_node_flag node flag c\<rparr>;
         s2 \<leftarrow> (if m_cache_dump_min s1 \<ge> 0 \<and> flag = NODE_FLAG_DIRTY
                then do {
                  rec \<leftarrow> put_set_record key data data_len 0 8 (m_szBuff s1);
                  log_record rec now s1
                }
                else Some s1);
         Some (0, s2)
       }
   }"

definition ca_set_expire ::
    "byte list \<Rightarrow> byte list \<Rightarrow> int \<Rightarrow> int \<Rightarrow> ENodeFlag \<Rightarrow> int \<Rightarrow> CacheAccess \<Rightarrow> (int \<times> CacheAccess) option" where
  "ca_set_expire key data data_len expiretime flag now s = do {
     hk \<leftarrow> hash_key key;
     (r, c) \<leftarrow> store_node hk data (c_int data_len) now (m_cache s);
     case r of
       None \<Rightarrow> Some (1, s\<lparr>m_cache := c\<rparr>)
     | Some node \<Rightarrow> do {
         let s1 = s\<lparr>m_cache := set_expiretime node expiretime (set_node_flag node flag c)\<rparr>;
         s2 \<leftarrow> (if m_cache_dump_min s1 \<ge> 0 \<and> flag = NODE_FLAG_DIRTY
                then do {
                  rec \<leftarrow> put_set_record key data data_len expiretime 4 (m_szBuff s1);
                  log_record rec now s1
                }
                else Some s1);
         Some (0, s2)
       }
   }"

definition ca_mark_clean :: "byte list \<Rightarrow> int \<Rightarrow> CacheAccess \<Rightarrow> (int \<times> CacheAccess) option" where
  "ca_mark_clean key now s = do {
     hk \<leftarrow> hash_key key;
     (r, c) \<leftarrow> find_node hk (m_cache s);
     case r of
       None \<Rightarrow> Some (1, s\<lparr>m_cache := c\<rparr>)
     | Some node \<Rightarrow> do {
         let s1 = s\<lparr>m_cache := set_node_flag node NODE_FLAG_UNCHG c\<rparr>;
         s2 \<leftarrow> (if m_cache_dump_min s1 \<ge> 0
                then do { rec \<leftarrow> put_key_record op_mark_clean key (m_szBuff s1); log_record rec now s1 }
                else Some s1);
         Some (0, s2)
       }
   }"

definition ca_del :: "byte list \<Rightarrow> int \<Rightarrow> CacheAccess \<Rightarrow> (int \<times> CacheAccess) option" where
  "ca_del key now s = do {
     hk \<leftarrow> hash_key key;
     (r, c) \<leftarrow> find_node hk (m_cache s);
     case r of
       None \<Rightarrow> Some (1, s\<lparr>m_cache := c\<rparr>)
     | Some node \<Rightarrow> do {
         let s1 = s\<lparr>m_cache := c\<rparr>;
         s2 \<leftarrow> (if m_cache_dump_min s1 \<ge> 0
                then do { rec \<leftarrow> put_key_record op_del key (m_szBuff s1); log_record rec now s1 }
                else Some s1);
         ((ret, _, _), c2) \<leftarrow> delete_node node None None (m_cache s2);
         Some (ret, s2\<lparr>m_cache := c2\<rparr>)
       }
   }"

definition ca_open ::
    "(int \<Rightarrow> byte) \<Rightarrow> int \<Rightarrow> bool \<Rightarrow> int \<Rightarrow> int \<Rightarrow> int \<Rightarrow> int \<Rightarrow> CacheAccess \<Rightarrow> (int \<times> CacheAccess) option" where
  "ca_open raw mem_size inited node_total bucket_size n_chunks chunk_size s =
     (if mem_size < get_total_pool_size node_total bucket_size n_chunks chunk_size then Some (-1, s)
      else do {
        (ret, c) \<leftarrow> hash_open raw inited node_total bucket_size n_chunks chunk_size (m_cache s);
        Some (ret, s\<lparr>m_cacheinit := inited, m_mem_size := mem_size, m_cache := c\<rparr>)
      })"

section \<open>Bulk operations\<close>

text \<open>The two passes of \<open>del_node\<close>: collect the nodes, then delete them.\<close>

partial_function (option) collect_nodes :: "CHashMap \<Rightarrow> int \<Rightarrow> int \<Rightarrow> ptr \<Rightarrow> int list \<Rightarrow> int list option" where
  "collect_nodes c modbase mobres cur vec =
     (case cur of
        None \<Rightarrow> Some vec
      | Some n \<Rightarrow>
          if c_unsigned modbase = 0 then None
          else collect_nodes c modbase mobres (get_add_list_next c n)
            (if key_uin (m_key (m_hash_node c n)) mod c_unsigned modbase = c_unsigned mobres then vec @ [n] else vec))"

fun delete_nodes :: "int list \<Rightarrow> CHashMap \<Rightarrow> CHashMap option" where
  "delete_nodes [] c = Some c"
| "delete_nodes (n # ns) c = do { (_, c1) \<leftarrow> delete_node n None None c; delete_nodes ns c1 }"

definition ca_del_node :: "int \<Rightarrow> int \<Rightarrow> CacheAccess \<Rightarrow> (int \<times> CacheAccess) option" where
  "ca_del_node modbase mobres s = do {
     vec \<leftarrow> collect_nodes (m_cache s) modbase mobres (get_add_list_head (m_cache s)) [];
     c \<leftarrow> delete_nodes vec (m_cache s);
     Some (0, s\<lparr>m_cache := c\<rparr>)
   }"

text \<open>\<open>dirty_iterator\<close>: the position is a node; \<open>++\<close> skips clean nodes, \<open>begin\<close> does not.\<close>

partial_function (option) skip_clean :: "CHashMap \<Rightarrow> ptr \<Rightarrow> ptr option" where
  "skip_clean c cur =
     (case cur of
        None \<Rightarrow> Some None
      | Some n \<Rightarrow>
          if m_flag (m_hash_node c n) = flag_code NODE_FLAG_UNCHG then skip_clean c (get_add_list_next c n)
          else Some (Some n))"

definition it_begin :: "CHashMap \<Rightarrow> ptr" where
  "it_begin c = get_add_list_head c"

definition it_next :: "CHashMap \<Rightarrow> ptr \<Rightarrow> ptr option" where
  "it_next c cur = (case cur of None \<Rightarrow> Some None | Some n \<Rightarrow> skip_clean c (get_add_list_next c n))"

definition it_get :: "CHashMap \<Rightarrow> ptr \<Rightarrow> byte list \<Rightarrow> int \<Rightarrow> (int \<times> (byte list \<times> byte list \<times> int) option) option" where
  "it_get c cur buf buf_size =
     (case cur of
        None \<Rightarrow> Some (-1, None)
      | Some n \<Rightarrow> do {
          (ret, buf', len) \<leftarrow> merge_node_data c n buf (c_int buf_size);
          Some (ret, Some (m_key (m_hash_node c n), buf', c_unsigned len))
        })"

partial_function (option) mark_clean_loop ::
    "int \<Rightarrow> int \<Rightarrow> int \<Rightarrow> ptr \<Rightarrow> byte list \<Rightarrow> CacheAccess \<Rightarrow> (int \<times> CacheAccess) option" where
  "mark_clean_loop modbase mobres now it buff s =
     (if it = None then Some (0, s)
      else do {
        (ret, out) \<leftarrow> it_get (m_cache s) it buff 102400;
        case out of
          None \<Rightarrow> Some (0, s)
        | Some (key, buff', _) \<Rightarrow>
            if ret \<noteq> 0 then Some (0, s)
            else if c_unsigned modbase = 0 then None
            else do {
              s1 \<leftarrow> (if key_uin key mod c_unsigned modbase \<noteq> c_unsigned mobres then Some s
                     else do { (_, s') \<leftarrow> ca_mark_clean key now s; Some s' });
              it' \<leftarrow> it_next (m_cache s1) it;
              mark_clean_loop modbase mobres now it' buff' s1
            }
      })"

definition ca_mark_clean_mod :: "int \<Rightarrow> int \<Rightarrow> int \<Rightarrow> byte list \<Rightarrow> CacheAccess \<Rightarrow> (int \<times> CacheAccess) option" where
  "ca_mark_clean_mod modbase mobres now buff s = mark_clean_loop modbase mobres now (it_begin (m_cache s)) buff s"

section \<open>Statistics\<close>

definition ca_get_node_num :: "CacheAccess \<Rightarrow> int \<times> int \<times> int \<times> int" where
  "ca_get_node_num s = (c_unsigned (used_node_num (m_cache s)), c_unsigned (m_node_total (m_cache s)),
     c_unsigned (get_used_chunk_num (m_allocator (m_cache s))), c_unsigned (m_chunk_total (m_allocator (m_cache s))))"

record stat_memcache =
  hash_node_used :: int
  hash_node_total :: int
  hash_bucket_used :: int
  hash_bucket_total :: int
  chunk_node_used :: int
  chunk_node_total :: int
  chunk_data_size :: int

definition ca_get_stat :: "CacheAccess \<Rightarrow> stat_memcache" where
  "ca_get_stat s = \<lparr>
     hash_node_used = c_unsigned (used_node_num (m_cache s)),
     hash_node_total = c_unsigned (m_node_total (m_cache s)),
     hash_bucket_used = c_unsigned (m_used_bucket_num (m_cache s)),
     hash_bucket_total = c_unsigned (m_bucket_size (m_cache s)),
     chunk_node_used = c_unsigned (get_used_chunk_num (m_allocator (m_cache s))),
     chunk_node_total = c_unsigned (m_chunk_total (m_allocator (m_cache s))),
     chunk_data_size = c_unsigned (m_chunk_size (m_allocator (m_cache s)))\<rparr>"

end
