(* ===== verification/CacheDump.thy ===== *)
theory CacheDump
  imports CacheAccess
begin

text \<open>
  Dumps, recovery and timers of the cache (\<open>cdb/tfc_cache_access.cpp\<close>), and the wrapper \<open>CacheAccessUin\<close>.
  \<open>now\<close> is what \<open>time(NULL)\<close> returns during the operation and \<open>lt\<close> is \<open>localtime_r\<close>. The bytes of the
  shared memory, which the mirror dump copies, are given by \<open>mem_of\<close> and read back by \<open>of_mem\<close>.
  Contents of uninitialised local buffers are arguments. A failed \<open>assert\<close> is \<open>None\<close>.
\<close>

record tm =
  tm_hour :: int
  tm_min :: int
  tm_mday :: int

section \<open>Dumps to memory\<close>

partial_function (option) core_dump_mem_loop ::
    "CHashMap \<Rightarrow> int \<Rightarrow> int \<Rightarrow> int \<Rightarrow> ptr \<Rightarrow> byte list \<Rightarrow> int \<Rightarrow> (int \<times> byte list) option" where
  "core_dump_mem_loop c maxsize modbase mobres it buff ipos =
     (if it = None then Some (ipos, buff)
      else do {
        let at = nat (ipos + 20);
        (ret, out) \<leftarrow> it_get c it (drop at buff) (c_unsigned (maxsize - ipos - 20));
        case out of
          None \<Rightarrow> Some (ipos, buff)
        | Some (key, part, data_len) \<Rightarrow>
            let buff1 = take at buff @ part in
            if ret \<noteq> 0 then Some (ipos, buff1)
            else if modbase \<noteq> -1 \<and> c_unsigned modbase = 0 then None
            else do {
              it' \<leftarrow> it_next c it;
              if modbase \<noteq> -1 \<and> key_uin key mod c_unsigned modbase \<noteq> c_unsigned mobres
              then core_dump_mem_loop c maxsize modbase mobres it' buff1 ipos
              else do {
                b2 \<leftarrow> memcpy buff1 (nat ipos) key 0 16;
                b3 \<leftarrow> memcpy b2 (nat ipos + 16) (le_bytes 4 data_len) 0 4;
                core_dump_mem_loop c maxsize modbase mobres it' b3 (c_int (ipos + 20 + data_len))
              }
            }
      })"

definition core_dump_mem ::
    "byte list option \<Rightarrow> int \<Rightarrow> int \<Rightarrow> int \<Rightarrow> CacheAccess \<Rightarrow> (int \<times> byte list option) option" where
  "core_dump_mem buff maxsize modbase mobres s =
     (case buff of
        None \<Rightarrow> Some (-1, None)
      | Some b \<Rightarrow>
          if maxsize \<le> 0 then Some (-1, Some b)
          else do {
            (ipos, b') \<leftarrow> core_dump_mem_loop (m_cache s) maxsize modbase mobres (it_begin (m_cache s)) b 0;
            Some (ipos, Some b')
          })"

text \<open>The head of a dumped item: the key and the length.\<close>

definition item_head :: "byte list \<Rightarrow> int \<Rightarrow> (byte list \<times> int) option" where
  "item_head buff ipos =
     (if ipos < 0 then None
      else do {
        key \<leftarrow> memcpy (replicate 16 0) 0 buff (nat ipos) 16;
        len \<leftarrow> memcpy (replicate 4 0) 0 buff (nat ipos + 16) 4;
        Some (key, le_int len)
      })"

partial_function (option) core_recover_mem_loop ::
    "byte list \<Rightarrow> int \<Rightarrow> int \<Rightarrow> int \<Rightarrow> CacheAccess \<Rightarrow> (int \<times> CacheAccess) option" where
  "core_recover_mem_loop buff buffsize now ipos s =
     (if \<not> ipos < buffsize then Some (ipos, s)
      else if buffsize - ipos \<le> 20 then Some (ipos, s)
      else do {
        (key, data_len) \<leftarrow> item_head buff ipos;
        if data_len > buffsize - ipos - 20 then Some (ipos, s)
        else do {
          (ret, s1) \<leftarrow> ca_set key (drop (nat ipos + 20) buff) (c_unsigned data_len) NODE_FLAG_DIRTY now s;
          if ret \<noteq> 0 then None
          else core_recover_mem_loop buff buffsize now (ipos + 20 + data_len) s1
        }
      })"

definition core_recover_mem :: "byte list option \<Rightarrow> int \<Rightarrow> int \<Rightarrow> CacheAccess \<Rightarrow> (int \<times> CacheAccess) option" where
  "core_recover_mem buff buffsize now s =
     (case buff of
        None \<Rightarrow> Some (-1, s)
      | Some b \<Rightarrow> if buffsize < 0 then Some (-1, s) else core_recover_mem_loop b buffsize now 0 s)"

text \<open>The result is the return value, the buffer and \<open>core_size\<close>.\<close>

partial_function (option) core_dump_bucket_loop ::
    "CHashMap \<Rightarrow> int \<Rightarrow> ptr \<Rightarrow> byte list \<Rightarrow> int \<Rightarrow> (int \<times> byte list \<times> int) option" where
  "core_dump_bucket_loop c maxsize node buff ipos =
     (case node of
        None \<Rightarrow> Some (0, buff, c_unsigned ipos)
      | Some n \<Rightarrow> do {
          let at = nat (ipos + 20);
          (ret, part, data_len) \<leftarrow> merge_node_data c n (drop at buff) (maxsize - ipos - 20);
          let buff1 = take at buff @ part;
          if ret \<noteq> 0 then Some (-2, buff1, c_unsigned ipos)
          else do {
            b2 \<leftarrow> memcpy buff1 (nat ipos) (m_key (m_hash_node c n)) 0 16;
            b3 \<leftarrow> memcpy b2 (nat ipos + 16) (le_bytes 4 data_len) 0 4;
            core_dump_bucket_loop c maxsize (get_bucket_list_next c n) b3 (ipos + 20 + data_len)
          }
        })"

definition core_dump_bucket_mem ::
    "byte list option \<Rightarrow> int \<Rightarrow> int \<Rightarrow> CacheAccess \<Rightarrow> (int \<times> byte list option \<times> int) option" where
  "core_dump_bucket_mem buff maxsize bucket_id s =
     (case buff of
        None \<Rightarrow> Some (-1, None, 0)
      | Some b \<Rightarrow>
          if maxsize \<le> 0 then Some (-1, Some b, 0)
          else do {
            node \<leftarrow> get_bucket_list_head (m_cache s) bucket_id;
            (ret, b', core_size) \<leftarrow> core_dump_bucket_loop (m_cache s) maxsize node b 0;
            Some (ret, Some b', core_size)
          })"

partial_function (option) core_recover_bucket_loop ::
    "byte list \<Rightarrow> int \<Rightarrow> int \<Rightarrow> int \<Rightarrow> CacheAccess \<Rightarrow> ((int \<times> int) \<times> CacheAccess) option" where
  "core_recover_bucket_loop buff buffsize now ipos s =
     (if \<not> ipos < buffsize \<or> buffsize - ipos \<le> 20 then Some ((0, c_unsigned ipos), s)
      else do {
        (key, data_len) \<leftarrow> item_head buff ipos;
        if data_len > buffsize - ipos - 20 then Some ((-2, c_unsigned ipos), s)
        else do {
          (ret, s1) \<leftarrow> ca_set key (drop (nat ipos + 20) buff) (c_unsigned data_len) NODE_FLAG_DIRTY now s;
          if ret \<noteq> 0 then Some ((-2, c_unsigned ipos), s1)
          else core_recover_bucket_loop buff buffsize now (ipos + 20 + data_len) s1
        }
      })"

definition core_recover_bucket_mem ::
    "byte list option \<Rightarrow> int \<Rightarrow> int \<Rightarrow> CacheAccess \<Rightarrow> ((int \<times> int) \<times> CacheAccess) option" where
  "core_recover_bucket_mem buff buffsize now s =
     (case buff of
        None \<Rightarrow> Some ((-1, 0), s)
      | Some b \<Rightarrow> if buffsize < 0 then Some ((-1, 0), s) else core_recover_bucket_loop b buffsize now 0 s)"

section \<open>Dumps to files\<close>

definition dump_name :: "string \<Rightarrow> string \<Rightarrow> string" where
  "dump_name file ext = take 255 (file @ ext)" \<comment> \<open>\<open>snprintf\<close> into 256 characters\<close>

definition rename_any :: "string \<Rightarrow> string \<Rightarrow> FileSys \<Rightarrow> FileSys" where
  "rename_any old new fs = (case fs_rename old new fs of None \<Rightarrow> fs | Some fs' \<Rightarrow> fs')"

text \<open>The three renames at the end of a dump; failures are ignored.\<close>

definition rotate_dump :: "string \<Rightarrow> FileSys \<Rightarrow> FileSys" where
  "rotate_dump file fs =
     (let last_file = dump_name file ''.last''; tmp_name = dump_name file ''.tmp''
      in rename_any tmp_name last_file (rename_any last_file file (rename_any file tmp_name fs)))"

definition dump_buf_size :: int where
  "dump_buf_size = 128 * 1024 * 1024"

text \<open>\<open>buf\<close> holds the \<open>write_len\<close> bytes not yet written.\<close>

partial_function (option) core_dump_loop ::
    "CHashMap \<Rightarrow> FILE \<Rightarrow> ptr \<Rightarrow> byte list \<Rightarrow> byte list \<Rightarrow> FileSys \<Rightarrow> (byte list \<times> FileSys) option" where
  "core_dump_loop c fp it node_buf buf fs =
     (if it = None then Some (buf, fs)
      else do {
        (ret, out) \<leftarrow> it_get c it node_buf MAX_BINLOG_ITEM_LEN;
        case out of
          None \<Rightarrow> Some (buf, fs)
        | Some (key, node_buf', data_len) \<Rightarrow>
            if ret \<noteq> 0 then Some (buf, fs)
            else do {
              let (buf1, fs1) = (if dump_buf_size < int (length buf) + 20 + data_len
                                 then ([], fwrite buf fp fs) else (buf, fs));
              let buf2 = buf1 @ key @ le_bytes 4 data_len @ take (nat data_len) node_buf';
              it' \<leftarrow> it_next c it;
              if dump_buf_size < int (length buf2) then None
              else core_dump_loop c fp it' node_buf' buf2 fs1
            }
      })"

definition core_dump :: "string \<Rightarrow> byte list \<Rightarrow> CacheAccess \<Rightarrow> (int \<times> CacheAccess) option" where
  "core_dump szcorefile node_buf s =
     (case fopen_w (dump_name szcorefile ''.last'') (m_fs s) of
        (None, fs) \<Rightarrow> Some (-1, s\<lparr>m_fs := fs\<rparr>)
      | (Some fp, fs) \<Rightarrow> do {
          (buf, fs1) \<leftarrow> core_dump_loop (m_cache s) fp (it_begin (m_cache s)) node_buf [] fs;
          let fs2 = (if buf \<noteq> [] then fwrite buf fp fs1 else fs1);
          Some (c_int (int (length (content fs2 (f_file fp)))), s\<lparr>m_fs := rotate_dump szcorefile fs2\<rparr>)
        })"

text \<open>\<open>key\<close> and \<open>data_len\<close> keep their values when a read comes up short.\<close>

partial_function (option) core_recover_loop ::
    "FileSys \<Rightarrow> int \<Rightarrow> FILE \<Rightarrow> byte list \<Rightarrow> int \<Rightarrow> CHashMap \<Rightarrow> (int \<times> CHashMap) option" where
  "core_recover_loop fs now fp key data_len c =
     (if f_eof fp then Some (0, c)
      else
        let (ks, fp1) = fread 16 fp fs;
            key1 = ks @ drop (length ks) key;
            (len1, fp2) = fread_int data_len fp1 fs
        in if len1 > 32 * 1024 * 1024 then Some (-1, c)
           else if len1 < 0 then None
           else
             let (data, fp3) = fread (nat len1) fp2 fs
             in if length data \<noteq> nat len1 then Some (0, c)
                else do {
                  (r, c1) \<leftarrow> store_node key1 data len1 now c;
                  core_recover_loop fs now fp3 key1 len1
                    (case r of None \<Rightarrow> c1 | Some node \<Rightarrow> set_node_flag node NODE_FLAG_DIRTY c1)
                })"

definition core_recover :: "string \<Rightarrow> byte list \<Rightarrow> int \<Rightarrow> CacheAccess \<Rightarrow> (int \<times> CacheAccess) option" where
  "core_recover szcorefile key now s =
     (case fopen_r szcorefile (m_fs s) of
        None \<Rightarrow> Some (-1, s)
      | Some fp \<Rightarrow> do {
          (ret, c) \<leftarrow> core_recover_loop (m_fs s) now fp key 0 (m_cache s);
          Some (ret, s\<lparr>m_cache := c\<rparr>)
        })"

section \<open>Timers\<close>

definition min_of_day :: "tm \<Rightarrow> int" where
  "min_of_day t = 60 * tm_hour t + tm_min t"

text \<open>The dump point is \<open>unsigned\<close>, so the differences and the remainders are computed modulo \<open>2 ^ 32\<close>.\<close>

definition init_lastdumptime :: "(int \<Rightarrow> tm) \<Rightarrow> int \<Rightarrow> CacheAccess \<Rightarrow> CacheAccess" where
  "init_lastdumptime lt now s =
     (if m_cache_dump_min s = 0 then s\<lparr>m_lastdumptime := now\<rparr>
      else if m_cache_dump_min s \<ge> 60 * 24 then s\<lparr>m_lastdumptime := now\<rparr>
      else
        let mins = min_of_day (lt now);
            point = m_cache_dump_point s;
            step = c_unsigned (m_cache_dump_min s);
            last_dump_min =
              (if c_int point \<le> mins
               then c_int (mins - c_unsigned (mins - point) mod step)
               else c_int (mins - m_cache_dump_min s + c_unsigned (point - mins) mod step))
        in s\<lparr>m_lastdumptime := now - (mins - last_dump_min) * 60\<rparr>)"

definition CoreInit ::
    "(int \<Rightarrow> tm) \<Rightarrow> int \<Rightarrow> int \<Rightarrow> int \<Rightarrow> string \<Rightarrow> string \<Rightarrow> int \<Rightarrow> int \<Rightarrow> CacheAccess \<Rightarrow> (int \<times> CacheAccess) option" where
  "CoreInit lt now coredump_min coredump_point coredump_file sBinLogBaseName lMaxBinLogSize iMaxBinLogNum s =
     (if coredump_point \<ge> 24 * 60 then None
      else
        let s1 = init_lastdumptime lt now (s\<lparr>m_cache_dump_point := coredump_point, m_cache_dump_min := coredump_min\<rparr>);
            (_, b) = binlog_Init sBinLogBaseName lMaxBinLogSize iMaxBinLogNum (m_binlog s1)
        in Some (0, s1\<lparr>m_cache_dump_file := c_string 255 coredump_file, m_binlog := b\<rparr>))"

text \<open>The test that \<open>time_check\<close> and \<open>is_need_dump\<close> have in common. \<open>None\<close>: the product overflows.\<close>

definition dump_due :: "(int \<Rightarrow> tm) \<Rightarrow> int \<Rightarrow> CacheAccess \<Rightarrow> bool option" where
  "dump_due lt now s =
     (if m_cache_dump_min s * 60 \<ge> 2 ^ 31 then None
      else Some ((tm_mday (lt (m_lastdumptime s)) \<noteq> tm_mday (lt now) \<and> min_of_day (lt now) = m_cache_dump_point s)
                 \<or> now - m_lastdumptime s \<ge> m_cache_dump_min s * 60))"

definition clear_log :: "CacheAccess \<Rightarrow> CacheAccess" where
  "clear_log s = (let (_, b, fs) = ClearAllBinLog (m_binlog s) (m_fs s) in s\<lparr>m_binlog := b, m_fs := fs\<rparr>)"

definition time_check :: "(int \<Rightarrow> tm) \<Rightarrow> byte list \<Rightarrow> int \<Rightarrow> CacheAccess \<Rightarrow> (int \<times> CacheAccess) option" where
  "time_check lt node_buf now s =
     (if m_cache_dump_min s \<le> 0 then Some (0, s)
      else do {
        bNeedCore \<leftarrow> dump_due lt now s;
        if bNeedCore
        then do {
          (len, s1) \<leftarrow> core_dump (m_cache_dump_file s) node_buf s;
          let s2 = (if 0 \<le> len then clear_log s1 else s1);
          Some (0, s2\<lparr>m_lastdumptime := now\<rparr>)
        }
        else Some (1, s)
      })"

definition is_need_dump :: "(int \<Rightarrow> tm) \<Rightarrow> int \<Rightarrow> CacheAccess \<Rightarrow> bool option" where
  "is_need_dump lt now s = (if m_cache_dump_min s \<le> 0 then Some False else dump_due lt now s)"

section \<open>Recovery from the binary log\<close>

text \<open>One record of the log, in \<open>szBuff\<close>. \<open>get_bytes\<close> reads a field of it.\<close>

definition get_bytes :: "nat \<Rightarrow> nat \<Rightarrow> byte list \<Rightarrow> byte list option" where
  "get_bytes n i buff = memcpy (replicate n 0) 0 buff i (int n)"

definition flag_dirty :: "ptr \<times> CHashMap \<Rightarrow> CHashMap" where
  "flag_dirty r = (case r of (None, c) \<Rightarrow> c | (Some node, c) \<Rightarrow> set_node_flag node NODE_FLAG_DIRTY c)"

text \<open>The branches for \<open>op_del\<close> and \<open>op_mark_clean\<close>, equal in both recoveries.\<close>

definition replay_key_op :: "int \<Rightarrow> byte list \<Rightarrow> CHashMap \<Rightarrow> CHashMap option" where
  "replay_key_op op hk c =
     (if op = op_del
      then do {
        (r, c1) \<leftarrow> find_node hk c;
        case r of None \<Rightarrow> Some c1 | Some node \<Rightarrow> do { (_, c2) \<leftarrow> delete_node node None None c1; Some c2 }
      }
      else if op = op_mark_clean
      then do {
        (r, c1) \<leftarrow> find_node hk c;
        Some (case r of None \<Rightarrow> c1 | Some node \<Rightarrow> set_node_flag node NODE_FLAG_UNCHG c1)
      }
      else Some c)"

definition replay_record :: "byte list \<Rightarrow> int \<Rightarrow> CHashMap \<Rightarrow> CHashMap option" where
  "replay_record szBuff now c = do {
     op \<leftarrow> get_bytes 4 0 szBuff;
     hk \<leftarrow> get_bytes 16 4 szBuff;
     if le_int op = op_set
     then do {
       len \<leftarrow> get_bytes 4 20 szBuff;
       r \<leftarrow> store_node hk (drop 24 szBuff) (le_int len) now c;
       Some (flag_dirty r)
     }
     else replay_key_op (le_int op) hk c
   }"

definition store_node_metadata ::
    "byte list \<Rightarrow> byte list \<Rightarrow> int \<Rightarrow> int \<Rightarrow> int \<Rightarrow> CHashMap \<Rightarrow> (ptr \<times> CHashMap) option" where
  "store_node_metadata hk data data_len expiretime now c = do {
     (r, c1) \<leftarrow> find_node hk c;
     case r of
       None \<Rightarrow> insert_node_metadata hk data data_len expiretime now c1
     | Some node \<Rightarrow> update_node_metadata node data data_len expiretime now c1
   }"

definition replay_record_mirror :: "byte list \<Rightarrow> int \<Rightarrow> CHashMap \<Rightarrow> CHashMap option" where
  "replay_record_mirror szBuff now c = do {
     op \<leftarrow> get_bytes 4 0 szBuff;
     hk \<leftarrow> get_bytes 16 4 szBuff;
     if le_int op = op_set
     then do {
       len \<leftarrow> get_bytes 4 20 szBuff;
       if 24 + le_int len < 0 then None
       else do {
         ex \<leftarrow> get_bytes 8 (nat (24 + le_int len)) szBuff;
         r \<leftarrow> store_node_metadata hk (drop 24 szBuff) (le_int len) (le_int ex) now c;
         Some (flag_dirty r)
       }
     }
     else replay_key_op (le_int op) hk c
   }"

partial_function (option) replay_loop ::
    "(byte list \<Rightarrow> int \<Rightarrow> CHashMap \<Rightarrow> CHashMap option) \<Rightarrow> int \<Rightarrow> CacheAccess \<Rightarrow> CacheAccess option" where
  "replay_loop step now s = do {
     (len, buff, b) \<leftarrow> ReadRecordFromBinLog (m_szBuff s) MAX_BINLOG_ITEM_LEN (m_fs s) (m_binlog s);
     let s1 = s\<lparr>m_szBuff := buff, m_binlog := b\<rparr>;
     if 0 < len
     then do { c \<leftarrow> step buff now (m_cache s1); replay_loop step now (s1\<lparr>m_cache := c\<rparr>) }
     else Some s1
   }"

definition rewind_log :: "CacheAccess \<Rightarrow> CacheAccess option" where
  "rewind_log s = do {
     (_, b) \<leftarrow> SetReadRecordStartTime 0 0 (-1) (m_fs s) (m_binlog s);
     Some (s\<lparr>m_binlog := b\<rparr>)
   }"

definition has_dump :: "CacheAccess \<Rightarrow> bool" where
  "has_dump s \<longleftrightarrow> fs_exists (m_fs s) (m_cache_dump_file s) \<and> m_cache_dump_min s > 0"

definition StartUp :: "byte list \<Rightarrow> int \<Rightarrow> CacheAccess \<Rightarrow> (int \<times> CacheAccess) option" where
  "StartUp key now s =
     (if \<not> m_cacheinit s then Some (1, s)
      else do {
        s1 \<leftarrow> (if has_dump s
               then do { (_, s') \<leftarrow> core_recover (m_cache_dump_file s) key now s; Some s' }
               else Some s);
        s2 \<leftarrow> rewind_log s1;
        s3 \<leftarrow> replay_loop replay_record now s2;
        Some (0, s3)
      })"

section \<open>The mirror dump\<close>

definition mirror_dump :: "(CHashMap \<Rightarrow> byte list) \<Rightarrow> string \<Rightarrow> CacheAccess \<Rightarrow> int \<times> CacheAccess" where
  "mirror_dump mem_of mirror_file s =
     (case fopen_w (dump_name mirror_file ''.last'') (m_fs s) of
        (None, fs) \<Rightarrow> (-1, s\<lparr>m_fs := fs\<rparr>)
      | (Some fp, fs) \<Rightarrow>
          (0, s\<lparr>m_fs := rotate_dump mirror_file (fwrite (take (nat (m_mem_size s)) (mem_of (m_cache s))) fp fs)\<rparr>))"

definition mirror_recover :: "(byte list \<Rightarrow> CHashMap) \<Rightarrow> string \<Rightarrow> CacheAccess \<Rightarrow> (int \<times> CacheAccess) option" where
  "mirror_recover of_mem mirror_file s =
     (case fs_size (m_fs s) mirror_file of
        None \<Rightarrow> Some (0, s)
      | Some st_size \<Rightarrow>
          if st_size \<noteq> m_mem_size s then None
          else case fopen_r mirror_file (m_fs s) of
            None \<Rightarrow> None
          | Some fp \<Rightarrow> Some (0, s\<lparr>m_cache := of_mem (fst (fread (nat (m_mem_size s)) fp (m_fs s)))\<rparr>))"

definition StartUp_mirror :: "(byte list \<Rightarrow> CHashMap) \<Rightarrow> int \<Rightarrow> CacheAccess \<Rightarrow> (int \<times> CacheAccess) option" where
  "StartUp_mirror of_mem now s =
     (if \<not> m_cacheinit s then Some (1, s)
      else do {
        s1 \<leftarrow> (if has_dump s
               then do { (_, s') \<leftarrow> mirror_recover of_mem (m_cache_dump_file s) s; Some s' }
               else Some s);
        s2 \<leftarrow> rewind_log s1;
        s3 \<leftarrow> replay_loop replay_record_mirror now s2;
        Some (0, s3)
      })"

definition time_check_mirror ::
    "(int \<Rightarrow> tm) \<Rightarrow> (CHashMap \<Rightarrow> byte list) \<Rightarrow> int \<Rightarrow> CacheAccess \<Rightarrow> (int \<times> CacheAccess) option" where
  "time_check_mirror lt mem_of now s = do {
     need_dump \<leftarrow> is_need_dump lt now s;
     if need_dump
     then let (ret, s1) = mirror_dump mem_of (m_cache_dump_file s) s;
              s2 = (if 0 \<le> ret then clear_log s1 else s1)
          in Some (0, s2\<lparr>m_lastdumptime := now\<rparr>)
     else Some (1, s)
   }"

section \<open>The wrapper for numeric keys\<close>

definition uin_key :: "int \<Rightarrow> byte list" where
  "uin_key uin = le_bytes 4 uin @ replicate 12 0"

definition uin_set :: "int \<Rightarrow> byte list \<Rightarrow> int \<Rightarrow> ENodeFlag \<Rightarrow> int \<Rightarrow> CacheAccess \<Rightarrow> (int \<times> CacheAccess) option" where
  "uin_set uin data data_len flag now da = ca_set (uin_key uin) data data_len flag now da"

definition uin_del :: "int \<Rightarrow> int \<Rightarrow> CacheAccess \<Rightarrow> (int \<times> CacheAccess) option" where
  "uin_del uin now da = ca_del (uin_key uin) now da"

definition uin_get :: "int \<Rightarrow> byte list \<Rightarrow> int \<Rightarrow> CacheAccess \<Rightarrow> ((int \<times> get_out option) \<times> CacheAccess) option" where
  "uin_get uin buf buf_size da = ca_get (uin_key uin) buf buf_size da"

definition uin_get_key :: "int \<Rightarrow> CacheAccess \<Rightarrow> ((int \<times> (bool \<times> int \<times> int) option) \<times> CacheAccess) option" where
  "uin_get_key uin da = ca_get_key (uin_key uin) da"

definition uin_mark_clean :: "int \<Rightarrow> int \<Rightarrow> CacheAccess \<Rightarrow> (int \<times> CacheAccess) option" where
  "uin_mark_clean uin now da = ca_mark_clean (uin_key uin) now da"

text \<open>The key objects start zeroed, so a call that finds nothing reports the number 0.\<close>

definition uin_oldest :: "byte list \<Rightarrow> int \<Rightarrow> CacheAccess \<Rightarrow> (int \<times> int \<times> get_out option) option" where
  "uin_oldest buf buf_size da = do {
     (ret, out) \<leftarrow> ca_oldest buf buf_size da;
     Some (case out of None \<Rightarrow> (ret, 0, None) | Some (key, out') \<Rightarrow> (ret, key_uin key, Some out'))
   }"

definition uin_oldest_key :: "CacheAccess \<Rightarrow> int \<times> int \<times> (bool \<times> int \<times> int) option" where
  "uin_oldest_key da =
     (case ca_oldest_key da of
        (ret, None) \<Rightarrow> (ret, 0, None)
      | (ret, Some (key, info)) \<Rightarrow> (ret, key_uin key, Some info))"

definition uin_get_lru_pre ::
    "int \<Rightarrow> byte list \<Rightarrow> int \<Rightarrow> CacheAccess \<Rightarrow> ((int \<times> int \<times> get_out option) \<times> CacheAccess) option" where
  "uin_get_lru_pre uin buf buf_size da = do {
     ((ret, out), da') \<leftarrow> ca_get_lru_pre (uin_key uin) buf buf_size da;
     Some (case out of None \<Rightarrow> ((ret, 0, None), da') | Some (key, out') \<Rightarrow> ((ret, key_uin key, Some out'), da'))
   }"

end
