(* ===== verification/CacheRep.thy ===== *)
theory CacheRep
  imports CacheDump
begin

text \<open>
  The hash map as a list of entries, most recently used first, within a geometry that no operation
  changes: the number of nodes, of buckets and of chunks and the chunk size. Buffers may be longer
  than the length that goes with them.
\<close>

section \<open>The geometry\<close>

definition al_geom :: "CChunkAllocator \<Rightarrow> int \<times> int" where
  "al_geom a = (m_chunk_total a, m_chunk_size a)"

definition hm_geom :: "CHashMap \<Rightarrow> (int \<times> int) \<times> int \<times> int" where
  "hm_geom s = ((m_node_total s, m_bucket_size s), al_geom (m_allocator s))"

lemma al_geom_upd [frame_simps]:
  "al_geom (a\<lparr>m_free_list := h\<rparr>) = al_geom a" "al_geom (a\<lparr>m_free_total := k\<rparr>) = al_geom a"
  "al_geom (set_chunk_next n h a) = al_geom a" "al_geom (set_chunk_data n d a) = al_geom a"
  by (simp_all add: al_geom_def set_chunk_next_def set_chunk_data_def)

lemma chunk_malloc_loop_geom: "chunk_malloc_loop i p a = Some (p', a') \<Longrightarrow> al_geom a' = al_geom a"
  by (induction i arbitrary: p a)
    (auto simp: chunk_free_list_remove_def Let_def frame_simps split: option.splits prod.splits)

lemma chunk_malloc_geom: "chunk_malloc k a = Some (h, a') \<Longrightarrow> al_geom a' = al_geom a"
  by (auto simp: chunk_malloc_def Let_def bind_eq_Some_conv frame_simps dest!: chunk_malloc_loop_geom split: if_splits)

lemma chunk_free_geom:
  assumes "chunk_free h a = Some a'"
  shows "al_geom a' = al_geom a"
  using assms
proof (rule chunk_free.raw_induct [where P = "\<lambda>h a a'. al_geom a' = al_geom a", rotated])
  fix f h a a'
  assume ih: "\<And>h a a'. f h a = Some a' \<Longrightarrow> al_geom a' = al_geom a"
    and "(case chunk_handler2ptr h of None \<Rightarrow> Some a
      | Some node \<Rightarrow> let next_chunk_hdr = chunk_next a node; s1 = chunk_free_list_insert node a
          in f next_chunk_hdr (s1\<lparr>m_free_total := m_free_total s1 + 1\<rparr>)) = Some a'"
  then show "al_geom a' = al_geom a"
    by (auto simp: chunk_free_list_insert_def Let_def frame_simps split: option.splits dest!: ih)
qed

lemma chunk_split_loop_geom:
  assumes "chunk_split_loop p d i r a = Some a'"
  shows "al_geom a' = al_geom a"
  using assms
proof (rule chunk_split_loop.raw_induct [where P = "\<lambda>p d i r a a'. al_geom a' = al_geom a", rotated], goal_cases)
  case (1 f p d i r a a')
  from 1(2) show ?case
    by (auto simp: Let_def bind_eq_Some_conv frame_simps split: option.splits if_splits dest!: 1(1))
qed

lemma chunk_split_geom: "chunk_split h d n a = Some a' \<Longrightarrow> al_geom a' = al_geom a"
  unfolding chunk_split_def by (rule chunk_split_loop_geom)

lemma hm_geom_upd [frame_simps]:
  "hm_geom (upd_node n f s) = hm_geom s" "hm_geom (s\<lparr>m_add_head := h\<rparr>) = hm_geom s"
  "hm_geom (s\<lparr>m_add_tail := h\<rparr>) = hm_geom s" "hm_geom (s\<lparr>m_node_free_list := h\<rparr>) = hm_geom s"
  "hm_geom (s\<lparr>m_used_node_num := k\<rparr>) = hm_geom s" "hm_geom (s\<lparr>m_bucket := bs\<rparr>) = hm_geom s"
  "al_geom a = al_geom (m_allocator s) \<Longrightarrow> hm_geom (s\<lparr>m_allocator := a\<rparr>) = hm_geom s"
  "hm_geom (set_node_next n h s) = hm_geom s" "hm_geom (set_node_prev n h s) = hm_geom s"
  "hm_geom (set_add_next n h s) = hm_geom s" "hm_geom (set_add_prev n h s) = hm_geom s"
  "hm_geom (init_node n s) = hm_geom s" "hm_geom (set_node_flag n fl s) = hm_geom s"
  "hm_geom (set_expiretime n t s) = hm_geom s"
  by (simp_all add: hm_geom_def upd_node_def set_node_next_def set_node_prev_def set_add_next_def
      set_add_prev_def init_node_def set_node_flag_def set_expiretime_def)

lemma delete_from_add_list_geom [frame_simps]: "hm_geom (delete_from_add_list n s) = hm_geom s"
  by (simp add: delete_from_add_list_def Let_def frame_simps)

lemma insert_add_list_head_geom [frame_simps]: "hm_geom (insert_add_list_head n s) = hm_geom s"
  by (simp add: insert_add_list_head_def Let_def frame_simps split: option.splits)

lemma node_free_list_insert_geom [frame_simps]: "hm_geom (node_free_list_insert n s) = hm_geom s"
  by (simp add: node_free_list_insert_def Let_def frame_simps)

lemma node_free_list_remove_geom: "node_free_list_remove s = (p, s') \<Longrightarrow> hm_geom s' = hm_geom s"
  by (auto simp: node_free_list_remove_def Let_def frame_simps split: option.splits)

lemma set_bucket_geom: "set_bucket i h s = Some s' \<Longrightarrow> hm_geom s' = hm_geom s"
  by (auto simp: set_bucket_def frame_simps split: if_splits)

lemma insert_node_list_geom: "insert_node_list n s = Some s' \<Longrightarrow> hm_geom s' = hm_geom s"
  by (auto simp: insert_node_list_def Let_def bind_eq_Some_conv frame_simps dest!: set_bucket_geom split: option.splits)

lemma delete_from_node_list_geom: "delete_from_node_list n s = Some s' \<Longrightarrow> hm_geom s' = hm_geom s"
  by (auto simp: delete_from_node_list_def Let_def bind_eq_Some_conv frame_simps dest!: set_bucket_geom split: if_splits)

lemma hm_geom_allocator: "hm_geom s' = hm_geom s \<Longrightarrow> al_geom (m_allocator s') = al_geom (m_allocator s)"
  by (simp add: hm_geom_def)

lemma free_node_geom: "free_node n s = Some s' \<Longrightarrow> hm_geom s' = hm_geom s"
  by (auto simp: free_node_def bind_eq_Some_conv frame_simps dest!: delete_from_node_list_geom chunk_free_geom)

lemma find_node_geom: "find_node k s = Some (r, s') \<Longrightarrow> hm_geom s' = hm_geom s"
  by (auto simp: find_node_def bind_eq_Some_conv frame_simps split: option.splits)

lemma delete_node_geom: "delete_node n od ol s = Some (r, s') \<Longrightarrow> hm_geom s' = hm_geom s"
  by (auto simp: delete_node_def Let_def bind_eq_Some_conv frame_simps dest!: free_node_geom split: if_splits)

lemma free_malloc_split_geom:
  "chunk_free h a = Some a1 \<Longrightarrow> chunk_malloc k a1 = Some (h', a2) \<Longrightarrow> chunk_split h' d n a2 = Some a3 \<Longrightarrow>
   al_geom a3 = al_geom a"
  by (metis chunk_free_geom chunk_malloc_geom chunk_split_geom)

lemma hm_geom_upd_allocator:
  "al_geom a = al_geom (m_allocator s) \<Longrightarrow> hm_geom (upd_node n f (s\<lparr>m_allocator := a\<rparr>)) = hm_geom s"
  by (simp add: frame_simps)

lemma update_node_data_geom:
  assumes "update_node_data n d k s = Some (r, s')"
  shows "hm_geom s' = hm_geom s"
proof -
  have 1: "hm_geom s' = hm_geom s" if "chunk_split h d k (m_allocator s) = Some a" "upd_node n f (s\<lparr>m_allocator := a\<rparr>) = s'" for h a f
    using hm_geom_upd_allocator [OF chunk_split_geom [OF that(1)]] that(2) by blast
  have 2: "hm_geom s' = hm_geom s" if "chunk_free h0 (m_allocator s) = Some a1" "chunk_malloc m a1 = Some (h, a2)"
    "chunk_split h d k a2 = Some a" "upd_node n f (s\<lparr>m_allocator := a\<rparr>) = s'" for h0 a1 m h a2 a f
    using hm_geom_upd_allocator [OF free_malloc_split_geom [OF that(1-3)]] that(4) by blast
  show ?thesis
    using assms unfolding update_node_data_def bind_eq_Some_conv
    by (clarsimp simp: bind_eq_Some_conv split: if_splits) (metis 1 2)+
qed

lemma update_node_geom: "update_node n d k od ol now s = Some (r, s') \<Longrightarrow> hm_geom s' = hm_geom s"
  by (auto simp: update_node_def bind_eq_Some_conv frame_simps dest!: update_node_data_geom split: if_splits)

lemma update_node_metadata_geom: "update_node_metadata n d k e now s = Some (r, s') \<Longrightarrow> hm_geom s' = hm_geom s"
  by (auto simp: update_node_metadata_def Let_def bind_eq_Some_conv frame_simps dest!: update_node_data_geom split: if_splits)

lemma malloc_split_geom:
  "chunk_malloc k a = Some (h, a1) \<Longrightarrow> chunk_split h d n a1 = Some a2 \<Longrightarrow> al_geom a2 = al_geom a"
  by (metis chunk_malloc_geom chunk_split_geom)

lemma use_node_geom: "use_node n key k h s = Some s' \<Longrightarrow> hm_geom s' = hm_geom s"
  by (auto simp: use_node_def frame_simps dest!: insert_node_list_geom)

lemma insert_node_data_geom:
  assumes "insert_node_data key d k s = Some (r, s')"
  shows "hm_geom s' = hm_geom s"
proof -
  obtain p s1 where p: "node_free_list_remove s = (p, s1)" by fastforce
  have u: "hm_geom s3 = hm_geom s1" if "chunk_malloc k' (m_allocator s1) = Some (h, a1)" "chunk_split h d k a1 = Some a2"
    "use_node n key k h (s1\<lparr>m_allocator := a2\<rparr>) = Some s3" for k' h a1 a2 n s3
    using use_node_geom [OF that(3)] malloc_split_geom [OF that(1,2)] by (simp add: frame_simps)
  have m: "hm_geom (s1\<lparr>m_allocator := a1\<rparr>) = hm_geom s1" if "chunk_malloc k' (m_allocator s1) = Some (h, a1)" for k' h a1
    using chunk_malloc_geom [OF that] by (simp add: frame_simps)
  have "hm_geom s' = hm_geom s1"
    using assms by (auto simp: insert_node_data_def p Let_def bind_eq_Some_conv node_free_list_insert_geom
      split: option.splits if_splits intro: u m)
  then show ?thesis using node_free_list_remove_geom [OF p] by simp
qed

lemma insert_node_geom: "insert_node key d k now s = Some (r, s') \<Longrightarrow> hm_geom s' = hm_geom s"
  by (auto simp: insert_node_def bind_eq_Some_conv frame_simps dest!: insert_node_data_geom split: option.splits)

lemma insert_node_metadata_geom: "insert_node_metadata key d k e now s = Some (r, s') \<Longrightarrow> hm_geom s' = hm_geom s"
  by (auto simp: insert_node_metadata_def bind_eq_Some_conv frame_simps dest!: insert_node_data_geom split: option.splits)

section \<open>Buffers longer than the value\<close>

lemma memcpy_longer: "spos + nat n \<le> length src \<Longrightarrow> memcpy dst dpos (src @ x) spos n = memcpy dst dpos src spos n"
  by (simp add: memcpy_def)

lemma chunk_split_loop_longer:
  assumes "0 < m_chunk_size a" and "0 \<le> r" and "pos + nat r \<le> length d"
  shows "chunk_split_loop p (d @ x) pos r a = chunk_split_loop p d pos r a"
  using assms
proof (induction "nat r" arbitrary: p pos r a rule: less_induct)
  case less
  show ?case
  proof (cases p)
    case (Some n)
    show ?thesis
    proof (cases "r < m_chunk_size a")
      case True
      then show ?thesis
        using Some less.prems by (subst (1 2) chunk_split_loop.simps) (simp add: memcpy_longer)
    next
      case False
      define c where "c = m_chunk_size a"
      have c: "0 < c" "\<not> r < c" "pos + nat c + nat (r - c) \<le> length d" "nat (r - c) < nat r"
        using False less.prems by (simp_all add: c_def)
      have "chunk_split_loop q (d @ x) (pos + nat c) (r - c) (set_chunk_data n y a) =
        chunk_split_loop q d (pos + nat c) (r - c) (set_chunk_data n y a)" for q y
        using c less.prems by (intro less.hyps) (simp_all add: c_def set_chunk_data_def)
      moreover have "memcpy (chunk_data a n) 0 (d @ x) pos c = memcpy (chunk_data a n) 0 d pos c"
        using c by (intro memcpy_longer) simp
      ultimately show ?thesis
        using Some c(2) by (subst (1 2) chunk_split_loop.simps) (simp add: c_def [symmetric] Let_def)
    qed
  qed (simp add: chunk_split_loop.simps)
qed

lemma chunk_split_longer:
  "0 < m_chunk_size a \<Longrightarrow> chunk_split h (d @ x) (int (length d)) a = chunk_split h d (int (length d)) a"
  by (simp add: chunk_split_def chunk_split_loop_longer)

lemma geom_size: "al_geom a' = al_geom a \<Longrightarrow> m_chunk_size a' = m_chunk_size a"
  by (simp add: al_geom_def)

lemma insert_node_data_longer:
  assumes "0 < m_chunk_size (m_allocator s)"
  shows "insert_node_data key (d @ x) (int (length d)) s = insert_node_data key d (int (length d)) s"
proof -
  obtain p s1 where p: "node_free_list_remove s = (p, s1)" by fastforce
  have s1: "0 < m_chunk_size (m_allocator s1)"
    using assms geom_size [OF hm_geom_allocator [OF node_free_list_remove_geom [OF p]]] by simp
  have "chunk_split h (d @ x) (int (length d)) a1 = chunk_split h d (int (length d)) a1"
    if "chunk_malloc k (m_allocator s1) = Some (h, a1)" for k h a1
    using s1 geom_size [OF chunk_malloc_geom [OF that]] by (intro chunk_split_longer) simp
  then show ?thesis
    by (auto simp: insert_node_data_def p Let_def split: option.split intro!: bind_option_cong)
qed

lemma update_node_data_longer:
  assumes "0 < m_chunk_size (m_allocator s)"
  shows "update_node_data n (d @ x) (int (length d)) s = update_node_data n d (int (length d)) s"
proof -
  have "chunk_split h (d @ x) (int (length d)) a2 = chunk_split h d (int (length d)) a2"
    if "chunk_free h0 (m_allocator s) = Some a1" "chunk_malloc k a1 = Some (h, a2)" for h0 a1 k h a2
    using assms geom_size [OF chunk_malloc_geom [OF that(2)]] geom_size [OF chunk_free_geom [OF that(1)]]
    by (intro chunk_split_longer) simp
  then show ?thesis
    using chunk_split_longer [OF assms] by (auto simp: update_node_data_def intro!: bind_option_cong)
qed

lemma prefix_split: "nat n \<le> length data \<Longrightarrow> data = take (nat n) data @ drop (nat n) data"
  by simp

lemma store_longer:
  assumes "0 < m_chunk_size (m_allocator s)"
  shows "insert_node key (d @ x) (int (length d)) now s = insert_node key d (int (length d)) now s"
    and "insert_node_metadata key (d @ x) (int (length d)) ex now s = insert_node_metadata key d (int (length d)) ex now s"
    and "update_node n (d @ x) (int (length d)) od ol now s = update_node n d (int (length d)) od ol now s"
    and "update_node_metadata n (d @ x) (int (length d)) ex now s = update_node_metadata n d (int (length d)) ex now s"
  unfolding insert_node_def insert_node_metadata_def update_node_def update_node_metadata_def
    insert_node_data_longer [OF assms] update_node_data_longer [OF assms] by (rule refl)+

section \<open>The list of entries\<close>

definition lru_find :: "byte list \<Rightarrow> entry list \<Rightarrow> entry option" where
  "lru_find k es = find (\<lambda>e. e_key e = k) es"

definition lru_drop :: "byte list \<Rightarrow> entry list \<Rightarrow> entry list" where
  "lru_drop k es = filter (\<lambda>e. e_key e \<noteq> k) es"

type_synonym geometry = "(int \<times> int) \<times> int \<times> int"

definition cost :: "geometry \<Rightarrow> byte list \<Rightarrow> int" where
  "cost g d = chunks_for (snd (snd g)) (int (length d))"

definition lru_used :: "geometry \<Rightarrow> entry list \<Rightarrow> int" where
  "lru_used g es = (\<Sum>e\<leftarrow>es. cost g (e_data e))"

definition lru_room :: "geometry \<Rightarrow> entry list \<Rightarrow> byte list \<Rightarrow> bool" where
  "lru_room g es d \<longleftrightarrow> int (length es) < fst (fst g) \<and> d \<noteq> [] \<and> lru_used g es + cost g d \<le> fst (snd g)"

definition cache_rep :: "CHashMap \<Rightarrow> entry list \<Rightarrow> bool" where
  "cache_rep c es \<longleftrightarrow> (\<exists>L V. hm_ok c L V \<and> es = map V L)"

text \<open>Node \<open>n\<close> is the most recently used one and holds \<open>e\<close>; the others hold \<open>es\<close>.\<close>

definition node_rep :: "CHashMap \<Rightarrow> int \<Rightarrow> entry \<Rightarrow> entry list \<Rightarrow> bool" where
  "node_rep c n e es \<longleftrightarrow> (\<exists>L V. hm_ok c (n # L) V \<and> V n = e \<and> es = map V L)"

lemma node_rep_cache: "node_rep c n e es \<Longrightarrow> cache_rep c (e # es)"
  unfolding node_rep_def cache_rep_def by (metis list.simps(9))

lemma cache_rep_distinct: "cache_rep c es \<Longrightarrow> distinct (map e_key es)"
  using hm_ok_keys(2) by (auto simp: cache_rep_def comp_def)

lemma hm_ok_chunk_size: "hm_ok c L V \<Longrightarrow> 0 < m_chunk_size (m_allocator c)"
  by (auto simp: hm_ok_def hm_values_def alloc_ok_def chunk_pool_ok_def)

lemma hm_ok_free:
  assumes "hm_ok c L V"
  shows "free_node_num c = m_node_total c - int (length L)"
    and "get_free_chunk_num (m_allocator c) = m_chunk_total (m_allocator c) - lru_used (hm_geom c) (map V L)"
proof -
  from assms obtain F X C where ok: "hm_nodes c L F" "hm_values c L X C V" by (auto simp: hm_ok_def)
  show "free_node_num c = m_node_total c - int (length L)"
    using ok(1) by (simp add: free_node_num_def hm_nodes_def)
  have al: "alloc_ok (m_allocator c) C" using ok(2) by (simp add: hm_values_def)
  have "mset (concat (map X L) @ C) = mset (chunk_offs (m_allocator c))" using ok(2) by (simp add: hm_values_def)
  then have "length (concat (map X L) @ C) = length (chunk_offs (m_allocator c))" by (metis size_mset)
  then have "(\<Sum>n\<leftarrow>L. length (X n)) + length C = nat (m_chunk_total (m_allocator c))"
    by (simp add: chunk_offs_def length_concat comp_def)
  moreover have "0 \<le> m_chunk_total (m_allocator c)" using al by (simp add: alloc_ok_def chunk_pool_ok_def)
  ultimately have "int (\<Sum>n\<leftarrow>L. length (X n)) + int (length C) = m_chunk_total (m_allocator c)" by linarith
  moreover have "int (length (X n)) = cost (hm_geom c) (e_data (V n))" if "n \<in> set L" for n
    using ok(2) that by (simp add: hm_values_def entry_at_def cost_def hm_geom_def al_geom_def)
  then have "int (\<Sum>n\<leftarrow>L. length (X n)) = lru_used (hm_geom c) (map V L)"
    unfolding lru_used_def by (induction L) simp_all
  ultimately show "get_free_chunk_num (m_allocator c) = m_chunk_total (m_allocator c) - lru_used (hm_geom c) (map V L)"
    using hm_free_nums(2) [OF ok(1) al] by simp
qed

lemma lookup_find: "map_option V (lookup_node V L k) = lru_find k (map V L)"
  by (induction L) (simp_all add: lookup_node_def lru_find_def)

lemma drop_remove1:
  assumes "distinct (map (\<lambda>n. e_key (V n)) L)" and "n \<in> set L"
  shows "map V (remove1 n L) = lru_drop (e_key (V n)) (map V L)"
  using assms
proof (induction L)
  case (Cons m L)
  show ?case
  proof (cases "n = m")
    case True
    then have "\<forall>x\<in>set L. e_key (V x) \<noteq> e_key (V n)" using Cons.prems(1) by (auto simp: image_iff)
    then have "filter (\<lambda>e. e_key e \<noteq> e_key (V n)) (map V L) = map V L" by (intro filter_True) simp
    then show ?thesis using True by (simp add: lru_drop_def)
  next
    case False
    then have "n \<in> set L" "e_key (V m) \<noteq> e_key (V n)" using Cons.prems by (auto simp: image_iff)
    then show ?thesis using False Cons by (simp add: lru_drop_def)
  qed
qed simp

lemma find_node_rep:
  assumes "cache_rep c es"
  shows "lru_find k es = None \<Longrightarrow> find_node k c = Some (None, c)"
    and "lru_find k es = Some e \<Longrightarrow> \<exists>n c'. find_node k c = Some (Some n, c') \<and> node_rep c' n e (lru_drop k es) \<and>
      hm_geom c' = hm_geom c \<and> e_key e = k"
proof -
  from assms obtain L V where ok: "hm_ok c L V" and es: "es = map V L" by (auto simp: cache_rep_def)
  note l = lookup_find [of V L k, folded es]
  show "find_node k c = Some (None, c)" if "lru_find k es = None"
    using find_node_spec(1) [OF ok, of k] that l by simp
  assume "lru_find k es = Some e"
  with l obtain n where n: "lookup_node V L k = Some n" "V n = e" by auto
  from find_node_spec(2) [OF ok n(1)] obtain c' where
    c': "find_node k c = Some (Some n, c')" "hm_ok c' (n # remove1 n L) V" by blast
  have "e_key (V n) = k" "n \<in> set L" using lookup_node_Some [OF n(1)] by simp_all
  then have "map V (remove1 n L) = lru_drop k es" using drop_remove1 [OF hm_ok_keys(2) [OF ok]] es by simp
  then show "\<exists>n c'. find_node k c = Some (Some n, c') \<and> node_rep c' n e (lru_drop k es) \<and> hm_geom c' = hm_geom c \<and> e_key e = k"
    using c' n \<open>e_key (V n) = k\<close> find_node_geom [OF c'(1)] unfolding node_rep_def by metis
qed

section \<open>Operations on the most recently used node\<close>

lemma node_rep_fields:
  assumes "node_rep c n e es"
  shows "m_key (m_hash_node c n) = e_key e" "m_chunk_len (m_hash_node c n) = int (length (e_data e))"
    "m_add_info_1 (m_hash_node c n) = e_info_1 e" "m_add_info_2 (m_hash_node c n) = e_info_2 e"
    "m_flag (m_hash_node c n) = e_flag e"
  using assms hm_ok_fields [of c "n # _" _ n] by (auto simp: node_rep_def)

lemma node_rep_flag:
  assumes "node_rep c n e es"
  shows "node_rep (set_node_flag n fl c) n (e\<lparr>e_flag := flag_code fl\<rparr>) es"
proof -
  from assms obtain L V where ok: "hm_ok c (n # L) V" "V n = e" "es = map V L" by (auto simp: node_rep_def)
  have "n \<notin> set L" using hm_ok_keys(3) [OF ok(1)] by simp
  moreover have "hm_ok (set_node_flag n fl c) (n # L) (V(n := e\<lparr>e_flag := flag_code fl\<rparr>))"
    using hm_ok_info_upd [OF ok(1), of n "\<lambda>x. x\<lparr>m_flag := flag_code fl\<rparr>"] hm_ok_fields [OF ok(1), of n] ok(2)
    by (simp add: set_node_flag_def)
  ultimately show ?thesis
    using ok(3) unfolding node_rep_def by (intro exI [of _ L] exI [of _ "V(n := e\<lparr>e_flag := flag_code fl\<rparr>)"]) auto
qed

lemma node_rep_expire:
  assumes "node_rep c n e es"
  shows "node_rep (set_expiretime n t c) n (e\<lparr>e_info_2 := t\<rparr>) es"
proof -
  from assms obtain L V where ok: "hm_ok c (n # L) V" "V n = e" "es = map V L" by (auto simp: node_rep_def)
  have "n \<notin> set L" using hm_ok_keys(3) [OF ok(1)] by simp
  moreover have "hm_ok (set_expiretime n t c) (n # L) (V(n := e\<lparr>e_info_2 := t\<rparr>))"
    using hm_ok_info_upd [OF ok(1), of n "\<lambda>x. x\<lparr>m_add_info_2 := t\<rparr>"] hm_ok_fields [OF ok(1), of n] ok(2)
    by (simp add: set_expiretime_def)
  ultimately show ?thesis
    using ok(3) unfolding node_rep_def by (intro exI [of _ L] exI [of _ "V(n := e\<lparr>e_info_2 := t\<rparr>)"]) auto
qed

lemma node_rep_merge:
  assumes "node_rep c n e es"
  shows "length (e_data e) \<le> length buf \<Longrightarrow> merge_node_data c n buf (int (length buf)) =
      Some (0, e_data e @ drop (length (e_data e)) buf, int (length (e_data e)))"
    and "k < int (length (e_data e)) \<Longrightarrow> merge_node_data c n buf k = Some (-2, buf, int (length (e_data e)))"
  using assms merge_node_data_spec [of c "n # _" _ n] by (auto simp: node_rep_def)

lemma node_rep_delete:
  assumes "node_rep c n e es"
  shows "\<exists>c'. delete_node n None None c = Some ((0, None, None), c') \<and> cache_rep c' es \<and> hm_geom c' = hm_geom c"
proof -
  from assms obtain L V where ok: "hm_ok c (n # L) V" "es = map V L" by (auto simp: node_rep_def)
  from delete_node_spec [OF ok(1), of n None None None None] fetch_old_spec(1) [OF ok(1), of n None]
  obtain c' where c': "delete_node n None None c = Some ((0, None, None), c')" "hm_ok c' L V" by auto
  then show ?thesis using ok(2) delete_node_geom [OF c'(1)] by (auto simp: cache_rep_def)
qed

definition lru_fits :: "geometry \<Rightarrow> entry list \<Rightarrow> byte list \<Rightarrow> bool" where
  "lru_fits g rest d \<longleftrightarrow> lru_used g rest + cost g d \<le> fst (snd g)"

lemma node_rep_fits:
  assumes "hm_ok c (n # L) V"
  shows "fits_for c (e_data (V n)) d \<longleftrightarrow> lru_fits (hm_geom c) (map V L) d"
  using hm_ok_free(2) [OF assms]
  by (auto simp: fits_for_def lru_fits_def lru_used_def cost_def hm_geom_def al_geom_def)

lemma node_rep_update:
  assumes "node_rep c n e es"
  shows "\<not> lru_fits (hm_geom c) es d \<Longrightarrow> update_node n (d @ x) (int (length d)) None None now c = Some ((None, None, None), c)"
    and "lru_fits (hm_geom c) es d \<Longrightarrow> \<exists>c'. update_node n (d @ x) (int (length d)) None None now c =
      Some ((Some n, None, None), c') \<and> node_rep c' n (e\<lparr>e_data := d, e_info_1 := now\<rparr>) es \<and> hm_geom c' = hm_geom c"
proof -
  from assms obtain L V where ok: "hm_ok c (n # L) V" "V n = e" "es = map V L" by (auto simp: node_rep_def)
  have n: "n \<in> set (n # L)" "n \<notin> set L" using hm_ok_keys(3) [OF ok(1)] by simp_all
  note u = update_node_spec [OF ok(1) n(1) fetch_old_spec(1) [OF ok(1) n(1), of None], of d now]
  note long = store_longer(3) [OF hm_ok_chunk_size [OF ok(1)], of n d x None None now]
  have fits: "fits_for c (e_data (V n)) d \<longleftrightarrow> lru_fits (hm_geom c) es d" using node_rep_fits [OF ok(1)] ok(3) by simp
  show "update_node n (d @ x) (int (length d)) None None now c = Some ((None, None, None), c)"
    if "\<not> lru_fits (hm_geom c) es d"
    using u(1) fits that long by simp
  assume "lru_fits (hm_geom c) es d"
  then obtain c' where c': "update_node n d (int (length d)) None None now c = Some ((Some n, None, None), c')"
    "hm_ok c' (n # L) (V(n := e\<lparr>e_data := d, e_info_1 := now\<rparr>))" using u(2) fits ok(2) by auto
  then have "node_rep c' n (e\<lparr>e_data := d, e_info_1 := now\<rparr>) es"
    using n(2) ok(3) unfolding node_rep_def by (intro exI [of _ L] exI [of _ "V(n := e\<lparr>e_data := d, e_info_1 := now\<rparr>)"]) auto
  then show "\<exists>c'. update_node n (d @ x) (int (length d)) None None now c = Some ((Some n, None, None), c') \<and>
      node_rep c' n (e\<lparr>e_data := d, e_info_1 := now\<rparr>) es \<and> hm_geom c' = hm_geom c"
    using c'(1) long update_node_geom [OF c'(1)] by auto
qed

lemma insert_node_rep:
  assumes "cache_rep c es" and "lru_find k es = None"
  shows "\<not> lru_room (hm_geom c) es d \<Longrightarrow> insert_node k (d @ x) (int (length d)) now c = Some (None, c)"
    and "lru_room (hm_geom c) es d \<Longrightarrow> \<exists>n c'. insert_node k (d @ x) (int (length d)) now c = Some (Some n, c') \<and>
      node_rep c' n (new_entry k d now 0) es \<and> hm_geom c' = hm_geom c"
proof -
  from assms(1) obtain L V where ok: "hm_ok c L V" and es: "es = map V L" by (auto simp: cache_rep_def)
  have k: "k \<notin> e_key ` V ` set L" using assms(2) lookup_find [of V L k] es by (simp flip: lookup_node_None)
  note i = insert_node_spec [OF ok k, of d now]
  note long = store_longer(1) [OF hm_ok_chunk_size [OF ok], of k d x now]
  have room: "room_for c d \<longleftrightarrow> lru_room (hm_geom c) es d"
    using hm_ok_free [OF ok] es by (auto simp: room_for_def lru_room_def cost_def hm_geom_def al_geom_def)
  show "insert_node k (d @ x) (int (length d)) now c = Some (None, c)" if "\<not> lru_room (hm_geom c) es d"
    using i(1) room that long by simp
  assume "lru_room (hm_geom c) es d"
  then obtain n c' where c': "insert_node k d (int (length d)) now c = Some (Some n, c')" "n \<notin> set L"
    "hm_ok c' (n # L) (V(n := new_entry k d now 0))" using i(2) room by auto
  then have "node_rep c' n (new_entry k d now 0) es"
    using es unfolding node_rep_def by (intro exI [of _ L] exI [of _ "V(n := new_entry k d now 0)"]) auto
  then show "\<exists>n c'. insert_node k (d @ x) (int (length d)) now c = Some (Some n, c') \<and>
      node_rep c' n (new_entry k d now 0) es \<and> hm_geom c' = hm_geom c"
    using c'(1) long insert_node_geom [OF c'(1)] by auto
qed

section \<open>Insert or update\<close>

definition lru_put :: "geometry \<Rightarrow> byte list \<Rightarrow> byte list \<Rightarrow> int \<Rightarrow> entry list \<Rightarrow> (entry \<times> entry list) option" where
  "lru_put g k d now es =
     (case lru_find k es of
        None \<Rightarrow> if lru_room g es d then Some (new_entry k d now 0, es) else None
      | Some e \<Rightarrow>
          if lru_fits g (lru_drop k es) d then Some (e\<lparr>e_data := d, e_info_1 := now\<rparr>, lru_drop k es) else None)"

definition lru_touch :: "byte list \<Rightarrow> entry list \<Rightarrow> entry list" where
  "lru_touch k es = (case lru_find k es of None \<Rightarrow> es | Some e \<Rightarrow> e # lru_drop k es)"

lemma store_node_rep:
  assumes "cache_rep c es" and "0 \<le> len" and "nat len \<le> length data"
  defines "d \<equiv> take (nat len) data"
  shows "lru_put (hm_geom c) k d now es = None \<Longrightarrow>
      \<exists>c'. store_node k data len now c = Some (None, c') \<and> cache_rep c' (lru_touch k es) \<and> hm_geom c' = hm_geom c"
    and "lru_put (hm_geom c) k d now es = Some (e', es') \<Longrightarrow>
      \<exists>n c'. store_node k data len now c = Some (Some n, c') \<and> node_rep c' n e' es' \<and> hm_geom c' = hm_geom c"
proof -
  define x where "x = drop (nat len) data"
  have data: "data = d @ x" and len: "len = int (length d)" using assms(2,3) by (simp_all add: d_def x_def)
  show "\<exists>c'. store_node k data len now c = Some (None, c') \<and> cache_rep c' (lru_touch k es) \<and> hm_geom c' = hm_geom c"
    if "lru_put (hm_geom c) k d now es = None"
  proof (cases "lru_find k es")
    case None
    then show ?thesis
      using that find_node_rep(1) [OF assms(1) None] insert_node_rep(1) [OF assms(1) None] assms(1)
      by (simp add: store_node_def lru_put_def lru_touch_def data len split: if_splits)
  next
    case (Some e)
    from find_node_rep(2) [OF assms(1) Some] obtain n c1 where
      c1: "find_node k c = Some (Some n, c1)" "node_rep c1 n e (lru_drop k es)" "hm_geom c1 = hm_geom c" by blast
    then show ?thesis
      using that Some node_rep_update(1) [OF c1(2)] node_rep_cache [OF c1(2)]
      by (simp add: store_node_def lru_put_def lru_touch_def data len split: if_splits)
  qed
  show "\<exists>n c'. store_node k data len now c = Some (Some n, c') \<and> node_rep c' n e' es' \<and> hm_geom c' = hm_geom c"
    if "lru_put (hm_geom c) k d now es = Some (e', es')"
  proof (cases "lru_find k es")
    case None
    then show ?thesis
      using that find_node_rep(1) [OF assms(1) None] insert_node_rep(2) [OF assms(1) None, of d x now]
      by (auto simp: store_node_def lru_put_def data len split: if_splits)
  next
    case (Some e)
    from find_node_rep(2) [OF assms(1) Some] obtain n c1 where
      c1: "find_node k c = Some (Some n, c1)" "node_rep c1 n e (lru_drop k es)" "hm_geom c1 = hm_geom c" by blast
    then show ?thesis
      using that Some node_rep_update(2) [OF c1(2), of d x now]
      by (auto simp: store_node_def lru_put_def data len split: if_splits)
  qed
qed

end
