(* ===== verification/BinlogRep.thy ===== *)
theory BinlogRep
  imports Binlog
begin

text \<open>
  The binary log as a list of lists of records, newest file first: what a write does to it
  (\<open>blog_add\<close>), and that reading from the start gives the records of all files, oldest first.
\<close>

type_synonym log_rec = "int \<times> byte list"

definition enc :: "log_rec \<Rightarrow> byte list" where
  "enc r = le_bytes 4 (fst r) @ le_bytes 4 (int (length (snd r))) @ snd r"

definition enc_all :: "log_rec list \<Rightarrow> byte list" where
  "enc_all rs = concat (map enc rs)"

definition rec_ok :: "log_rec \<Rightarrow> bool" where
  "rec_ok r \<longleftrightarrow> snd r \<noteq> [] \<and> int (length (snd r)) + 8 \<le> MAX_BINLOG_ITEM_LEN"

definition file_holds :: "FileSys \<Rightarrow> string \<Rightarrow> log_rec list \<Rightarrow> bool" where
  "file_holds fs name rs \<longleftrightarrow> (case dir fs name of None \<Rightarrow> rs = [] | Some k \<Rightarrow> content fs k = enc_all rs)"

definition log_rep :: "CBinLog \<Rightarrow> FileSys \<Rightarrow> log_rec list list \<Rightarrow> bool" where
  "log_rep b fs R \<longleftrightarrow>
     R \<noteq> [] \<and> m_maxlog_num b = int (length R) \<and> (\<forall>n. \<not> locked fs n) \<and>
     (\<forall>i<length R. file_holds fs (log_name (m_log_basename b) (int i)) (R ! i)) \<and>
     (\<forall>m n k. dir fs m = Some k \<longrightarrow> k < fresh fs \<and> (dir fs n = Some k \<longrightarrow> m = n)) \<and>
     (\<forall>fp. m_write_fp b = Some fp \<and> dir fs (log_name (m_log_basename b) 0) \<noteq> None \<longrightarrow>
        dir fs (log_name (m_log_basename b) 0) = Some (f_file fp)) \<and>
     (\<forall>rs\<in>set R. \<forall>r\<in>set rs. rec_ok r)"

lemma log_repI:
  assumes "R \<noteq> []" and "m_maxlog_num b = int (length R)" and "\<And>n. \<not> locked fs n"
    and "\<And>i. i < length R \<Longrightarrow> file_holds fs (log_name (m_log_basename b) (int i)) (R ! i)"
    and "\<And>m k. dir fs m = Some k \<Longrightarrow> k < fresh fs"
    and "\<And>m n k. dir fs m = Some k \<Longrightarrow> dir fs n = Some k \<Longrightarrow> m = n"
    and "\<And>fp. m_write_fp b = Some fp \<Longrightarrow> dir fs (log_name (m_log_basename b) 0) \<noteq> None \<Longrightarrow>
      dir fs (log_name (m_log_basename b) 0) = Some (f_file fp)"
    and "\<forall>rs\<in>set R. \<forall>r\<in>set rs. rec_ok r"
  shows "log_rep b fs R"
  unfolding log_rep_def using assms by blast

lemma log_repD:
  assumes "log_rep b fs R"
  shows "R \<noteq> []" and "m_maxlog_num b = int (length R)" and "\<And>n. \<not> locked fs n"
    and "\<And>i. i < length R \<Longrightarrow> file_holds fs (log_name (m_log_basename b) (int i)) (R ! i)"
    and "\<And>m k. dir fs m = Some k \<Longrightarrow> k < fresh fs"
    and "\<And>m n k. dir fs m = Some k \<Longrightarrow> dir fs n = Some k \<Longrightarrow> m = n"
    and "\<And>fp. m_write_fp b = Some fp \<Longrightarrow> dir fs (log_name (m_log_basename b) 0) \<noteq> None \<Longrightarrow>
      dir fs (log_name (m_log_basename b) 0) = Some (f_file fp)"
    and "\<forall>rs\<in>set R. \<forall>r\<in>set rs. rec_ok r"
  using assms unfolding log_rep_def by blast+

definition blog_add :: "int \<Rightarrow> log_rec \<Rightarrow> log_rec list list \<Rightarrow> log_rec list list" where
  "blog_add maxsize r R =
     (let R1 = (hd R @ [r]) # tl R
      in if int (length (enc_all (hd R1))) < maxsize then R1
         else if length R = 1 then R1 else [] # butlast R1)"

lemma enc_all_simps [simp]:
  "enc_all [] = []" "enc_all (r # rs) = enc r @ enc_all rs" "enc_all (rs @ rs') = enc_all rs @ enc_all rs'"
  by (simp_all add: enc_all_def)

lemma log_name_zero [simp]: "log_name base 0 = base @ ''.log''"
  by (simp add: log_name_def)

lemma log_name_inj [simp]: "0 \<le> i \<Longrightarrow> 0 \<le> j \<Longrightarrow> log_name base i = log_name base j \<longleftrightarrow> i = j"
  by (auto simp: log_name_def int_str_def)

lemma log_name_int [simp]: "log_name base (int i) = log_name base (int j) \<longleftrightarrow> i = j"
  by simp

section \<open>Reading\<close>

lemma fread_int_any:
  assumes "f_rest fp fs = bs @ rest" and "length bs = 4"
  shows "\<exists>v fp'. fread_int old fp fs = (v, fp') \<and> f_rest fp' fs = rest \<and> f_eof fp' = f_eof fp"
  using fread_full [OF assms(1)] assms(2) by (auto simp: fread_int_def)

lemma fread_int_at_end:
  "f_rest fp fs = [] \<Longrightarrow> fread_int 0 fp fs = (0, fp\<lparr>f_eof := True\<rparr>)"
  using le_int_le_bytes [of 4 0] by (simp add: fread_int_def fread_at_end)

lemma f_rest_eof [simp]: "f_rest (fp\<lparr>f_eof := e\<rparr>) fs = f_rest fp fs"
  by (simp add: f_rest_def)

lemma read_from_stream:
  assumes "\<not> f_eof fp" and "f_rest fp fs = enc r @ rest" and "rec_ok r"
    and "int (length (snd r)) \<le> maxsize" and "maxsize \<le> int (length buff)"
  shows "\<exists>fp1 fp2 fp3 t. fread_int 0 fp fs = (t, fp1) \<and> fread_int 0 fp1 fs = (int (length (snd r)), fp2) \<and>
    fread (length (snd r)) fp2 fs = (snd r, fp3) \<and> \<not> f_eof fp2 \<and> \<not> f_eof fp3 \<and> f_rest fp3 fs = rest"
proof -
  from fread_int_any [of fp fs "le_bytes 4 (fst r)" "le_bytes 4 (int (length (snd r))) @ snd r @ rest" 0] assms(2)
  obtain t fp1 where 1: "fread_int 0 fp fs = (t, fp1)" "f_rest fp1 fs = le_bytes 4 (int (length (snd r))) @ snd r @ rest"
    "f_eof fp1 = f_eof fp" by (auto simp: enc_def)
  have "int (length (snd r)) < 2 ^ 31" using assms(3) by (simp add: rec_ok_def MAX_BINLOG_ITEM_LEN_def)
  with fread_int_full [OF 1(2), of 0] obtain fp2 where
    2: "fread_int 0 fp1 fs = (int (length (snd r)), fp2)" "f_rest fp2 fs = snd r @ rest" "f_eof fp2 = f_eof fp1" by auto
  from fread_full [OF 2(2)] obtain fp3 where
    "fread (length (snd r)) fp2 fs = (snd r, fp3)" "f_rest fp3 fs = rest" "f_eof fp3 = f_eof fp2" by blast
  with 1 2 assms(1) show ?thesis by auto
qed

text \<open>The reader has the records \<open>rem\<close> still to give.\<close>

definition rd_state :: "CBinLog \<Rightarrow> FileSys \<Rightarrow> log_rec list list \<Rightarrow> log_rec list \<Rightarrow> bool" where
  "rd_state b fs R rem \<longleftrightarrow>
     0 \<le> m_readidx b \<and> m_readidx b \<le> int (length R) \<and>
     (\<exists>rs. rem = rs @ concat (rev (take (nat (m_readidx b)) R)) \<and> (\<forall>r\<in>set rs. rec_ok r) \<and>
        (case m_read_fp b of None \<Rightarrow> rs = []
         | Some fp \<Rightarrow> if f_eof fp then rs = [] else f_rest fp fs = enc_all rs))"

definition files_ok :: "string \<Rightarrow> FileSys \<Rightarrow> log_rec list list \<Rightarrow> bool" where
  "files_ok base fs R \<longleftrightarrow> (\<forall>n. \<not> locked fs n) \<and> (\<forall>i<length R. file_holds fs (log_name base (int i)) (R ! i)) \<and>
     (\<forall>rs\<in>set R. \<forall>r\<in>set rs. rec_ok r)"

lemma next_log_spec:
  fixes base fs
  assumes "0 \<le> idx"
  defines "i \<equiv> next_log base fs idx"
  shows "-1 \<le> i" and "i < idx" and "0 \<le> i \<Longrightarrow> fs_exists fs (log_name base i)"
    and "\<And>j. i < j \<Longrightarrow> j < idx \<Longrightarrow> \<not> fs_exists fs (log_name base j)"
proof -
  have "-1 \<le> next_log base fs idx \<and> next_log base fs idx < idx \<and>
    (0 \<le> next_log base fs idx \<longrightarrow> fs_exists fs (log_name base (next_log base fs idx))) \<and>
    (\<forall>j. next_log base fs idx < j \<and> j < idx \<longrightarrow> \<not> fs_exists fs (log_name base j))"
    using assms(1)
  proof (induction base fs idx rule: next_log.induct)
    case (1 base fs idx)
    show ?case
    proof (cases "idx - 1 \<ge> 0 \<and> \<not> fs_exists fs (log_name base (idx - 1))")
      case True
      define r where "r = next_log base fs (idx - 1)"
      have r: "next_log base fs idx = r" using True by (subst next_log.simps) (simp add: r_def)
      have ih: "-1 \<le> r" "r < idx - 1" "0 \<le> r \<longrightarrow> fs_exists fs (log_name base r)"
        "\<And>j. r < j \<Longrightarrow> j < idx - 1 \<Longrightarrow> \<not> fs_exists fs (log_name base j)"
        using 1(1) [OF True] True by (simp_all add: r_def)
      have "\<not> fs_exists fs (log_name base j)" if "r < j" "j < idx" for j
      proof -
        have "j < idx - 1 \<or> j = idx - 1" using that(2) by linarith
        then show ?thesis using ih(4) that(1) True by blast
      qed
      then show ?thesis using ih(1-3) unfolding r by auto
    next
      case False
      then have "next_log base fs idx = idx - 1" by (subst next_log.simps) auto
      then show ?thesis using 1(2) False by auto
    qed
  qed
  then show "-1 \<le> i" "i < idx" "0 \<le> i \<Longrightarrow> fs_exists fs (log_name base i)"
    "\<And>j. i < j \<Longrightarrow> j < idx \<Longrightarrow> \<not> fs_exists fs (log_name base j)" by (auto simp: i_def)
qed

lemma missing_files:
  assumes "files_ok base fs R" and "k \<le> length R" and "m \<le> k"
    and "\<And>j. m \<le> j \<Longrightarrow> j < k \<Longrightarrow> \<not> fs_exists fs (log_name base (int j))"
  shows "concat (rev (take k R)) = concat (rev (take m R))"
  using assms(2-4)
proof (induction k)
  case (Suc k)
  show ?case
  proof (cases "m = Suc k")
    case False
    with Suc.prems have k: "m \<le> k" "k < length R" "dir fs (log_name base (int k)) = None"
      by (auto simp: fs_exists_def)
    then have "R ! k = []" using assms(1) by (auto simp: files_ok_def file_holds_def dest!: spec [of _ k])
    moreover have "concat (rev (take k R)) = concat (rev (take m R))" using Suc k by simp
    ultimately show ?thesis using k by (simp add: take_Suc_conv_app_nth)
  qed simp
qed simp

text \<open>Opening the next file, or none left.\<close>

lemma next_file:
  assumes "files_ok base fs R" and "0 \<le> idx" and "idx \<le> int (length R)"
  defines "i \<equiv> next_log base fs idx"
  shows "i < 0 \<Longrightarrow> concat (rev (take (nat idx) R)) = []"
    and "0 \<le> i \<Longrightarrow> concat (rev (take (nat idx) R)) = R ! nat i @ concat (rev (take (nat i) R)) \<and>
      (\<exists>fp. fopen_r (log_name base i) fs = Some fp \<and> \<not> f_eof fp \<and> f_rest fp fs = enc_all (R ! nat i))"
proof -
  note n = next_log_spec [OF assms(2), of base fs, folded i_def]
  show "concat (rev (take (nat idx) R)) = []" if "i < 0"
    using missing_files [OF assms(1), of "nat idx" 0] n(4) that n(1) assms(2,3) by (auto simp: nat_le_iff zless_nat_eq_int_zless)
  assume i: "0 \<le> i"
  have m: "concat (rev (take (nat idx) R)) = concat (rev (take (Suc (nat i)) R))"
    by (rule missing_files [OF assms(1)]) (use n(2,4) i assms(2,3) in \<open>auto simp: nat_le_iff zless_nat_eq_int_zless\<close>)
  have lt: "nat i < length R" using n(2) assms(3) i by linarith
  obtain k where k: "dir fs (log_name base i) = Some k" using n(3) [OF i] by (auto simp: fs_exists_def)
  have "content fs k = enc_all (R ! nat i)"
    using assms(1) lt k i by (auto simp: files_ok_def file_holds_def dest!: spec [of _ "nat i"])
  then have "\<exists>fp. fopen_r (log_name base i) fs = Some fp \<and> \<not> f_eof fp \<and> f_rest fp fs = enc_all (R ! nat i)"
    using assms(1) k by (simp add: fopen_r_def files_ok_def f_rest_def)
  moreover have "concat (rev (take (nat idx) R)) = R ! nat i @ concat (rev (take (nat i) R))"
    using m lt by (simp add: take_Suc_conv_app_nth)
  ultimately show "concat (rev (take (nat idx) R)) = R ! nat i @ concat (rev (take (nat i) R)) \<and>
      (\<exists>fp. fopen_r (log_name base i) fs = Some fp \<and> \<not> f_eof fp \<and> f_rest fp fs = enc_all (R ! nat i))" by blast
qed

definition at_end :: "CBinLog \<Rightarrow> bool" where
  "at_end b \<longleftrightarrow> (case m_read_fp b of None \<Rightarrow> True | Some fp \<Rightarrow> f_eof fp)"

lemma read_step_none:
  assumes "at_end b" and "next_log (m_log_basename b) fs (m_readidx b) < 0"
  shows "ReadRecordFromBinLog buff maxsize fs b =
    Some (-1, buff, b\<lparr>m_read_fp := None, m_readidx := next_log (m_log_basename b) fs (m_readidx b)\<rparr>)"
  using assms by (subst ReadRecordFromBinLog.simps) (simp add: at_end_def Let_def)

lemma read_step_open:
  assumes "at_end b" and "i = next_log (m_log_basename b) fs (m_readidx b)" and "0 \<le> i"
    and "fopen_r (log_name (m_log_basename b) i) fs = Some fp" and "\<not> f_eof fp"
  shows "ReadRecordFromBinLog buff maxsize fs b =
    ReadRecordFromBinLog buff maxsize fs (b\<lparr>m_read_fp := Some fp, m_readidx := i\<rparr>)"
  using assms by (subst (1 2) ReadRecordFromBinLog.simps) (simp add: at_end_def Let_def split: prod.splits)

lemma read_step_end:
  assumes "m_read_fp b = Some fp" and "\<not> f_eof fp" and "f_rest fp fs = []" and "0 \<le> maxsize"
  shows "ReadRecordFromBinLog buff maxsize fs b =
    ReadRecordFromBinLog buff maxsize fs (b\<lparr>m_read_fp := Some (fp\<lparr>f_eof := True\<rparr>)\<rparr>)"
  using assms by (subst ReadRecordFromBinLog.simps) (simp add: Let_def fread_int_at_end)

lemma read_step_record:
  assumes "m_read_fp b = Some fp" and "\<not> f_eof fp" and "f_rest fp fs = enc r @ rest" and "rec_ok r"
    and "int (length (snd r)) \<le> maxsize" and "maxsize \<le> int (length buff)"
  shows "\<exists>fp'. ReadRecordFromBinLog buff maxsize fs b =
      Some (1, snd r @ drop (length (snd r)) buff, b\<lparr>m_read_fp := Some fp'\<rparr>) \<and> \<not> f_eof fp' \<and> f_rest fp' fs = rest"
proof -
  from read_from_stream [OF assms(2-6)] obtain fp1 fp2 fp3 t where
    r: "fread_int 0 fp fs = (t, fp1)" "fread_int 0 fp1 fs = (int (length (snd r)), fp2)"
      "fread (length (snd r)) fp2 fs = (snd r, fp3)" "\<not> f_eof fp2" "\<not> f_eof fp3" "f_rest fp3 fs = rest" by blast
  have "snd r \<noteq> []" "length (snd r) \<le> length buff" using assms(4-6) by (auto simp: rec_ok_def)
  then have "ReadRecordFromBinLog buff maxsize fs b =
      Some (1, snd r @ drop (length (snd r)) buff, b\<lparr>m_read_fp := Some fp3\<rparr>)"
    using assms(1,2,5) r by (subst ReadRecordFromBinLog.simps) (simp add: Let_def)
  with r show ?thesis by blast
qed

text \<open>One call of the reader gives the next of the records \<open>rem\<close>, or \<open>-1\<close> when there is none.\<close>

definition reads_next ::
    "byte list \<Rightarrow> int \<Rightarrow> FileSys \<Rightarrow> log_rec list list \<Rightarrow> log_rec list \<Rightarrow> CBinLog \<Rightarrow> bool" where
  "reads_next buff maxsize fs R rem b \<longleftrightarrow>
     (case rem of
        [] \<Rightarrow> \<exists>fp i. ReadRecordFromBinLog buff maxsize fs b = Some (-1, buff, b\<lparr>m_read_fp := fp, m_readidx := i\<rparr>)
      | r # rem' \<Rightarrow> \<exists>fp i. ReadRecordFromBinLog buff maxsize fs b =
          Some (1, snd r @ drop (length (snd r)) buff, b\<lparr>m_read_fp := fp, m_readidx := i\<rparr>) \<and>
          rd_state (b\<lparr>m_read_fp := fp, m_readidx := i\<rparr>) fs R rem')"

lemma reads_next_same:
  assumes "reads_next buff maxsize fs R rem b'"
    and "ReadRecordFromBinLog buff maxsize fs b = ReadRecordFromBinLog buff maxsize fs b'"
    and "\<And>x j. b'\<lparr>m_read_fp := x, m_readidx := j\<rparr> = b\<lparr>m_read_fp := x, m_readidx := j\<rparr>"
  shows "reads_next buff maxsize fs R rem b"
  using assms(1) unfolding reads_next_def assms(2,3) .

definition below :: "log_rec list list \<Rightarrow> int \<Rightarrow> log_rec list" where
  "below R idx = concat (rev (take (nat idx) R))"

lemma reads_next_stream:
  assumes "m_read_fp b = Some fp" and "\<not> f_eof fp" and "f_rest fp fs = enc_all (r # rs)"
    and "\<forall>r\<in>set (r # rs). rec_ok r" and "0 \<le> m_readidx b" and "m_readidx b \<le> int (length R)"
    and "int (length (snd r)) \<le> maxsize" and "maxsize \<le> int (length buff)"
  shows "reads_next buff maxsize fs R ((r # rs) @ below R (m_readidx b)) b"
proof -
  have "f_rest fp fs = enc r @ enc_all rs" "rec_ok r" using assms(3,4) by simp_all
  from read_step_record [OF assms(1,2) this assms(7,8)] obtain fp' where
    r: "ReadRecordFromBinLog buff maxsize fs b = Some (1, snd r @ drop (length (snd r)) buff, b\<lparr>m_read_fp := Some fp'\<rparr>)"
      "\<not> f_eof fp'" "f_rest fp' fs = enc_all rs" by blast
  have "b\<lparr>m_read_fp := Some fp'\<rparr> = b\<lparr>m_read_fp := Some fp', m_readidx := m_readidx b\<rparr>" by simp
  moreover have "rd_state (b\<lparr>m_read_fp := Some fp', m_readidx := m_readidx b\<rparr>) fs R (rs @ below R (m_readidx b))"
    using r assms(4-6) by (auto simp: rd_state_def below_def)
  ultimately show ?thesis
    using r(1) unfolding reads_next_def by (simp, intro exI [of _ "Some fp'"] exI [of _ "m_readidx b"]) simp
qed

lemma reads_next_skip:
  assumes "m_read_fp b = Some fp" and "\<not> f_eof fp" and "f_rest fp fs = []" and "0 \<le> maxsize"
    and "reads_next buff maxsize fs R rem (b\<lparr>m_read_fp := Some (fp\<lparr>f_eof := True\<rparr>)\<rparr>)"
  shows "reads_next buff maxsize fs R rem b"
  by (rule reads_next_same [OF assms(5) read_step_end [OF assms(1-4)]]) simp

lemma reads_next_ended:
  assumes "files_ok (m_log_basename b) fs R" and "at_end b" and "0 \<le> m_readidx b" and "m_readidx b \<le> int (length R)"
    and "\<forall>r\<in>set (below R (m_readidx b)). int (length (snd r)) \<le> maxsize" and "0 \<le> maxsize" and "maxsize \<le> int (length buff)"
  shows "reads_next buff maxsize fs R (below R (m_readidx b)) b"
  using assms(1-5)
proof (induction "nat (m_readidx b)" arbitrary: b rule: less_induct)
  case less
  define i where "i = next_log (m_log_basename b) fs (m_readidx b)"
  note nf = next_file [OF less.prems(1,3,4), folded i_def, folded below_def]
  show ?case
  proof (cases "i < 0")
    case True
    then show ?thesis
      using nf(1) read_step_none [OF less.prems(2), of fs buff maxsize] by (auto simp: i_def reads_next_def)
  next
    case False
    then obtain fp where fp: "below R (m_readidx b) = R ! nat i @ below R i"
      "fopen_r (log_name (m_log_basename b) i) fs = Some fp" "\<not> f_eof fp" "f_rest fp fs = enc_all (R ! nat i)"
      using nf(2) by auto
    have i: "0 \<le> i" "i < m_readidx b" "i \<le> int (length R)" "nat i < length R"
      using False next_log_spec(2) [OF less.prems(3), of "m_log_basename b" fs] less.prems(4) by (auto simp: i_def)
    define b1 where "b1 = b\<lparr>m_read_fp := Some fp, m_readidx := i\<rparr>"
    have "reads_next buff maxsize fs R (below R (m_readidx b)) b1"
    proof (cases "R ! nat i")
      case Nil
      show ?thesis
        by (rule reads_next_skip [where fp = fp])
          (use less.hyps [of "b1\<lparr>m_read_fp := Some (fp\<lparr>f_eof := True\<rparr>)\<rparr>"] i less.prems fp Nil assms(6)
            in \<open>simp_all add: b1_def at_end_def\<close>)
    next
      case (Cons r rs)
      have "\<forall>r\<in>set (R ! nat i). rec_ok r" using less.prems(1) i(4) by (auto simp: files_ok_def)
      then show ?thesis
        using reads_next_stream [of b1 fp fs r rs R maxsize buff] fp i Cons less.prems(5) assms(7) by (simp add: b1_def)
    qed
    then show ?thesis
      by (rule reads_next_same)
        (use read_step_open [OF less.prems(2) i_def i(1) fp(2,3)] in \<open>simp_all add: b1_def\<close>)
  qed
qed

lemma read_record:
  assumes "files_ok (m_log_basename b) fs R" and "rd_state b fs R rem"
    and "\<forall>r\<in>set rem. int (length (snd r)) \<le> maxsize" and "0 \<le> maxsize" and "maxsize \<le> int (length buff)"
  shows "reads_next buff maxsize fs R rem b"
proof -
  from assms(2) obtain rs where
    rs: "rem = rs @ below R (m_readidx b)" "\<forall>r\<in>set rs. rec_ok r" "0 \<le> m_readidx b" "m_readidx b \<le> int (length R)"
      "case m_read_fp b of None \<Rightarrow> rs = [] | Some fp \<Rightarrow> if f_eof fp then rs = [] else f_rest fp fs = enc_all rs"
    by (auto simp: rd_state_def below_def)
  show ?thesis
  proof (cases "at_end b")
    case True
    then have "rs = []" using rs(5) by (auto simp: at_end_def split: option.splits)
    then show ?thesis using reads_next_ended [OF assms(1) True rs(3,4) _ assms(4,5)] rs(1) assms(3) by simp
  next
    case False
    then obtain fp where fp: "m_read_fp b = Some fp" "\<not> f_eof fp" "f_rest fp fs = enc_all rs"
      using rs(5) by (auto simp: at_end_def split: option.splits)
    show ?thesis
    proof (cases rs)
      case Nil
      show ?thesis
        by (rule reads_next_skip [OF fp(1,2) _ assms(4)])
          (use reads_next_ended [of "b\<lparr>m_read_fp := Some (fp\<lparr>f_eof := True\<rparr>)\<rparr>"] assms rs Nil fp
            in \<open>simp_all add: at_end_def\<close>)
    next
      case (Cons r rs')
      then show ?thesis using reads_next_stream [of b fp fs r rs' R maxsize buff] fp rs assms(3,5) by simp
    qed
  qed
qed

section \<open>Writing\<close>

text \<open>The directory after the files below \<open>k\<close> moved up by one.\<close>

primrec shifted :: "string \<Rightarrow> nat \<Rightarrow> (string \<Rightarrow> nat option) \<Rightarrow> string \<Rightarrow> nat option" where
  "shifted base 0 d = d"
| "shifted base (Suc k) d = shifted base k
     (d(log_name base (int (Suc k)) := d (log_name base (int k)), log_name base (int k) := None))"

lemma shifted_above: "k < j \<Longrightarrow> shifted base k d (log_name base (int j)) = d (log_name base (int j))"
  by (induction k arbitrary: d) (simp_all del: of_nat_Suc)

lemma shifted_zero: "0 < k \<Longrightarrow> shifted base k d (log_name base 0) = None"
proof (induction k arbitrary: d)
  case (Suc k)
  show ?case
  proof (cases "k = 0")
    case False
    then show ?thesis unfolding shifted.simps by (intro Suc.IH) simp
  qed simp
qed simp

lemma shifted_up: "j < k \<Longrightarrow> shifted base k d (log_name base (int (Suc j))) = d (log_name base (int j))"
proof (induction k arbitrary: d)
  case (Suc k)
  show ?case
  proof (cases "j = k")
    case True
    then show ?thesis by (simp add: shifted_above del: of_nat_Suc)
  next
    case False
    with Suc show ?thesis by (simp del: of_nat_Suc)
  qed
qed simp

lemma shifted_range: "shifted base k d n = Some v \<Longrightarrow> \<exists>m. d m = Some v"
proof (induction k arbitrary: d)
  case (Suc k)
  from Suc.IH [OF Suc.prems [unfolded shifted.simps]] show ?case by (auto split: if_splits)
qed auto

lemma move_inj:
  assumes "\<And>m n v. d m = Some v \<Longrightarrow> d n = Some v \<Longrightarrow> m = n"
    and "(d(a := d b, b := None)) m = Some v" and "(d(a := d b, b := None)) n = Some v"
  shows "m = n"
proof -
  have "m = a \<and> d b = Some v \<or> m \<noteq> b \<and> d m = Some v" "n = a \<and> d b = Some v \<or> n \<noteq> b \<and> d n = Some v"
    using assms(2,3) by (simp_all split: if_splits)
  then show ?thesis using assms(1) by blast
qed

lemma shifted_inj:
  "(\<And>m n v. d m = Some v \<Longrightarrow> d n = Some v \<Longrightarrow> m = n) \<Longrightarrow>
   shifted base k d m = Some v \<Longrightarrow> shifted base k d n = Some v \<Longrightarrow> m = n"
proof (induction k arbitrary: d)
  case (Suc k)
  show ?case
  proof (rule Suc.IH)
    show "m = n" if "(d(log_name base (int (Suc k)) := d (log_name base (int k)), log_name base (int k) := None)) m = Some v"
      "(d(log_name base (int (Suc k)) := d (log_name base (int k)), log_name base (int k) := None)) n = Some v" for m n v
      using Suc.prems(1) that by (rule move_inj)
  qed (use Suc.prems(2,3) in \<open>simp_all only: shifted.simps\<close>)
qed simp

lemma down_to_zero_Suc: "down_to_zero (int k) = int k # down_to_zero (int k - 1)"
  by (simp add: down_to_zero_def nat_add_distrib)

lemma down_to_zero_neg [simp]: "down_to_zero (-1) = []"
  by (simp add: down_to_zero_def)

lemma shift_loop_run:
  assumes "\<And>n. \<not> locked fs n" and "dir fs (log_name base (int k)) = None"
  shows "shift_loop base (down_to_zero (int k - 1)) fs = (0, fs\<lparr>dir := shifted base k (dir fs)\<rparr>)"
  using assms
proof (induction k arbitrary: fs)
  case (Suc k)
  define d where "d = (dir fs)(log_name base (int (Suc k)) := dir fs (log_name base (int k)), log_name base (int k) := None)"
  have name: "base @ int_str (int k + 1) @ ''.log'' = log_name base (int (Suc k))" by (simp add: log_name_def add.commute)
  have ne: "log_name base (int k) \<noteq> log_name base (int (Suc k))" by (simp del: of_nat_Suc)
  have list: "down_to_zero (int (Suc k) - 1) = int k # down_to_zero (int k - 1)"
    using down_to_zero_Suc [of k] by simp
  have "dir (fs\<lparr>dir := d\<rparr>) (log_name base (int k)) = None" by (simp add: d_def)
  then have ih: "shift_loop base (down_to_zero (int k - 1)) (fs\<lparr>dir := d\<rparr>) = (0, fs\<lparr>dir := shifted base k d\<rparr>)"
    using Suc.IH [of "fs\<lparr>dir := d\<rparr>"] Suc.prems(1) by simp
  have sh: "shifted base (Suc k) (dir fs) = shifted base k d" by (simp only: shifted.simps d_def)
  show ?case
  proof (cases "dir fs (log_name base (int k))")
    case None
    with Suc.prems(2) have "d = dir fs" by (auto simp: d_def fun_eq_iff)
    then show ?thesis using ih None unfolding list sh by (simp add: fs_exists_def)
  next
    case (Some v)
    then have "fs_rename (log_name base (int k)) (log_name base (int (Suc k))) fs = Some (fs\<lparr>dir := d\<rparr>)"
      using Suc.prems(1) ne by (simp only: fs_rename_def d_def) simp
    then show ?thesis using ih Some unfolding list sh by (simp add: fs_exists_def name)
  qed
qed simp

lemma file_holds_cong:
  "dir fs' name' = dir fs name \<Longrightarrow> (\<And>k. dir fs name = Some k \<Longrightarrow> content fs' k = content fs k) \<Longrightarrow>
   file_holds fs' name' rs = file_holds fs name rs"
  by (auto simp: file_holds_def split: option.splits)

text \<open>Before the record goes out, the stream belongs to the current file.\<close>

lemma write_opens:
  assumes "log_rep b fs R" and "0 < len" and "len + 8 \<le> MAX_BINLOG_ITEM_LEN" and "nat len \<le> length bytes"
  shows "\<exists>fp fs1. WriteToBinLog (Some bytes) len now b fs =
      Some (ShiftFiles (b\<lparr>m_write_fp := Some fp\<rparr>) (fwrite (enc (now, take (nat len) bytes)) fp fs1)) \<and>
    log_rep (b\<lparr>m_write_fp := Some fp\<rparr>) fs1 R \<and> dir fs1 (log_name (m_log_basename b) 0) = Some (f_file fp)"
proof -
  define name where "name = m_log_basename b @ ''.log''"
  have rep: "R \<noteq> []" "m_maxlog_num b = int (length R)" "\<And>n. \<not> locked fs n"
    "\<And>i. i < length R \<Longrightarrow> file_holds fs (log_name (m_log_basename b) (int i)) (R ! i)"
    "\<And>m n k. dir fs m = Some k \<Longrightarrow> k < fresh fs \<and> (dir fs n = Some k \<longrightarrow> m = n)"
    "\<And>fp. m_write_fp b = Some fp \<Longrightarrow> dir fs name \<noteq> None \<Longrightarrow> dir fs name = Some (f_file fp)"
    "\<forall>rs\<in>set R. \<forall>r\<in>set rs. rec_ok r"
    using assms(1) by (auto simp: log_rep_def name_def)
  have enc: "enc (now, take (nat len) bytes) = le_bytes 4 now @ le_bytes 4 len @ take (nat len) bytes"
    using assms(2,4) by (simp add: enc_def min_absorb2)
  have size: "\<not> (len \<le> 0 \<or> len > MAX_BINLOG_ITEM_LEN)" "\<not> (len + 8 > MAX_BINLOG_ITEM_LEN \<or> nat len > length bytes)"
    using assms(2-4) by auto
  consider k where "dir fs name = Some k" | "dir fs name = None" by (cases "dir fs name") auto
  then show ?thesis
  proof cases
    case 1
    define fp where "fp = (case m_write_fp b of Some fp \<Rightarrow> fp | None \<Rightarrow> \<lparr>f_file = k, f_pos = 0, f_eof = False\<rparr>)"
    have fp: "f_file fp = k" using rep(6) 1 by (auto simp: fp_def split: option.splits)
    have "WriteToBinLog (Some bytes) len now b fs =
        Some (ShiftFiles (b\<lparr>m_write_fp := Some fp\<rparr>) (fwrite (enc (now, take (nat len) bytes)) fp fs))"
      using size 1 rep(3) unfolding enc
      by (cases "m_write_fp b") (simp_all add: WriteToBinLog_def Let_def name_def fs_exists_def fopen_a_def fp_def)
    moreover have "log_rep (b\<lparr>m_write_fp := Some fp\<rparr>) fs R"
      using rep 1 fp by (auto simp: log_rep_def name_def)
    ultimately show ?thesis using 1 fp by (auto simp: name_def)
  next
    case 2
    define fp where "fp = \<lparr>f_file = fresh fs, f_pos = 0, f_eof = False\<rparr>"
    have run: "WriteToBinLog (Some bytes) len now b fs = Some (ShiftFiles (b\<lparr>m_write_fp := Some fp\<rparr>)
        (fwrite (enc (now, take (nat len) bytes)) fp (fs_create name fs)))"
      using size 2 rep(3) unfolding enc
      by (cases "m_write_fp b") (simp_all add: WriteToBinLog_def Let_def name_def fs_exists_def fopen_a_def fp_def)
    have A: "file_holds (fs_create name fs) (log_name (m_log_basename b) (int i)) (R ! i)" if "i < length R" for i
    proof (cases "i = 0")
      case True
      then show ?thesis using rep(4) [OF that] 2 by (simp add: file_holds_def name_def)
    next
      case False
      then have "log_name (m_log_basename b) (int i) \<noteq> name"
        using log_name_int [of "m_log_basename b" i 0] by (simp add: name_def)
      moreover have "k < fresh fs" if "dir fs (log_name (m_log_basename b) (int i)) = Some k" for k using rep(5) that by blast
      ultimately show ?thesis
        using rep(4) [OF that] by (subst file_holds_cong [of _ _ fs "log_name (m_log_basename b) (int i)"]) fastforce+
    qed
    have B: "k < fresh (fs_create name fs) \<and> (dir (fs_create name fs) n = Some k \<longrightarrow> m = n)"
      if "dir (fs_create name fs) m = Some k" for m n k
    proof -
      have "m = name \<and> k = fresh fs \<or> m \<noteq> name \<and> dir fs m = Some k" using that by (simp split: if_splits)
      moreover have "n = name \<and> k = fresh fs \<or> n \<noteq> name \<and> dir fs n = Some k" if "dir (fs_create name fs) n = Some k"
        using that by (simp split: if_splits)
      ultimately show ?thesis using rep(5) by (metis fs_fields(7) less_irrefl less_SucI lessI)
    qed
    have "log_rep (b\<lparr>m_write_fp := Some fp\<rparr>) (fs_create name fs) R"
    proof (rule log_repI)
      show "k < fresh (fs_create name fs)" "dir (fs_create name fs) n = Some k \<Longrightarrow> m = n"
        if "dir (fs_create name fs) m = Some k" for m n k using B that by blast+
    qed (use rep(1-3,7) A in \<open>simp_all add: name_def fp_def\<close>)
    then show ?thesis using run by (intro exI [of _ fp] exI [of _ "fs_create name fs"]) (simp add: name_def fp_def)
  qed
qed

lemma write_appends:
  assumes "log_rep b fs R" and "m_write_fp b = Some fp" and "dir fs (log_name (m_log_basename b) 0) = Some (f_file fp)"
    and "rec_ok r"
  shows "log_rep b (fwrite (enc r) fp fs) ((hd R @ [r]) # tl R)"
proof (rule log_repI)
  note rep = log_repD [OF assms(1)]
  show "m_maxlog_num b = int (length ((hd R @ [r]) # tl R))" using rep(1,2) by simp
  show "\<forall>rs\<in>set ((hd R @ [r]) # tl R). \<forall>x\<in>set rs. rec_ok x"
    using rep(1,8) assms(4) by (cases R) auto
  show "file_holds (fwrite (enc r) fp fs) (log_name (m_log_basename b) (int i)) (((hd R @ [r]) # tl R) ! i)"
    if "i < length ((hd R @ [r]) # tl R)" for i
  proof (cases i)
    case 0
    have "file_holds fs (log_name (m_log_basename b) (int 0)) (R ! 0)" using rep(1) rep(4) [of 0] by simp
    then show ?thesis using 0 assms(3) rep(1) by (simp add: file_holds_def hd_conv_nth)
  next
    case (Suc j)
    have i: "i < length R" using that rep(1) by simp
    have "k \<noteq> f_file fp" if "dir fs (log_name (m_log_basename b) (int i)) = Some k" for k
    proof
      assume "k = f_file fp"
      then have "log_name (m_log_basename b) (int i) = log_name (m_log_basename b) 0"
        using rep(6) assms(3) that by blast
      then show False using Suc log_name_int [of "m_log_basename b" i 0] by simp
    qed
    then have "file_holds (fwrite (enc r) fp fs) (log_name (m_log_basename b) (int i)) (R ! i)"
      using rep(4) [OF i] by (subst file_holds_cong [of _ _ fs]) auto
    then show ?thesis using Suc rep(1) by (cases R) simp_all
  qed
qed (use log_repD [OF assms(1)] assms(2) in \<open>simp_all\<close>)

lemma log_rep_shift:
  assumes "log_rep b fs R" and "length R = Suc k" and "0 < k" and "m_write_fp b = None"
  defines "d \<equiv> (dir fs)(log_name (m_log_basename b) (int k) := None)"
  shows "log_rep b (fs\<lparr>dir := shifted (m_log_basename b) k d\<rparr>) ([] # butlast R)"
proof (rule log_repI)
  note rep = log_repD [OF assms(1)]
  define base where "base = m_log_basename b"
  have dsub: "dir fs m = Some v" if "d m = Some v" for m v using that by (simp add: d_def split: if_splits)
  have range: "\<exists>n. dir fs n = Some v" if "shifted base k d m = Some v" for m v
    using shifted_range [OF that] dsub by blast
  show "m_maxlog_num b = int (length ([] # butlast R))" using rep(2) assms(2) by simp
  show "v < fresh (fs\<lparr>dir := shifted (m_log_basename b) k d\<rparr>)"
    if "dir (fs\<lparr>dir := shifted (m_log_basename b) k d\<rparr>) m = Some v" for m v
    using range [of m v] rep(5) that by (auto simp: base_def)
  have "m = n" if "shifted base k d m = Some v" "shifted base k d n = Some v" for m n v
    by (rule shifted_inj [OF _ that]) (use dsub rep(6) in blast)
  then show "m = n" if "dir (fs\<lparr>dir := shifted (m_log_basename b) k d\<rparr>) m = Some v"
      "dir (fs\<lparr>dir := shifted (m_log_basename b) k d\<rparr>) n = Some v" for m n v
    using that by (simp add: base_def)
  show "file_holds (fs\<lparr>dir := shifted (m_log_basename b) k d\<rparr>) (log_name (m_log_basename b) (int i)) (([] # butlast R) ! i)"
    if "i < length ([] # butlast R)" for i
  proof (cases i)
    case 0
    then show ?thesis using shifted_zero [OF assms(3), of base d] by (simp add: file_holds_def base_def)
  next
    case (Suc j)
    then have j: "j < k" using that assms(2) by simp
    have "shifted base k d (log_name base (int (Suc j))) = dir fs (log_name base (int j))"
      using shifted_up [OF j] j by (simp add: d_def base_def del: of_nat_Suc)
    moreover have "file_holds fs (log_name base (int j)) (R ! j)" using rep(4) j assms(2) by (simp add: base_def)
    moreover have "([] # butlast R) ! i = R ! j" using Suc j assms(2) by (simp add: nth_butlast)
    ultimately show ?thesis using Suc by (simp add: file_holds_def base_def del: of_nat_Suc split: option.splits)
  qed
  show "\<forall>rs\<in>set ([] # butlast R). \<forall>r\<in>set rs. rec_ok r" using rep(8) by (auto dest: in_set_butlastD)
qed (use log_repD(3) [OF assms(1)] assms(4) in simp_all)

lemma ShiftFiles_refines:
  assumes "log_rep b fs R" and "dir fs (log_name (m_log_basename b) 0) \<noteq> None"
  shows "\<exists>fp fs'. ShiftFiles b fs = (0, b\<lparr>m_write_fp := fp\<rparr>, fs') \<and>
    log_rep (b\<lparr>m_write_fp := fp\<rparr>) fs'
      (if int (length (enc_all (hd R))) < m_maxlog_size b then R else if length R = 1 then R else [] # butlast R)"
proof -
  note rep = log_repD [OF assms(1)]
  define base where "base = m_log_basename b"
  obtain k where k: "dir fs (base @ ''.log'') = Some k" using assms(2) by (auto simp: base_def)
  have "file_holds fs (log_name base (int 0)) (R ! 0)" using rep(1) rep(4) [of 0] by (simp add: base_def)
  then have size: "fs_size fs (base @ ''.log'') = Some (int (length (enc_all (hd R))))"
    using k rep(1) by (simp add: file_holds_def fs_size_def hd_conv_nth)
  show ?thesis
  proof (cases "int (length (enc_all (hd R))) < m_maxlog_size b")
    case True
    then have "ShiftFiles b fs = (0, b\<lparr>m_write_fp := m_write_fp b\<rparr>, fs)"
      using size by (simp add: ShiftFiles_def base_def)
    then show ?thesis using True assms(1) by (intro exI [of _ "m_write_fp b"] exI [of _ fs]) simp
  next
    case False
    define b1 where "b1 = b\<lparr>m_write_fp := None\<rparr>"
    define last where "last = base @ int_str (m_maxlog_num b - 1) @ ''.log''"
    define fs1 where "fs1 = fs\<lparr>dir := (dir fs)(last := None)\<rparr>"
    have rm: "(if fs_exists fs last then fs_remove last fs else Some fs) = Some fs1"
      using rep(3) by (auto simp: fs_exists_def fs_remove_def fs1_def fun_upd_idem)
    have run: "ShiftFiles b fs = (let (ret, fs2) = shift_loop base (down_to_zero (m_maxlog_num b - 2)) fs1 in (ret, b1, fs2))"
      unfolding ShiftFiles_def Let_def base_def [symmetric] size
      unfolding last_def [symmetric] rm b1_def using False by simp
    have b1: "log_rep b1 fs R" by (rule log_repI) (use rep in \<open>auto simp: b1_def\<close>)
    show ?thesis
    proof (cases "length R = 1")
      case True
      then have m: "m_maxlog_num b - 2 = -1" "last = base @ ''0.log''"
        using rep(2) by (simp_all add: last_def int_str_def nat_str_zero)
      have "log_rep b1 fs1 R"
      proof (rule log_repI)
        show "file_holds fs1 (log_name (m_log_basename b1) (int i)) (R ! i)" if "i < length R" for i
          using rep(4) [OF that] that True m(2) by (simp add: b1_def fs1_def file_holds_def base_def split: option.splits)
      qed (use log_repD [OF b1] in \<open>auto simp: fs1_def b1_def split: if_splits\<close>)
      moreover have "ShiftFiles b fs = (0, b1, fs1)" using run m by simp
      ultimately show ?thesis using False True by (intro exI [of _ None] exI [of _ fs1]) (simp add: b1_def)
    next
      case False': False
      then obtain k' where k': "length R = Suc k'" "0 < k'" using rep(1) by (cases R) auto
      then have l: "last = log_name base (int k')" using rep(2) by (simp add: last_def log_name_def)
      have "m_maxlog_num b - 2 = int k' - 1" using rep(2) k' by simp
      moreover have "shift_loop base (down_to_zero (int k' - 1)) fs1 = (0, fs1\<lparr>dir := shifted base k' (dir fs1)\<rparr>)"
        by (rule shift_loop_run) (use rep(3) l in \<open>simp_all add: fs1_def\<close>)
      ultimately have "ShiftFiles b fs = (0, b1, fs\<lparr>dir := shifted base k' ((dir fs)(log_name base (int k') := None))\<rparr>)"
        using run by (simp add: fs1_def l)
      moreover have "log_rep b1 (fs\<lparr>dir := shifted base k' ((dir fs)(log_name base (int k') := None))\<rparr>) ([] # butlast R)"
        using log_rep_shift [OF b1 k'] by (simp add: b1_def base_def)
      ultimately show ?thesis using False False' by (auto simp: b1_def)
    qed
  qed
qed

lemma write_refines:
  assumes "log_rep b fs R" and "0 < len" and "len + 8 \<le> MAX_BINLOG_ITEM_LEN" and "nat len \<le> length bytes"
  shows "\<exists>fp fs'. WriteToBinLog (Some bytes) len now b fs = Some (0, b\<lparr>m_write_fp := fp\<rparr>, fs') \<and>
    log_rep (b\<lparr>m_write_fp := fp\<rparr>) fs' (blog_add (m_maxlog_size b) (now, take (nat len) bytes) R)"
proof -
  define r where "r = (now, take (nat len) bytes)"
  from write_opens [OF assms] obtain fp fs1 where
    o: "WriteToBinLog (Some bytes) len now b fs = Some (ShiftFiles (b\<lparr>m_write_fp := Some fp\<rparr>) (fwrite (enc r) fp fs1))"
      "log_rep (b\<lparr>m_write_fp := Some fp\<rparr>) fs1 R" "dir fs1 (log_name (m_log_basename b) 0) = Some (f_file fp)"
    unfolding r_def by blast
  have "rec_ok r" using assms(2-4) by (auto simp: rec_ok_def r_def)
  then have "log_rep (b\<lparr>m_write_fp := Some fp\<rparr>) (fwrite (enc r) fp fs1) ((hd R @ [r]) # tl R)"
    using write_appends [OF o(2)] o(3) by simp
  from ShiftFiles_refines [OF this] o(3) obtain fp' fs' where
    s: "ShiftFiles (b\<lparr>m_write_fp := Some fp\<rparr>) (fwrite (enc r) fp fs1) = (0, b\<lparr>m_write_fp := fp'\<rparr>, fs')"
      "log_rep (b\<lparr>m_write_fp := fp'\<rparr>) fs' (if int (length (enc_all (hd ((hd R @ [r]) # tl R)))) < m_maxlog_size b
        then (hd R @ [r]) # tl R else if length ((hd R @ [r]) # tl R) = 1 then (hd R @ [r]) # tl R
        else [] # butlast ((hd R @ [r]) # tl R))" by auto
  have l: "length ((hd R @ [r]) # tl R) = length R" using log_repD(1) [OF assms(1)] by simp
  have "log_rep (b\<lparr>m_write_fp := fp'\<rparr>) fs' (blog_add (m_maxlog_size b) r R)"
    using s(2) unfolding blog_add_def Let_def l .
  then show ?thesis using o(1) s(1) by (auto simp: r_def)
qed

lemma log_rep_files: "log_rep b fs R \<Longrightarrow> files_ok (m_log_basename b) fs R"
  by (auto simp: files_ok_def dest: log_repD)

lemma rd_start:
  assumes "log_rep b fs R"
  shows "SetReadRecordStartTime t n (-1) fs b = Some (0, b\<lparr>m_read_fp := None, m_readidx := m_maxlog_num b\<rparr>) \<and>
    rd_state (b\<lparr>m_read_fp := None, m_readidx := m_maxlog_num b\<rparr>) fs R (concat (rev R))"
  using log_repD(2) [OF assms] by (simp add: SetReadRecordStartTime_def rd_state_def Let_def)

end
