(* ===== verification/CacheLru.thy ===== *)
theory CacheLru
  imports CacheRep BinlogRep
begin

text \<open>
  The cache and its log together: what each operation of \<open>CacheAccess\<close> does to the list of entries,
  most recently used first, and to the records of the log.
\<close>

definition ca_rep :: "CacheAccess \<Rightarrow> entry list \<Rightarrow> log_rec list list \<Rightarrow> bool" where
  "ca_rep s es R \<longleftrightarrow> cache_rep (m_cache s) es \<and> log_rep (m_binlog s) (m_fs s) R \<and>
     length (m_szBuff s) = nat MAX_BINLOG_ITEM_LEN"

text \<open>What no operation on keys changes.\<close>

definition conf :: "CacheAccess \<Rightarrow> geometry \<times> int \<times> int \<times> string" where
  "conf s = (hm_geom (m_cache s), m_cache_dump_min s, m_maxlog_size (m_binlog s), m_log_basename (m_binlog s))"

definition logs :: "CacheAccess \<Rightarrow> bool" where
  "logs s \<longleftrightarrow> m_cache_dump_min s \<ge> 0"

definition log_add :: "CacheAccess \<Rightarrow> int \<Rightarrow> byte list \<Rightarrow> log_rec list list \<Rightarrow> log_rec list list" where
  "log_add s now bytes R = (if logs s then blog_add (m_maxlog_size (m_binlog s)) (now, bytes) R else R)"

definition set_bytes :: "byte list \<Rightarrow> byte list \<Rightarrow> int \<Rightarrow> byte list" where
  "set_bytes key d expiretime =
     le_bytes 4 op_set @ key @ le_bytes 4 (int (length d)) @ d @ le_bytes 4 expiretime"

definition key_bytes :: "int \<Rightarrow> byte list \<Rightarrow> byte list" where
  "key_bytes op key = le_bytes 4 op @ key"

section \<open>Building a record\<close>

lemma memcpy_append:
  assumes "0 \<le> n" and "pos + nat n \<le> length b" and "nat n \<le> length src"
  shows "\<exists>b'. memcpy b pos src 0 n = Some b' \<and> length b' = length b \<and>
    take (pos + nat n) b' = take pos b @ take (nat n) src"
  using assms by (auto simp: memcpy_def)

lemma take_le_bytes: "k \<le> n \<Longrightarrow> take k (le_bytes n v) = le_bytes k v"
proof (induction n arbitrary: k v)
  case (Suc n)
  then show ?case by (cases k) simp_all
qed simp

lemma put_key_record_ok:
  assumes "length b = nat MAX_BINLOG_ITEM_LEN" and "length key = 16"
  shows "\<exists>b'. put_key_record op key b = Some (b', 20) \<and> length b' = length b \<and> take 20 b' = key_bytes op key"
proof -
  have "20 \<le> length b" using assms(1) by (simp add: MAX_BINLOG_ITEM_LEN_def)
  then obtain b1 where 1: "memcpy b 0 (le_bytes 4 op) 0 4 = Some b1" "length b1 = length b" "take 4 b1 = le_bytes 4 op"
    using memcpy_append [of 4 0 b "le_bytes 4 op"] by auto
  obtain b2 where 2: "memcpy b1 4 key 0 16 = Some b2" "length b2 = length b" "take 20 b2 = take 4 b1 @ key"
    using memcpy_append [of 16 4 b1 key] 1(2) \<open>20 \<le> length b\<close> assms(2) by auto
  show ?thesis using 1 2 by (simp add: put_key_record_def key_bytes_def)
qed

lemma put_set_record_ok:
  assumes "length b = nat MAX_BINLOG_ITEM_LEN" and "length key = 16" and "0 \<le> n" and "n + 36 \<le> MAX_BINLOG_ITEM_LEN"
    and "nat n \<le> length data" and "4 \<le> w" and "w \<le> 8"
  shows "\<exists>b'. put_set_record key data n ex w b = Some (b', 28 + n) \<and> length b' = length b \<and>
    take (nat (28 + n)) b' = set_bytes key (take (nat n) data) ex"
proof -
  have len: "36 + nat n \<le> length b" using assms(1,3,4) by linarith
  obtain b1 where 1: "memcpy b 0 (le_bytes 4 op_set) 0 4 = Some b1" "length b1 = length b" "take 4 b1 = le_bytes 4 op_set"
    using memcpy_append [of 4 0 b "le_bytes 4 op_set"] len by auto
  obtain b2 where 2: "memcpy b1 4 key 0 16 = Some b2" "length b2 = length b" "take 20 b2 = take 4 b1 @ key"
    using memcpy_append [of 16 4 b1 key] 1(2) len assms(2) by auto
  obtain b3 where 3: "memcpy b2 20 (le_bytes 4 n) 0 4 = Some b3" "length b3 = length b"
    "take 24 b3 = take 20 b2 @ le_bytes 4 n"
    using memcpy_append [of 4 20 b2 "le_bytes 4 n"] 2(2) len by auto
  obtain b4 where 4: "memcpy b3 24 data 0 n = Some b4" "length b4 = length b"
    "take (24 + nat n) b4 = take 24 b3 @ take (nat n) data"
    using memcpy_append [of n 24 b3 data] 3(2) len assms(3,5) by auto
  obtain b5 where 5: "memcpy b4 (24 + nat n) (le_bytes 8 ex) 0 w = Some b5" "length b5 = length b"
    "take (24 + nat n + nat w) b5 = take (24 + nat n) b4 @ take (nat w) (le_bytes 8 ex)"
    using memcpy_append [of w "24 + nat n" b4 "le_bytes 8 ex"] 4(2) len assms(6,7) by auto
  have "take (24 + nat n + 4) b5 = take (24 + nat n + 4) (take (24 + nat n + nat w) b5)"
    using assms(6) by (simp add: min_def)
  also have "\<dots> = take (24 + nat n) b4 @ le_bytes 4 ex"
    using 5(3) 4(2) len assms(6,7) by (simp add: take_le_bytes min_def)
  finally have "take (nat (28 + n)) b5 = set_bytes key (take (nat n) data) ex"
    using 1 2 3 4 assms(3,5) by (simp add: set_bytes_def nat_add_distrib min_def)
  then show ?thesis
    using 1 2 3 4 5 assms(3,4) by (simp add: put_set_record_def Let_def)
qed

section \<open>Writing to the log\<close>

lemma log_record_rep:
  assumes "ca_rep s es R" and "0 < n" and "n + 8 \<le> MAX_BINLOG_ITEM_LEN" and "length b = nat MAX_BINLOG_ITEM_LEN"
  shows "\<exists>s'. log_record (b, n) now s = Some s' \<and> m_cache s' = m_cache s \<and> conf s' = conf s \<and>
    ca_rep s' es (blog_add (m_maxlog_size (m_binlog s)) (now, take (nat n) b) R)"
proof -
  have "log_rep (m_binlog s) (m_fs s) R" "nat n \<le> length b" using assms by (simp_all add: ca_rep_def)
  from write_refines [OF this(1) assms(2,3) this(2), of now] obtain fp fs' where
    "WriteToBinLog (Some b) n now (m_binlog s) (m_fs s) = Some (0, (m_binlog s)\<lparr>m_write_fp := fp\<rparr>, fs')"
    "log_rep ((m_binlog s)\<lparr>m_write_fp := fp\<rparr>) fs' (blog_add (m_maxlog_size (m_binlog s)) (now, take (nat n) b) R)"
    by blast
  then show ?thesis using assms(1,4) by (simp add: log_record_def ca_rep_def conf_def)
qed

lemma ca_rep_cache: "ca_rep s es R \<Longrightarrow> cache_rep c es' \<Longrightarrow> ca_rep (s\<lparr>m_cache := c\<rparr>) es' R"
  by (simp add: ca_rep_def)

lemma conf_cache: "hm_geom c = hm_geom (m_cache s) \<Longrightarrow> conf (s\<lparr>m_cache := c\<rparr>) = conf s"
  by (simp add: conf_def)

lemma hash_key_id: "length key = 16 \<Longrightarrow> hash_key key = Some key"
  by (simp add: hash_key_def)

lemma c_int_len: "0 \<le> n \<Longrightarrow> n + 36 \<le> MAX_BINLOG_ITEM_LEN \<Longrightarrow> c_int n = n"
  by (rule c_int_small) (simp_all add: MAX_BINLOG_ITEM_LEN_def)

section \<open>The operations\<close>

text \<open>Both overloads of \<open>set\<close> end in the same way: log the record when logging is on.\<close>

lemma log_set_rep:
  assumes "ca_rep s es R" and "length key = 16" and "0 \<le> n" and "n + 36 \<le> MAX_BINLOG_ITEM_LEN"
    and "nat n \<le> length data" and "4 \<le> w" and "w \<le> 8"
  shows "\<exists>s'. (if m_cache_dump_min s \<ge> 0 \<and> fl = NODE_FLAG_DIRTY
      then do { rec \<leftarrow> put_set_record key data n ex w (m_szBuff s); log_record rec now s } else Some s) = Some s' \<and>
    m_cache s' = m_cache s \<and> conf s' = conf s \<and>
    ca_rep s' es (if fl = NODE_FLAG_DIRTY then log_add s now (set_bytes key (take (nat n) data) ex) R else R)"
proof -
  have b: "length (m_szBuff s) = nat MAX_BINLOG_ITEM_LEN" using assms(1) by (simp add: ca_rep_def)
  from put_set_record_ok [OF b assms(2-7), of ex] obtain b' where
    b': "put_set_record key data n ex w (m_szBuff s) = Some (b', 28 + n)" "length b' = nat MAX_BINLOG_ITEM_LEN"
      "take (nat (28 + n)) b' = set_bytes key (take (nat n) data) ex" using b by auto
  have "0 < 28 + n" "28 + n + 8 \<le> MAX_BINLOG_ITEM_LEN" using assms(3,4) by simp_all
  from log_record_rep [OF assms(1) this b'(2), of now] b' show ?thesis
    using assms(1) by (auto simp: log_add_def logs_def)
qed

lemma ca_set_refines:
  assumes "ca_rep s es R" and "length key = 16" and "0 \<le> n" and "n + 36 \<le> MAX_BINLOG_ITEM_LEN" and "nat n \<le> length data"
  defines "d \<equiv> take (nat n) data"
  shows "\<exists>s'. conf s' = conf s \<and>
    (case lru_put (hm_geom (m_cache s)) key d now es of
       None \<Rightarrow> ca_set key data n fl now s = Some (1, s') \<and> ca_rep s' (lru_touch key es) R
     | Some (e, es') \<Rightarrow> ca_set key data n fl now s = Some (0, s') \<and>
         ca_rep s' (e\<lparr>e_flag := flag_code fl\<rparr> # es') (if fl = NODE_FLAG_DIRTY then log_add s now (set_bytes key d 0) R else R))"
proof -
  have c: "cache_rep (m_cache s) es" using assms(1) by (simp add: ca_rep_def)
  note st = store_node_rep [OF c assms(3,5), folded d_def, of key now]
  show ?thesis
  proof (cases "lru_put (hm_geom (m_cache s)) key d now es")
    case None
    from st(1) [OF None] obtain c' where "store_node key data n now (m_cache s) = Some (None, c')"
      "cache_rep c' (lru_touch key es)" "hm_geom c' = hm_geom (m_cache s)" by blast
    then show ?thesis
      using None assms(1-4) by (simp add: ca_set_def hash_key_id c_int_len ca_rep_cache conf_cache)
  next
    case (Some p)
    obtain e es' where p: "p = (e, es')" by fastforce
    from st(2) [OF Some [unfolded p]] obtain m c' where c': "store_node key data n now (m_cache s) = Some (Some m, c')"
      "node_rep c' m e es'" "hm_geom c' = hm_geom (m_cache s)" by blast
    define s1 where "s1 = s\<lparr>m_cache := set_node_flag m fl c'\<rparr>"
    have "ca_rep s1 (e\<lparr>e_flag := flag_code fl\<rparr> # es') R" "conf s1 = conf s"
      using assms(1) node_rep_cache [OF node_rep_flag [OF c'(2)]] c'(3)
      by (simp_all add: s1_def ca_rep_cache conf_cache frame_simps)
    with log_set_rep [OF this(1) assms(2-5), of 8 fl 0 now] obtain s2 where
      l: "(if m_cache_dump_min s1 \<ge> 0 \<and> fl = NODE_FLAG_DIRTY
        then do { rec \<leftarrow> put_set_record key data n 0 8 (m_szBuff s1); log_record rec now s1 } else Some s1) = Some s2"
      "conf s2 = conf s"
      "ca_rep s2 (e\<lparr>e_flag := flag_code fl\<rparr> # es') (if fl = NODE_FLAG_DIRTY then log_add s1 now (set_bytes key d 0) R else R)"
      unfolding d_def by auto
    moreover have "log_add s1 = log_add s" by (simp add: fun_eq_iff log_add_def logs_def s1_def)
    moreover have "ca_set key data n fl now s = do { s2 \<leftarrow> (if m_cache_dump_min s1 \<ge> 0 \<and> fl = NODE_FLAG_DIRTY
        then do { rec \<leftarrow> put_set_record key data n 0 8 (m_szBuff s1); log_record rec now s1 } else Some s1); Some (0, s2) }"
      using c'(1) assms(2-4) by (simp add: ca_set_def hash_key_id c_int_len s1_def Let_def)
    then have "ca_set key data n fl now s = Some (0, s2)" unfolding l by simp
    ultimately show ?thesis using Some p by auto
  qed
qed

lemma ca_set_expire_refines:
  assumes "ca_rep s es R" and "length key = 16" and "0 \<le> n" and "n + 36 \<le> MAX_BINLOG_ITEM_LEN" and "nat n \<le> length data"
  defines "d \<equiv> take (nat n) data"
  shows "\<exists>s'. conf s' = conf s \<and>
    (case lru_put (hm_geom (m_cache s)) key d now es of
       None \<Rightarrow> ca_set_expire key data n ex fl now s = Some (1, s') \<and> ca_rep s' (lru_touch key es) R
     | Some (e, es') \<Rightarrow> ca_set_expire key data n ex fl now s = Some (0, s') \<and>
         ca_rep s' (e\<lparr>e_flag := flag_code fl, e_info_2 := ex\<rparr> # es')
           (if fl = NODE_FLAG_DIRTY then log_add s now (set_bytes key d ex) R else R))"
proof -
  have c: "cache_rep (m_cache s) es" using assms(1) by (simp add: ca_rep_def)
  note st = store_node_rep [OF c assms(3,5), folded d_def, of key now]
  show ?thesis
  proof (cases "lru_put (hm_geom (m_cache s)) key d now es")
    case None
    from st(1) [OF None] obtain c' where "store_node key data n now (m_cache s) = Some (None, c')"
      "cache_rep c' (lru_touch key es)" "hm_geom c' = hm_geom (m_cache s)" by blast
    then show ?thesis
      using None assms(1-4) by (simp add: ca_set_expire_def hash_key_id c_int_len ca_rep_cache conf_cache)
  next
    case (Some p)
    obtain e es' where p: "p = (e, es')" by fastforce
    from st(2) [OF Some [unfolded p]] obtain m c' where c': "store_node key data n now (m_cache s) = Some (Some m, c')"
      "node_rep c' m e es'" "hm_geom c' = hm_geom (m_cache s)" by blast
    define s1 where "s1 = s\<lparr>m_cache := set_expiretime m ex (set_node_flag m fl c')\<rparr>"
    have "ca_rep s1 (e\<lparr>e_flag := flag_code fl, e_info_2 := ex\<rparr> # es') R" "conf s1 = conf s"
      using assms(1) node_rep_cache [OF node_rep_expire [OF node_rep_flag [OF c'(2)]]] c'(3)
      by (simp_all add: s1_def ca_rep_cache conf_cache frame_simps)
    with log_set_rep [OF this(1) assms(2-5), of 4 fl ex now] obtain s2 where
      l: "(if m_cache_dump_min s1 \<ge> 0 \<and> fl = NODE_FLAG_DIRTY
        then do { rec \<leftarrow> put_set_record key data n ex 4 (m_szBuff s1); log_record rec now s1 } else Some s1) = Some s2"
      "conf s2 = conf s"
      "ca_rep s2 (e\<lparr>e_flag := flag_code fl, e_info_2 := ex\<rparr> # es')
        (if fl = NODE_FLAG_DIRTY then log_add s1 now (set_bytes key d ex) R else R)"
      unfolding d_def by auto
    moreover have "log_add s1 = log_add s" by (simp add: fun_eq_iff log_add_def logs_def s1_def)
    moreover have "ca_set_expire key data n ex fl now s = do { s2 \<leftarrow> (if m_cache_dump_min s1 \<ge> 0 \<and> fl = NODE_FLAG_DIRTY
        then do { rec \<leftarrow> put_set_record key data n ex 4 (m_szBuff s1); log_record rec now s1 } else Some s1); Some (0, s2) }"
      using c'(1) assms(2-4) by (simp add: ca_set_expire_def hash_key_id c_int_len s1_def Let_def)
    then have "ca_set_expire key data n ex fl now s = Some (0, s2)" unfolding l by simp
    ultimately show ?thesis using Some p by auto
  qed
qed

text \<open>\<open>mark_clean\<close> and \<open>del\<close> log the operation and the key.\<close>

lemma log_key_rep:
  assumes "ca_rep s es R" and "length key = 16"
  shows "\<exists>s'. (if m_cache_dump_min s \<ge> 0
      then do { rec \<leftarrow> put_key_record op key (m_szBuff s); log_record rec now s } else Some s) = Some s' \<and>
    m_cache s' = m_cache s \<and> conf s' = conf s \<and> ca_rep s' es (log_add s now (key_bytes op key) R)"
proof -
  have b: "length (m_szBuff s) = nat MAX_BINLOG_ITEM_LEN" using assms(1) by (simp add: ca_rep_def)
  from put_key_record_ok [OF b assms(2), of op] obtain b' where
    b': "put_key_record op key (m_szBuff s) = Some (b', 20)" "length b' = nat MAX_BINLOG_ITEM_LEN"
      "take 20 b' = key_bytes op key" using b by auto
  have "(0::int) < 20" "20 + 8 \<le> MAX_BINLOG_ITEM_LEN" by (simp_all add: MAX_BINLOG_ITEM_LEN_def)
  from log_record_rep [OF assms(1) this b'(2), of now] b' show ?thesis
    using assms(1) by (auto simp: log_add_def logs_def)
qed

lemma ca_find:
  assumes "ca_rep s es R" and "lru_find key es = Some e"
  obtains n c where "find_node key (m_cache s) = Some (Some n, c)" "node_rep c n e (lru_drop key es)"
    "hm_geom c = hm_geom (m_cache s)" "e_key e = key"
  using find_node_rep(2) [OF _ assms(2)] assms(1) unfolding ca_rep_def by blast

lemma ca_miss:
  assumes "ca_rep s es R" and "lru_find key es = None"
  shows "find_node key (m_cache s) = Some (None, m_cache s)"
  using find_node_rep(1) [OF _ assms(2)] assms(1) unfolding ca_rep_def by blast

lemma ca_mark_clean_refines:
  assumes "ca_rep s es R" and "length key = 16"
  shows "\<exists>s'. conf s' = conf s \<and>
    (case lru_find key es of
       None \<Rightarrow> ca_mark_clean key now s = Some (1, s') \<and> ca_rep s' es R
     | Some e \<Rightarrow> ca_mark_clean key now s = Some (0, s') \<and>
         ca_rep s' (e\<lparr>e_flag := 0\<rparr> # lru_drop key es) (log_add s now (key_bytes op_mark_clean key) R))"
proof (cases "lru_find key es")
  case None
  then show ?thesis
    using ca_miss [OF assms(1) None] assms by (intro exI [of _ s]) (simp add: ca_mark_clean_def hash_key_id)
next
  case (Some e)
  from ca_find [OF assms(1) Some] obtain n c where c: "find_node key (m_cache s) = Some (Some n, c)"
    "node_rep c n e (lru_drop key es)" "hm_geom c = hm_geom (m_cache s)" by blast
  define s1 where "s1 = s\<lparr>m_cache := set_node_flag n NODE_FLAG_UNCHG c\<rparr>"
  have s1: "ca_rep s1 (e\<lparr>e_flag := 0\<rparr> # lru_drop key es) R" "conf s1 = conf s"
    using assms(1) node_rep_cache [OF node_rep_flag [OF c(2), of NODE_FLAG_UNCHG]] c(3)
    by (simp_all add: s1_def ca_rep_cache conf_cache frame_simps)
  from log_key_rep [OF s1(1) assms(2), of op_mark_clean now] obtain s2 where
    l: "(if m_cache_dump_min s1 \<ge> 0
      then do { rec \<leftarrow> put_key_record op_mark_clean key (m_szBuff s1); log_record rec now s1 } else Some s1) = Some s2"
    "conf s2 = conf s1" "ca_rep s2 (e\<lparr>e_flag := 0\<rparr> # lru_drop key es) (log_add s1 now (key_bytes op_mark_clean key) R)"
    by blast
  have "ca_mark_clean key now s = do { s2 \<leftarrow> (if m_cache_dump_min s1 \<ge> 0
      then do { rec \<leftarrow> put_key_record op_mark_clean key (m_szBuff s1); log_record rec now s1 } else Some s1); Some (0, s2) }"
    using c(1) assms(2) by (simp add: ca_mark_clean_def hash_key_id s1_def Let_def)
  then have "ca_mark_clean key now s = Some (0, s2)" unfolding l(1) by simp
  moreover have "log_add s1 = log_add s" by (simp add: fun_eq_iff log_add_def logs_def s1_def)
  ultimately show ?thesis using Some l(2,3) s1(2) by auto
qed

lemma ca_del_refines:
  assumes "ca_rep s es R" and "length key = 16"
  shows "\<exists>s'. conf s' = conf s \<and>
    (if lru_find key es = None then ca_del key now s = Some (1, s') \<and> ca_rep s' es R
     else ca_del key now s = Some (0, s') \<and> ca_rep s' (lru_drop key es) (log_add s now (key_bytes op_del key) R))"
proof (cases "lru_find key es")
  case None
  then show ?thesis
    using ca_miss [OF assms(1) None] assms by (intro exI [of _ s]) (simp add: ca_del_def hash_key_id)
next
  case (Some e)
  from ca_find [OF assms(1) Some] obtain n c where c: "find_node key (m_cache s) = Some (Some n, c)"
    "node_rep c n e (lru_drop key es)" "hm_geom c = hm_geom (m_cache s)" by blast
  define s1 where "s1 = s\<lparr>m_cache := c\<rparr>"
  have s1: "ca_rep s1 (e # lru_drop key es) R" "conf s1 = conf s"
    using assms(1) node_rep_cache [OF c(2)] c(3) by (simp_all add: s1_def ca_rep_cache conf_cache)
  from log_key_rep [OF s1(1) assms(2), of op_del now] obtain s2 where
    l: "(if m_cache_dump_min s1 \<ge> 0
      then do { rec \<leftarrow> put_key_record op_del key (m_szBuff s1); log_record rec now s1 } else Some s1) = Some s2"
    "m_cache s2 = c" "conf s2 = conf s1" "ca_rep s2 (e # lru_drop key es) (log_add s1 now (key_bytes op_del key) R)"
    by (auto simp: s1_def)
  from node_rep_delete [OF c(2)] obtain c' where
    d: "delete_node n None None c = Some ((0, None, None), c')" "cache_rep c' (lru_drop key es)" "hm_geom c' = hm_geom c" by blast
  have "ca_del key now s = do { s2 \<leftarrow> (if m_cache_dump_min s1 \<ge> 0
      then do { rec \<leftarrow> put_key_record op_del key (m_szBuff s1); log_record rec now s1 } else Some s1);
      ((ret, _, _), c2) \<leftarrow> delete_node n None None (m_cache s2); Some (ret, s2\<lparr>m_cache := c2\<rparr>) }"
    using c(1) assms(2) by (simp add: ca_del_def hash_key_id s1_def Let_def)
  then have "ca_del key now s = Some (0, s2\<lparr>m_cache := c'\<rparr>)" unfolding l(1) using l(2) d(1) by simp
  moreover have "log_add s1 = log_add s" by (simp add: fun_eq_iff log_add_def logs_def s1_def)
  moreover have "conf (s2\<lparr>m_cache := c'\<rparr>) = conf s" using conf_cache [of c' s2] d(3) l(2,3) s1(2) by simp
  ultimately show ?thesis using Some ca_rep_cache [OF l(4) d(2)] by auto
qed

section \<open>Reading\<close>

lemma read_node_rep:
  assumes "node_rep c n e es" and "length buf < 2 ^ 31"
  shows "length (e_data e) \<le> length buf \<Longrightarrow> read_node c n buf (int (length buf)) =
      Some (0, \<lparr>g_dirty = e_flag e \<noteq> 0, g_time = e_info_1 e, g_len = c_unsigned (int (length (e_data e))),
        g_buf = e_data e @ drop (length (e_data e)) buf\<rparr>)"
    and "length buf < length (e_data e) \<Longrightarrow> read_node c n buf (int (length buf)) =
      Some (-2, \<lparr>g_dirty = e_flag e \<noteq> 0, g_time = e_info_1 e, g_len = c_unsigned (int (length (e_data e))), g_buf = buf\<rparr>)"
proof -
  have "int (length buf) < 2 ^ 31" using assms(2) by simp
  then have "c_int (int (length buf)) = int (length buf)" by (intro c_int_small) simp_all
  then show "length (e_data e) \<le> length buf \<Longrightarrow> read_node c n buf (int (length buf)) =
      Some (0, \<lparr>g_dirty = e_flag e \<noteq> 0, g_time = e_info_1 e, g_len = c_unsigned (int (length (e_data e))),
        g_buf = e_data e @ drop (length (e_data e)) buf\<rparr>)"
    and "length buf < length (e_data e) \<Longrightarrow> read_node c n buf (int (length buf)) =
      Some (-2, \<lparr>g_dirty = e_flag e \<noteq> 0, g_time = e_info_1 e, g_len = c_unsigned (int (length (e_data e))), g_buf = buf\<rparr>)"
    using node_rep_merge [OF assms(1)] node_rep_fields [OF assms(1)] by (simp_all add: read_node_def)
qed

lemma ca_get_refines:
  assumes "ca_rep s es R" and "length key = 16" and "length buf < 2 ^ 31"
  shows "\<exists>s'. conf s' = conf s \<and> ca_rep s' (lru_touch key es) R \<and>
    ca_get key buf (int (length buf)) s =
      Some (case lru_find key es of
        None \<Rightarrow> ((1, None), s')
      | Some e \<Rightarrow>
          ((if length (e_data e) \<le> length buf then 0 else -2,
            Some \<lparr>g_dirty = e_flag e \<noteq> 0, g_time = e_info_1 e, g_len = c_unsigned (int (length (e_data e))),
              g_buf = (if length (e_data e) \<le> length buf then e_data e @ drop (length (e_data e)) buf else buf)\<rparr>), s'))"
proof (cases "lru_find key es")
  case None
  then show ?thesis
    using ca_miss [OF assms(1) None] assms by (intro exI [of _ s]) (simp add: ca_get_def hash_key_id lru_touch_def)
next
  case (Some e)
  from ca_find [OF assms(1) Some] obtain n c where c: "find_node key (m_cache s) = Some (Some n, c)"
    "node_rep c n e (lru_drop key es)" "hm_geom c = hm_geom (m_cache s)" by blast
  then show ?thesis
    using Some assms read_node_rep [OF c(2) assms(3)] node_rep_cache [OF c(2)]
    by (intro exI [of _ "s\<lparr>m_cache := c\<rparr>"])
      (simp add: ca_get_def hash_key_id lru_touch_def ca_rep_cache conf_cache not_le)
qed

end
