(* ===== verification/CacheDemo.thy ===== *)
theory CacheDemo
  imports CacheLru
begin

text \<open>
  A concrete cache with two nodes, two buckets and four chunks of four bytes, on which the theorems of
  the later theories are applied.
\<close>

definition demo_hm_raw :: CHashMap where
  "demo_hm_raw = \<lparr>m_node_total = 0, m_bucket_size = 0, m_used_node_num = 0, m_used_bucket_num = 0, m_add_head = 0,
     m_add_tail = 0, m_node_free_list = 0, m_bucket = [], m_hash_node = (\<lambda>_. init_node_value), m_node_pool_tail = 0,
     m_allocator = demo_raw\<rparr>"

definition demo_hm :: CHashMap where
  "demo_hm = snd (the (hash_open (\<lambda>_. 0) True 2 2 4 4 demo_hm_raw))"

definition demo_fs :: FileSys where
  "demo_fs = \<lparr>dir = (\<lambda>_. None), content = (\<lambda>_. []), fresh = 0, locked = (\<lambda>_. False)\<rparr>"

definition demo_ca :: CacheAccess where
  "demo_ca = (CacheAccess_new 5 demo_hm 1000 (replicate (nat MAX_BINLOG_ITEM_LEN) 0) demo_fs)
     \<lparr>m_cache_dump_min := 0, m_binlog := snd (binlog_Init ''bin'' 500 2 CBinLog_new)\<rparr>"

lemma demo_ca_fields:
  "m_cache demo_ca = demo_hm" "m_cache_dump_min demo_ca = 0" "m_maxlog_size (m_binlog demo_ca) = 500"
  "m_log_basename (m_binlog demo_ca) = ''bin''"
  by (simp_all add: demo_ca_def CacheAccess_new_def binlog_Init_def c_string_def)

lemma demo_hm_rep: "cache_rep demo_hm []"
proof -
  have "\<exists>s'. hash_open (\<lambda>_. 0) True 2 2 4 4 demo_hm_raw = Some (0, s') \<and> hm_ok s' [] (\<lambda>_. undefined)"
    using hash_open_init [of 2 2 4 4 "\<lambda>_. 0" demo_hm_raw "\<lambda>_. undefined"] by (auto simp: hash_head_size_def)
  then show ?thesis by (auto simp: demo_hm_def cache_rep_def)
qed

lemma demo_ca_rep: "ca_rep demo_ca [] [[], []]"
proof -
  have "log_rep (m_binlog demo_ca) (m_fs demo_ca) [[], []]"
    by (rule log_repI)
      (auto simp: demo_ca_def CacheAccess_new_def binlog_Init_def CBinLog_new_def demo_fs_def file_holds_def
        less_Suc_eq nth_Cons')
  then show ?thesis using demo_hm_rep by (simp add: ca_rep_def demo_ca_def CacheAccess_new_def)
qed

lemma demo_hm_geom: "hm_geom demo_hm = ((2, 2), 4, 4)"
proof -
  have "\<exists>s'. hash_open (\<lambda>_. 0) True 2 2 4 4 demo_hm_raw = Some (0, s') \<and> hm_geom s' = ((2, 2), 4, 4)"
    using hash_open_init [of 2 2 4 4 "\<lambda>_. 0" demo_hm_raw "\<lambda>_. undefined"]
    by (auto simp: hash_head_size_def hm_geom_def al_geom_def)
  then show ?thesis by (auto simp: demo_hm_def)
qed

lemma demo_set:
  "\<exists>s. ca_set (uin_key 1) [1, 2, 3] 3 NODE_FLAG_DIRTY 7 demo_ca = Some (0, s) \<and>
    (\<exists>R. ca_rep s [(new_entry (uin_key 1) [1, 2, 3] 7 0)\<lparr>e_flag := 1\<rparr>] R)"
  using ca_set_refines [OF demo_ca_rep, where key = "uin_key 1" and n = 3 and data = "[1, 2, 3]" and now = 7 and
      fl = NODE_FLAG_DIRTY]
  by (auto simp: demo_ca_fields demo_hm_geom lru_put_def lru_find_def lru_room_def lru_used_def cost_def chunks_for_def
      uin_key_def MAX_BINLOG_ITEM_LEN_def)

end
