(* ===== verification/Recovery.thy ===== *)
theory Recovery
  imports CacheDemo "HOL-Library.Multiset"
begin

text \<open>
  Recovery after a restart: \<open>StartUp\<close> replays the records of the log into a cache. What a replay does
  to the list of entries, and that the replay of the log of a run gives the contents of that run.
\<close>

datatype log_op = LSet "byte list" "byte list" int | LDel "byte list" | LClean "byte list"

fun op_bytes :: "log_op \<Rightarrow> byte list" where
  "op_bytes (LSet k d ex) = set_bytes k d ex"
| "op_bytes (LDel k) = key_bytes op_del k"
| "op_bytes (LClean k) = key_bytes op_mark_clean k"

fun op_ok :: "log_op \<Rightarrow> bool" where
  "op_ok (LSet k d ex) \<longleftrightarrow> length k = 16 \<and> int (length d) + 36 \<le> MAX_BINLOG_ITEM_LEN"
| "op_ok (LDel k) \<longleftrightarrow> length k = 16"
| "op_ok (LClean k) \<longleftrightarrow> length k = 16"

fun lru_replay :: "geometry \<Rightarrow> int \<Rightarrow> log_op \<Rightarrow> entry list \<Rightarrow> entry list" where
  "lru_replay g now (LSet k d ex) es =
     (case lru_put g k d now es of None \<Rightarrow> lru_touch k es | Some (e, es') \<Rightarrow> e\<lparr>e_flag := 1\<rparr> # es')"
| "lru_replay g now (LDel k) es = lru_drop k es"
| "lru_replay g now (LClean k) es =
     (case lru_find k es of None \<Rightarrow> es | Some e \<Rightarrow> e\<lparr>e_flag := 0\<rparr> # lru_drop k es)"

section \<open>One record\<close>

lemma get_bytes_at:
  assumes "length pre = i" and "length bs = n"
  shows "get_bytes n i (pre @ bs @ post) = Some bs"
  using assms by (simp add: get_bytes_def)

lemma le_int_small: "0 \<le> v \<Longrightarrow> v < 2 ^ 31 \<Longrightarrow> le_int (le_bytes 4 v) = v"
  by (rule le_int_le_bytes) simp_all

lemma lru_drop_none: "lru_find k es = None \<Longrightarrow> lru_drop k es = es"
  by (auto simp: lru_find_def lru_drop_def find_None_iff intro: filter_True)

lemma replay_key_op_rep:
  assumes "cache_rep c es"
  shows "\<exists>c'. replay_key_op op_del k c = Some c' \<and> cache_rep c' (lru_drop k es) \<and> hm_geom c' = hm_geom c"
    and "\<exists>c'. replay_key_op op_mark_clean k c = Some c' \<and> cache_rep c' (lru_replay g now (LClean k) es) \<and> hm_geom c' = hm_geom c"
proof -
  note miss = find_node_rep(1) [OF assms, of k]
  show "\<exists>c'. replay_key_op op_del k c = Some c' \<and> cache_rep c' (lru_drop k es) \<and> hm_geom c' = hm_geom c"
  proof (cases "lru_find k es")
    case None
    then show ?thesis using miss assms by (simp add: replay_key_op_def lru_drop_none)
  next
    case (Some e)
    from find_node_rep(2) [OF assms Some] obtain n c1 where
      c1: "find_node k c = Some (Some n, c1)" "node_rep c1 n e (lru_drop k es)" "hm_geom c1 = hm_geom c" by blast
    then show ?thesis using node_rep_delete [OF c1(2)] by (auto simp: replay_key_op_def)
  qed
  show "\<exists>c'. replay_key_op op_mark_clean k c = Some c' \<and> cache_rep c' (lru_replay g now (LClean k) es) \<and> hm_geom c' = hm_geom c"
  proof (cases "lru_find k es")
    case None
    then show ?thesis using miss assms by (simp add: replay_key_op_def op_del_def op_mark_clean_def)
  next
    case (Some e)
    from find_node_rep(2) [OF assms Some] obtain n c1 where
      c1: "find_node k c = Some (Some n, c1)" "node_rep c1 n e (lru_drop k es)" "hm_geom c1 = hm_geom c" by blast
    then show ?thesis
      using Some node_rep_cache [OF node_rep_flag [OF c1(2), of NODE_FLAG_UNCHG]]
      by (simp add: replay_key_op_def op_del_def op_mark_clean_def frame_simps)
  qed
qed

lemma replay_set_rep:
  assumes "cache_rep c es" and "length k = 16" and "int (length d) + 36 \<le> MAX_BINLOG_ITEM_LEN"
  shows "\<exists>c'. replay_record (set_bytes k d ex @ x) now c = Some c' \<and>
    cache_rep c' (lru_replay (hm_geom c) now (LSet k d ex) es) \<and> hm_geom c' = hm_geom c"
proof -
  define data where "data = d @ le_bytes 4 ex @ x"
  define buff where "buff = set_bytes k d ex @ x"
  have "buff = [] @ le_bytes 4 op_set @ (k @ le_bytes 4 (int (length d)) @ data)"
    "buff = le_bytes 4 op_set @ k @ (le_bytes 4 (int (length d)) @ data)"
    "buff = (le_bytes 4 op_set @ k) @ le_bytes 4 (int (length d)) @ data"
    by (simp_all add: buff_def set_bytes_def data_def)
  then have f: "get_bytes 4 0 buff = Some (le_bytes 4 op_set)" "get_bytes 16 4 buff = Some k"
    "get_bytes 4 20 buff = Some (le_bytes 4 (int (length d)))" "drop 24 buff = data"
    using get_bytes_at [of "[]" 0 "le_bytes 4 op_set" 4] get_bytes_at [of "le_bytes 4 op_set" 4 k 16]
      get_bytes_at [of "le_bytes 4 op_set @ k" 20 "le_bytes 4 (int (length d))" 4] assms(2) by simp_all
  have v: "le_int (le_bytes 4 op_set) = op_set" "le_int (le_bytes 4 (int (length d))) = int (length d)"
    by (rule le_int_small; use assms(3) in \<open>simp add: op_set_def MAX_BINLOG_ITEM_LEN_def\<close>)+
  have rec: "replay_record buff now c = do { r \<leftarrow> store_node k data (int (length d)) now c; Some (flag_dirty r) }"
    using f v by (simp add: replay_record_def)
  have t: "take (nat (int (length d))) data = d" "nat (int (length d)) \<le> length data" by (simp_all add: data_def)
  note st = store_node_rep [OF assms(1) _ t(2), unfolded t(1), of k now, simplified]
  show ?thesis
  proof (cases "lru_put (hm_geom c) k d now es")
    case None
    then show ?thesis using st(1) rec by (auto simp: buff_def [symmetric] flag_dirty_def)
  next
    case (Some p)
    obtain e es' where p: "p = (e, es')" by fastforce
    with st(2) Some obtain n c' where c': "store_node k data (int (length d)) now c = Some (Some n, c')"
      "node_rep c' n e es'" "hm_geom c' = hm_geom c" by blast
    then show ?thesis
      using Some p rec node_rep_cache [OF node_rep_flag [OF c'(2), of NODE_FLAG_DIRTY]]
      by (simp add: buff_def [symmetric] flag_dirty_def frame_simps)
  qed
qed

lemma replay_key_record:
  assumes "length k = 16" and "op = op_del \<or> op = op_mark_clean"
  shows "replay_record (key_bytes op k @ x) now c = replay_key_op op k c"
proof -
  have "key_bytes op k @ x = [] @ le_bytes 4 op @ (k @ x)" "key_bytes op k @ x = le_bytes 4 op @ k @ x"
    by (simp_all add: key_bytes_def)
  then have "get_bytes 4 0 (key_bytes op k @ x) = Some (le_bytes 4 op)" "get_bytes 16 4 (key_bytes op k @ x) = Some k"
    using get_bytes_at [of "[]" 0 "le_bytes 4 op" 4] get_bytes_at [of "le_bytes 4 op" 4 k 16] assms(1) by simp_all
  moreover have "le_int (le_bytes 4 op) = op" "op \<noteq> op_set"
    using assms(2) le_int_small [of op] by (auto simp: op_del_def op_mark_clean_def op_set_def)
  ultimately show ?thesis by (simp add: replay_record_def)
qed

lemma replay_record_rep:
  assumes "cache_rep c es" and "op_ok p"
  shows "\<exists>c'. replay_record (op_bytes p @ x) now c = Some c' \<and> cache_rep c' (lru_replay (hm_geom c) now p es) \<and>
    hm_geom c' = hm_geom c"
proof (cases p)
  case (LSet k d ex)
  then show ?thesis using replay_set_rep [OF assms(1)] assms(2) by simp
next
  case (LDel k)
  then show ?thesis using replay_key_op_rep(1) [OF assms(1), of k] assms(2) by (simp add: replay_key_record)
next
  case (LClean k)
  then show ?thesis
    using replay_key_op_rep(2) [OF assms(1), of k "hm_geom c" now] assms(2) by (simp add: replay_key_record)
qed

section \<open>The whole log\<close>

lemma rec_ok_fits: "rec_ok r \<Longrightarrow> int (length (snd r)) \<le> MAX_BINLOG_ITEM_LEN"
  by (simp add: rec_ok_def)

lemma replay_loop_rep:
  assumes "files_ok (m_log_basename (m_binlog s)) (m_fs s) R" and "rd_state (m_binlog s) (m_fs s) R rem"
    and "\<forall>r\<in>set rem. rec_ok r" and "length (m_szBuff s) = nat MAX_BINLOG_ITEM_LEN" and "cache_rep (m_cache s) es"
    and "map snd rem = map op_bytes ops" and "\<forall>p\<in>set ops. op_ok p"
  shows "\<exists>s'. replay_loop replay_record now s = Some s' \<and>
    cache_rep (m_cache s') (fold (lru_replay (hm_geom (m_cache s)) now) ops es) \<and> hm_geom (m_cache s') = hm_geom (m_cache s)"
  using assms
proof (induction rem arbitrary: s es ops)
  case Nil
  have "reads_next (m_szBuff s) MAX_BINLOG_ITEM_LEN (m_fs s) R [] (m_binlog s)"
    using Nil by (intro read_record) (simp_all add: MAX_BINLOG_ITEM_LEN_def)
  then show ?case using Nil by (subst replay_loop.simps) (auto simp: reads_next_def)
next
  case (Cons r rem)
  from Cons.prems(6) obtain p ops' where ops: "ops = p # ops'" "snd r = op_bytes p" "map snd rem = map op_bytes ops'"
    by (cases ops) auto
  have "reads_next (m_szBuff s) MAX_BINLOG_ITEM_LEN (m_fs s) R (r # rem) (m_binlog s)"
    using Cons.prems by (intro read_record) (auto simp: MAX_BINLOG_ITEM_LEN_def rec_ok_def)
  then obtain fp i where rd: "ReadRecordFromBinLog (m_szBuff s) MAX_BINLOG_ITEM_LEN (m_fs s) (m_binlog s) =
      Some (1, op_bytes p @ drop (length (snd r)) (m_szBuff s), (m_binlog s)\<lparr>m_read_fp := fp, m_readidx := i\<rparr>)"
    "rd_state ((m_binlog s)\<lparr>m_read_fp := fp, m_readidx := i\<rparr>) (m_fs s) R rem"
    unfolding reads_next_def by (auto simp: ops(2))
  define buff where "buff = op_bytes p @ drop (length (snd r)) (m_szBuff s)"
  have "op_ok p" using Cons.prems(7) ops(1) by simp
  from replay_record_rep [OF Cons.prems(5) this] obtain c where c: "replay_record buff now (m_cache s) = Some c"
    "cache_rep c (lru_replay (hm_geom (m_cache s)) now p es)" "hm_geom c = hm_geom (m_cache s)"
    unfolding buff_def by blast
  define s1 where "s1 = s\<lparr>m_szBuff := buff, m_binlog := (m_binlog s)\<lparr>m_read_fp := fp, m_readidx := i\<rparr>, m_cache := c\<rparr>"
  have "length (snd r) \<le> nat MAX_BINLOG_ITEM_LEN" using Cons.prems(3) rec_ok_fits [of r] by simp
  then have "length buff = nat MAX_BINLOG_ITEM_LEN" using Cons.prems(4) ops(2) by (simp add: buff_def)
  then have "\<exists>s'. replay_loop replay_record now s1 = Some s' \<and>
    cache_rep (m_cache s') (fold (lru_replay (hm_geom (m_cache s1)) now) ops' (lru_replay (hm_geom (m_cache s)) now p es)) \<and>
    hm_geom (m_cache s') = hm_geom (m_cache s1)"
    using Cons.prems c rd(2) ops by (intro Cons.IH) (simp_all add: s1_def)
  moreover have "replay_loop replay_record now s = replay_loop replay_record now s1"
    using rd(1) c(1) by (subst replay_loop.simps) (simp add: s1_def buff_def [symmetric] Let_def)
  ultimately show ?case using ops(1) c(3) by (simp add: s1_def)
qed

lemma StartUp_replays:
  assumes "ca_rep s es R" and "m_cacheinit s" and "\<not> has_dump s"
    and "map snd (concat (rev R)) = map op_bytes ops" and "\<forall>p\<in>set ops. op_ok p"
  shows "\<exists>s'. StartUp key now s = Some (0, s') \<and>
    cache_rep (m_cache s') (fold (lru_replay (hm_geom (m_cache s)) now) ops es) \<and> hm_geom (m_cache s') = hm_geom (m_cache s)"
proof -
  have rep: "cache_rep (m_cache s) es" "log_rep (m_binlog s) (m_fs s) R" "length (m_szBuff s) = nat MAX_BINLOG_ITEM_LEN"
    using assms(1) by (simp_all add: ca_rep_def)
  define b where "b = (m_binlog s)\<lparr>m_read_fp := None, m_readidx := m_maxlog_num (m_binlog s)\<rparr>"
  have start: "SetReadRecordStartTime 0 0 (-1) (m_fs s) (m_binlog s) = Some (0, b)" "rd_state b (m_fs s) R (concat (rev R))"
    using rd_start [OF rep(2)] by (simp_all add: b_def)
  have "\<forall>r\<in>set (concat (rev R)). rec_ok r" using log_repD(8) [OF rep(2)] by auto
  moreover have "files_ok (m_log_basename b) (m_fs s) R" using log_rep_files [OF rep(2)] by (simp add: b_def)
  ultimately have "\<exists>s'. replay_loop replay_record now (s\<lparr>m_binlog := b\<rparr>) = Some s' \<and>
    cache_rep (m_cache s') (fold (lru_replay (hm_geom (m_cache (s\<lparr>m_binlog := b\<rparr>))) now) ops es) \<and>
    hm_geom (m_cache s') = hm_geom (m_cache (s\<lparr>m_binlog := b\<rparr>))"
    using rep start(2) assms(4,5) by (intro replay_loop_rep [where rem = "concat (rev R)"]) simp_all
  then show ?thesis using assms(2,3) start(1) by (auto simp: StartUp_def rewind_log_def)
qed

section \<open>Contents\<close>

text \<open>Keys, values and dirty flags, without the order of use and the times.\<close>

definition view :: "entry \<Rightarrow> byte list \<times> byte list \<times> int" where
  "view e = (e_key e, e_data e, e_flag e)"

definition views :: "entry list \<Rightarrow> (byte list \<times> byte list \<times> int) multiset" where
  "views es = mset (map view es)"

lemma views_simps [simp]: "views [] = {#}" "views (e # es) = add_mset (view e) (views es)"
  by (simp_all add: views_def)

lemma views_drop: "views (lru_drop k es) = filter_mset (\<lambda>v. fst v \<noteq> k) (views es)"
  by (induction es) (simp_all add: lru_drop_def view_def)

lemma views_keys: "mset (map e_key es) = image_mset fst (views es)"
  by (induction es) (simp_all add: view_def)

lemma views_length: "length es = size (views es)"
  by (simp add: views_def)

lemma views_used: "lru_used g es = (\<Sum>v\<in>#views es. cost g (fst (snd v)))"
  by (induction es) (simp_all add: lru_used_def view_def)

lemma views_distinct: "views es = views es' \<Longrightarrow> distinct (map e_key es) \<Longrightarrow> distinct (map e_key es')"
  by (metis views_keys mset_eq_imp_distinct_iff)

lemma lru_find_in: "distinct (map e_key es) \<Longrightarrow> e \<in> set es \<Longrightarrow> lru_find (e_key e) es = Some e"
  by (induction es) (auto simp: lru_find_def image_iff)

lemma lru_find_Some: "lru_find k es = Some e \<Longrightarrow> e \<in> set es \<and> e_key e = k"
  by (auto simp: lru_find_def find_Some_iff)

lemma views_find:
  assumes "views es = views es'" and "distinct (map e_key es)"
  shows "map_option view (lru_find k es) = map_option view (lru_find k es')"
proof -
  have "k \<in> e_key ` set es \<longleftrightarrow> k \<in> e_key ` set es'"
    using assms(1) views_keys [of es] views_keys [of es'] by (metis set_map set_mset_mset)
  then have none: "lru_find k es = None \<longleftrightarrow> lru_find k es' = None"
    by (auto simp: lru_find_def find_None_iff image_iff)
  show ?thesis
  proof (cases "lru_find k es")
    case (Some e)
    then have e: "e \<in> set es" "e_key e = k" by (simp_all add: lru_find_Some)
    have "view e \<in># views es'" using e(1) assms(1) by (metis views_def set_mset_mset image_eqI set_map)
    then obtain e' where e': "e' \<in> set es'" "view e' = view e" by (auto simp: views_def)
    then have "lru_find k es' = Some e'"
      using lru_find_in [OF views_distinct [OF assms] e'(1)] e(2) by (simp add: view_def)
    then show ?thesis using Some e'(2) by simp
  qed (use none in simp)
qed

lemma lru_put_parts: "lru_put g k d t es = Some (e, es') \<Longrightarrow> e_key e = k \<and> e_data e = d \<and> es' = lru_drop k es"
  by (auto simp: lru_put_def new_entry_def lru_drop_none dest: lru_find_Some split: option.splits if_splits)

lemma views_put:
  assumes "views es = views es'" and "distinct (map e_key es)"
  shows "lru_put g k d t es = None \<longleftrightarrow> lru_put g k d t' es' = None"
proof -
  have "lru_find k es = None \<longleftrightarrow> lru_find k es' = None" using views_find [OF assms, of k] by (metis map_option_is_None)
  moreover have "lru_room g es d = lru_room g es' d"
    using assms(1) by (simp add: lru_room_def views_used views_length)
  moreover have "lru_fits g (lru_drop k es) d = lru_fits g (lru_drop k es') d"
    using assms(1) by (simp add: lru_fits_def views_used views_drop)
  ultimately show ?thesis by (auto simp: lru_put_def split: option.splits)
qed

lemma lru_touch_views: "distinct (map e_key es) \<Longrightarrow> views (lru_touch k es) = views es"
proof (cases "lru_find k es")
  case (Some e)
  assume "distinct (map e_key es)"
  then have "views es = add_mset (view e) (views (lru_drop k es))"
    using lru_find_Some [OF Some]
  proof (induction es)
    case (Cons a es)
    show ?case
    proof (cases "a = e")
      case True
      then have "\<forall>x\<in>set es. e_key x \<noteq> k" using Cons.prems by (auto simp: image_iff)
      then show ?thesis using True Cons.prems(2) by (simp add: lru_drop_def)
    next
      case False
      then have "e_key a \<noteq> k" using Cons.prems by (auto simp: image_iff)
      then show ?thesis using Cons False by (simp add: lru_drop_def add_mset_commute)
    qed
  qed simp
  then show ?thesis using Some by (simp add: lru_touch_def)
qed (simp add: lru_touch_def)

lemma views_replay:
  assumes "views es = views es'" and "distinct (map e_key es)"
  shows "views (lru_replay g t p es) = views (lru_replay g t' p es')"
proof -
  note d = views_distinct [OF assms]
  have drop: "views (lru_drop k es) = views (lru_drop k es')" for k using assms(1) by (simp add: views_drop)
  show ?thesis
  proof (cases p)
    case (LSet k v ex)
    show ?thesis
    proof (cases "lru_put g k v t es")
      case None
      then have "lru_put g k v t' es' = None" using views_put [OF assms] by blast
      then show ?thesis using LSet None assms d by (simp add: lru_touch_views)
    next
      case (Some q)
      then obtain q' where q': "lru_put g k v t' es' = Some q'" using views_put [OF assms, of g k v t t'] by fastforce
      obtain a b a' b' where ab: "q = (a, b)" "q' = (a', b')" by fastforce
      show ?thesis
        using LSet Some q' ab lru_put_parts [OF Some [unfolded ab]] lru_put_parts [OF q' [unfolded ab]] drop [of k]
        by (simp add: view_def)
    qed
  next
    case (LClean k)
    then show ?thesis using views_find [OF assms, of k] assms(1) drop [of k] by (auto simp: view_def split: option.splits)
  qed (use drop in simp)
qed

section \<open>A run and its log\<close>

datatype cmd = CSet "byte list" "byte list" | CSetExpire "byte list" "byte list" int
  | CDel "byte list" | CClean "byte list" | CGet "byte list" "byte list"

fun exec :: "int \<Rightarrow> cmd \<Rightarrow> CacheAccess \<Rightarrow> CacheAccess option" where
  "exec t (CSet k d) s = map_option snd (ca_set k d (int (length d)) NODE_FLAG_DIRTY t s)"
| "exec t (CSetExpire k d ex) s = map_option snd (ca_set_expire k d (int (length d)) ex NODE_FLAG_DIRTY t s)"
| "exec t (CDel k) s = map_option snd (ca_del k t s)"
| "exec t (CClean k) s = map_option snd (ca_mark_clean k t s)"
| "exec t (CGet k buf) s = map_option snd (ca_get k buf (int (length buf)) s)"

fun run :: "(int \<times> cmd) list \<Rightarrow> CacheAccess \<Rightarrow> CacheAccess option" where
  "run [] s = Some s"
| "run ((t, x) # xs) s = do { s1 \<leftarrow> exec t x s; run xs s1 }"

fun cmd_ok :: "cmd \<Rightarrow> bool" where
  "cmd_ok (CSet k d) \<longleftrightarrow> length k = 16 \<and> int (length d) + 36 \<le> MAX_BINLOG_ITEM_LEN"
| "cmd_ok (CSetExpire k d ex) \<longleftrightarrow> length k = 16 \<and> int (length d) + 36 \<le> MAX_BINLOG_ITEM_LEN"
| "cmd_ok (CDel k) \<longleftrightarrow> length k = 16"
| "cmd_ok (CClean k) \<longleftrightarrow> length k = 16"
| "cmd_ok (CGet k buf) \<longleftrightarrow> length k = 16 \<and> length buf < 2 ^ 31"

text \<open>The bytes a command adds to the log at most.\<close>

fun cmd_size :: "cmd \<Rightarrow> int" where
  "cmd_size (CSet k d) = 36 + int (length d)"
| "cmd_size (CSetExpire k d ex) = 36 + int (length d)"
| "cmd_size (CDel k) = 28"
| "cmd_size (CClean k) = 28"
| "cmd_size (CGet k buf) = 0"

text \<open>The cache after a command and the records it leaves.\<close>

fun lru_exec :: "geometry \<Rightarrow> int \<Rightarrow> cmd \<Rightarrow> entry list \<Rightarrow> entry list \<times> log_op list" where
  "lru_exec g t (CSet k d) es =
     (case lru_put g k d t es of None \<Rightarrow> (lru_touch k es, [])
      | Some (e, es') \<Rightarrow> (e\<lparr>e_flag := 1\<rparr> # es', [LSet k d 0]))"
| "lru_exec g t (CSetExpire k d ex) es =
     (case lru_put g k d t es of None \<Rightarrow> (lru_touch k es, [])
      | Some (e, es') \<Rightarrow> (e\<lparr>e_flag := 1, e_info_2 := ex\<rparr> # es', [LSet k d ex]))"
| "lru_exec g t (CDel k) es = (if lru_find k es = None then (es, []) else (lru_drop k es, [LDel k]))"
| "lru_exec g t (CClean k) es =
     (case lru_find k es of None \<Rightarrow> (es, []) | Some e \<Rightarrow> (e\<lparr>e_flag := 0\<rparr> # lru_drop k es, [LClean k]))"
| "lru_exec g t (CGet k buf) es = (lru_touch k es, [])"

definition log_ops :: "CacheAccess \<Rightarrow> int \<Rightarrow> log_op list \<Rightarrow> log_rec list list \<Rightarrow> log_rec list list" where
  "log_ops s t ps R = fold (\<lambda>p. log_add s t (op_bytes p)) ps R"

lemma exec_refines:
  assumes "ca_rep s es R" and "cmd_ok x"
  shows "\<exists>s'. exec t x s = Some s' \<and> conf s' = conf s \<and>
    ca_rep s' (fst (lru_exec (hm_geom (m_cache s)) t x es)) (log_ops s t (snd (lru_exec (hm_geom (m_cache s)) t x es)) R)"
proof (cases x)
  case (CSet k d)
  then show ?thesis
    using ca_set_refines [OF assms(1), where key = k and n = "int (length d)" and data = d and now = t and fl = NODE_FLAG_DIRTY] assms(2)
    by (auto simp: log_ops_def split: option.splits prod.splits)
next
  case (CSetExpire k d ex)
  then show ?thesis
    using ca_set_expire_refines [OF assms(1), where key = k and n = "int (length d)" and data = d and now = t and ex = ex and fl = NODE_FLAG_DIRTY] assms(2)
    by (auto simp: log_ops_def split: option.splits prod.splits)
next
  case (CDel k)
  then show ?thesis
    using ca_del_refines [OF assms(1), of k t] assms(2) by (auto simp: log_ops_def split: if_splits)
next
  case (CClean k)
  then show ?thesis
    using ca_mark_clean_refines [OF assms(1), of k t] assms(2) by (auto simp: log_ops_def split: option.splits)
next
  case (CGet k buf)
  then show ?thesis
    using ca_get_refines [OF assms(1), of k buf] assms(2) by (auto simp: log_ops_def split: option.splits)
qed

lemma lru_exec_replay:
  assumes "distinct (map e_key es)"
  shows "views (fst (lru_exec g t x es)) = views (fold (lru_replay g t') (snd (lru_exec g t x es)) es)"
proof (cases x)
  case (CSet k d)
  show ?thesis
  proof (cases "lru_put g k d t es")
    case None
    then show ?thesis using CSet assms by (simp add: lru_touch_views)
  next
    case (Some p)
    then obtain p' where p': "lru_put g k d t' es = Some p'" using views_put [OF refl assms, of g k d t t'] by fastforce
    obtain a b a' b' where ab: "p = (a, b)" "p' = (a', b')" by fastforce
    show ?thesis
      using CSet Some p' ab lru_put_parts [OF Some [unfolded ab]] lru_put_parts [OF p' [unfolded ab]] by (simp add: view_def)
  qed
next
  case (CSetExpire k d ex)
  show ?thesis
  proof (cases "lru_put g k d t es")
    case None
    then show ?thesis using CSetExpire assms by (simp add: lru_touch_views)
  next
    case (Some p)
    then obtain p' where p': "lru_put g k d t' es = Some p'" using views_put [OF refl assms, of g k d t t'] by fastforce
    obtain a b a' b' where ab: "p = (a, b)" "p' = (a', b')" by fastforce
    show ?thesis
      using CSetExpire Some p' ab lru_put_parts [OF Some [unfolded ab]] lru_put_parts [OF p' [unfolded ab]]
      by (simp add: view_def)
  qed
qed (use assms in \<open>auto simp: lru_touch_views split: option.splits\<close>)

lemma lru_exec_ops:
  assumes "cmd_ok x"
  shows "\<forall>p\<in>set (snd (lru_exec g t x es)). op_ok p"
    and "int (length (enc_all (map (\<lambda>p. (u, op_bytes p)) (snd (lru_exec g t x es))))) \<le> cmd_size x"
  using assms
  by (cases x; auto simp: enc_def set_bytes_def key_bytes_def split: option.splits)+

lemma blog_add_stays:
  assumes "int (length (enc_all (hd R @ [r]))) < m"
  shows "blog_add m r R = (hd R @ [r]) # tl R"
  using assms by (simp add: blog_add_def)

lemma log_ops_stays:
  assumes "logs s" and "R \<noteq> []"
    and "int (length (enc_all (hd R))) + int (length (enc_all (map (\<lambda>p. (t, op_bytes p)) ps))) < m_maxlog_size (m_binlog s)"
  shows "log_ops s t ps R = (hd R @ map (\<lambda>p. (t, op_bytes p)) ps) # tl R"
  using assms(2,3)
proof (induction ps arbitrary: R)
  case (Cons p ps)
  define R1 where "R1 = (hd R @ [(t, op_bytes p)]) # tl R"
  have "log_add s t (op_bytes p) R = R1"
    using assms(1) Cons.prems(2) by (simp add: log_add_def R1_def blog_add_stays)
  moreover have "log_ops s t ps R1 = (hd R1 @ map (\<lambda>p. (t, op_bytes p)) ps) # tl R1"
    using Cons.prems(2) by (intro Cons.IH) (simp_all add: R1_def)
  ultimately show ?case by (simp add: log_ops_def R1_def)
qed (simp add: log_ops_def)

text \<open>The log of a state tells its contents: replayed from nothing it gives the same views.\<close>

definition log_tells :: "geometry \<Rightarrow> int \<Rightarrow> entry list \<Rightarrow> log_rec list list \<Rightarrow> bool" where
  "log_tells g t es R \<longleftrightarrow> (\<exists>ops. map snd (concat (rev R)) = map op_bytes ops \<and> (\<forall>p\<in>set ops. op_ok p) \<and>
     views es = views (fold (lru_replay g t) ops []))"

lemma distinct_drop: "distinct (map e_key es) \<Longrightarrow> distinct (map e_key (lru_drop k es)) \<and> k \<notin> e_key ` set (lru_drop k es)"
  by (induction es) (auto simp: lru_drop_def image_iff)

lemma distinct_front:
  "distinct (map e_key es) \<Longrightarrow> e_key e = k \<Longrightarrow> distinct (map e_key (e # lru_drop k es))"
  using distinct_drop [of es k] by simp

lemma distinct_replay:
  assumes "distinct (map e_key es)"
  shows "distinct (map e_key (lru_replay g t p es))"
proof (cases p)
  case (LSet k d ex)
  show ?thesis
  proof (cases "lru_put g k d t es")
    case None
    then show ?thesis
      using LSet assms distinct_drop [OF assms, of k] lru_find_Some [of k es]
      by (simp add: lru_touch_def split: option.split)
  next
    case (Some q)
    obtain e es' where q: "q = (e, es')" by fastforce
    then show ?thesis
      using LSet Some lru_put_parts [OF Some [unfolded q]] distinct_front [OF assms, of "e\<lparr>e_flag := 1\<rparr>" k] by simp
  qed
next
  case (LDel k)
  then show ?thesis using distinct_drop [OF assms] by simp
next
  case (LClean k)
  show ?thesis
  proof (cases "lru_find k es")
    case (Some e)
    then show ?thesis
      using LClean lru_find_Some [OF Some] distinct_front [OF assms, of "e\<lparr>e_flag := 0\<rparr>" k] by simp
  qed (use LClean assms in simp)
qed

lemma views_replays:
  assumes "views es = views es'" and "distinct (map e_key es)"
  shows "views (fold (lru_replay g t) ps es) = views (fold (lru_replay g t) ps es')"
  using assms
proof (induction ps arbitrary: es es')
  case (Cons p ps)
  from Cons.IH [OF views_replay [OF Cons.prems, of g t p t] distinct_replay [OF Cons.prems(2)]]
  show ?case by (simp only: fold.simps comp_apply)
qed simp

lemma exec_log_tells:
  assumes "ca_rep s es R" and "logs s" and "cmd_ok x" and "log_tells (hm_geom (m_cache s)) u es R"
    and "int (length (enc_all (hd R))) + cmd_size x < m_maxlog_size (m_binlog s)"
  shows "\<exists>s' es' R'. exec t x s = Some s' \<and> conf s' = conf s \<and> ca_rep s' es' R' \<and>
    log_tells (hm_geom (m_cache s)) u es' R' \<and> int (length (enc_all (hd R'))) \<le> int (length (enc_all (hd R))) + cmd_size x"
proof -
  define g where "g = hm_geom (m_cache s)"
  define ps where "ps = snd (lru_exec g t x es)"
  define es' where "es' = fst (lru_exec g t x es)"
  define R' where "R' = (hd R @ map (\<lambda>p. (t, op_bytes p)) ps) # tl R"
  have R: "R \<noteq> []" using assms(1) by (auto simp: ca_rep_def dest: log_repD)
  note ops = lru_exec_ops [OF assms(3), where g = g and t = t and es = es, folded ps_def]
  have "log_ops s t ps R = R'" unfolding R'_def using ops(2) [of t] assms(5) by (intro log_ops_stays [OF assms(2) R]) linarith
  with exec_refines [OF assms(1,3), of t] obtain s' where
    s': "exec t x s = Some s'" "conf s' = conf s" "ca_rep s' es' R'" unfolding g_def ps_def es'_def by metis
  from assms(4) obtain qs where qs: "map snd (concat (rev R)) = map op_bytes qs" "\<forall>p\<in>set qs. op_ok p"
    "views es = views (fold (lru_replay g u) qs [])" by (auto simp: log_tells_def g_def)
  have d: "distinct (map e_key es)" using assms(1) cache_rep_distinct by (auto simp: ca_rep_def)
  have "concat (rev R') = concat (rev R) @ map (\<lambda>p. (t, op_bytes p)) ps" using R by (cases R) (simp_all add: R'_def)
  then have "map snd (concat (rev R')) = map op_bytes (qs @ ps)" using qs(1) by (simp add: comp_def)
  moreover have "views es' = views (fold (lru_replay g u) (qs @ ps) [])"
    using lru_exec_replay [OF d, of g t x u] views_replays [OF qs(3) d, of g u ps]
    by (simp add: es'_def ps_def)
  ultimately have "log_tells g u es' R'" unfolding log_tells_def using qs(2) ops(1) by (intro exI [of _ "qs @ ps"]) auto
  moreover have "int (length (enc_all (hd R'))) \<le> int (length (enc_all (hd R))) + cmd_size x"
    using ops(2) [of t] by (simp add: R'_def)
  ultimately show ?thesis using s' unfolding g_def by blast
qed

lemma run_log_tells:
  assumes "ca_rep s es R" and "logs s" and "\<forall>x\<in>set xs. cmd_ok (snd x)" and "log_tells (hm_geom (m_cache s)) u es R"
    and "int (length (enc_all (hd R))) + (\<Sum>x\<leftarrow>xs. cmd_size (snd x)) < m_maxlog_size (m_binlog s)"
  shows "\<exists>s' es' R'. run xs s = Some s' \<and> conf s' = conf s \<and> ca_rep s' es' R' \<and> log_tells (hm_geom (m_cache s)) u es' R'"
  using assms
proof (induction xs arbitrary: s es R)
  case (Cons x xs)
  obtain t y where x: "x = (t, y)" by fastforce
  have "0 \<le> cmd_size (snd z)" for z :: "int \<times> cmd" by (cases "snd z") simp_all
  then have "0 \<le> (\<Sum>x\<leftarrow>xs. cmd_size (snd x))" by (intro sum_list_nonneg) auto
  then have "int (length (enc_all (hd R))) + cmd_size y < m_maxlog_size (m_binlog s)" using Cons.prems(5) x by simp
  from exec_log_tells [OF Cons.prems(1,2) _ Cons.prems(4) this, of t] Cons.prems(3) x obtain s1 es1 R1 where
    s1: "exec t y s = Some s1" "conf s1 = conf s" "ca_rep s1 es1 R1" "log_tells (hm_geom (m_cache s)) u es1 R1"
      "int (length (enc_all (hd R1))) \<le> int (length (enc_all (hd R))) + cmd_size y" by auto
  have "hm_geom (m_cache s1) = hm_geom (m_cache s)" "logs s1" "m_maxlog_size (m_binlog s1) = m_maxlog_size (m_binlog s)"
    using s1(2) Cons.prems(2) by (simp_all add: conf_def logs_def)
  then have "\<exists>s' es' R'. run xs s1 = Some s' \<and> conf s' = conf s1 \<and> ca_rep s' es' R' \<and> log_tells (hm_geom (m_cache s1)) u es' R'"
    using s1 Cons.prems(3,5) x by (intro Cons.IH [OF s1(3)]) simp_all
  then show ?case using s1(1,2) x \<open>hm_geom (m_cache s1) = hm_geom (m_cache s)\<close> by simp
qed auto

section \<open>The process after a restart\<close>

text \<open>A new process: a new pool, a log object that was constructed and initialised for the same files.\<close>

definition restart :: "CHashMap \<Rightarrow> byte list \<Rightarrow> CacheAccess \<Rightarrow> CacheAccess" where
  "restart c buff s = s\<lparr>m_cache := c, m_cacheinit := True, m_szBuff := buff,
     m_binlog := snd (binlog_Init (m_log_basename (m_binlog s)) (m_maxlog_size (m_binlog s)) (m_maxlog_num (m_binlog s)) CBinLog_new)\<rparr>"

text \<open>What a caller of \<open>get\<close> sees, apart from the time stamp.\<close>

definition get_view :: "byte list \<Rightarrow> byte list \<Rightarrow> CacheAccess \<Rightarrow> (int \<times> (bool \<times> int \<times> byte list) option) option" where
  "get_view key buf s =
     map_option (\<lambda>((ret, out), _). (ret, map_option (\<lambda>r. (g_dirty r, g_len r, g_buf r)) out))
       (ca_get key buf (int (length buf)) s)"

lemma get_view_rep:
  assumes "cache_rep (m_cache s) es" and "length key = 16" and "length buf < 2 ^ 31"
  shows "get_view key buf s = Some (case map_option view (lru_find key es) of
      None \<Rightarrow> (1, None)
    | Some (_, d, fl) \<Rightarrow> (if length d \<le> length buf then 0 else -2,
        Some (fl \<noteq> 0, c_unsigned (int (length d)), if length d \<le> length buf then d @ drop (length d) buf else buf)))"
proof (cases "lru_find key es")
  case None
  then show ?thesis using find_node_rep(1) [OF assms(1) None] assms(2) by (simp add: get_view_def ca_get_def hash_key_id)
next
  case (Some e)
  from find_node_rep(2) [OF assms(1) Some] obtain n c where
    "find_node key (m_cache s) = Some (Some n, c)" "node_rep c n e (lru_drop key es)" by blast
  then show ?thesis
    using Some assms(2) read_node_rep [OF _ assms(3)] by (simp add: get_view_def ca_get_def hash_key_id view_def not_le)
qed

lemma restart_rep:
  assumes "ca_rep s es R" and "cache_rep c es'" and "length buff = nat MAX_BINLOG_ITEM_LEN"
    and "c_string 255 (m_log_basename (m_binlog s)) = m_log_basename (m_binlog s)"
  shows "ca_rep (restart c buff s) es' R"
proof -
  note r = log_repD [of "m_binlog s" "m_fs s" R]
  have l: "log_rep (m_binlog s) (m_fs s) R" using assms(1) by (simp add: ca_rep_def)
  have "log_rep (m_binlog (restart c buff s)) (m_fs s) R"
    using r [OF l] assms(4) by (intro log_repI) (simp_all add: restart_def binlog_Init_def)
  then show ?thesis using assms(2,3) by (simp add: ca_rep_def restart_def)
qed

end
