(* ===== verification/SpinLock.thy ===== *)
theory SpinLock
  imports Prelude
begin

text \<open>
  The spin lock (\<open>cdb/tfc_spin_lock.h\<close>) as a step relation of processes on a shared byte. One step is one
  atomic instruction: \<open>lock; decb\<close> with the branch on its sign, the comparison of the waiting loop, or
  \<open>movb $1\<close>. The byte is an \<open>8 word\<close>, so the decrement wraps; the instructions touch only the low byte of
  \<open>slock\<close>. Processes are numbered from 0.
\<close>

datatype pc = Outside | AtDec | Waiting | Inside

record lock_state =
  slock :: "8 word"
  pcs :: "nat \<Rightarrow> pc"

definition spin_lock_init :: lock_state where
  "spin_lock_init = \<lparr>slock = 1, pcs = (\<lambda>_. Outside)\<rparr>"

definition set_pc :: "nat \<Rightarrow> pc \<Rightarrow> lock_state \<Rightarrow> lock_state" where
  "set_pc p x s = s\<lparr>pcs := (pcs s)(p := x)\<rparr>"

text \<open>\<open>decb\<close> and \<open>jns\<close>: the lock is taken when the result is not negative.\<close>

definition do_decb :: "nat \<Rightarrow> lock_state \<Rightarrow> lock_state" where
  "do_decb p s =
     (let v = slock s - 1
      in set_pc p (if 0 \<le> sint v then Inside else Waiting) (s\<lparr>slock := v\<rparr>))"

text \<open>\<open>cmpb $0\<close> and \<open>jle\<close>: back to \<open>decb\<close> when the byte is positive.\<close>

definition do_cmpb :: "nat \<Rightarrow> lock_state \<Rightarrow> lock_state" where
  "do_cmpb p s = (if sint (slock s) \<le> 0 then s else set_pc p AtDec s)"

definition do_unlock :: "nat \<Rightarrow> lock_state \<Rightarrow> lock_state" where
  "do_unlock p s = set_pc p Outside (s\<lparr>slock := 1\<rparr>)"

inductive lock_step :: "nat \<Rightarrow> lock_state \<Rightarrow> lock_state \<Rightarrow> bool" for N :: nat where
  enter: "p < N \<Longrightarrow> pcs s p = Outside \<Longrightarrow> lock_step N s (set_pc p AtDec s)"
| decb: "p < N \<Longrightarrow> pcs s p = AtDec \<Longrightarrow> lock_step N s (do_decb p s)"
| cmpb: "p < N \<Longrightarrow> pcs s p = Waiting \<Longrightarrow> lock_step N s (do_cmpb p s)"
| unlock: "p < N \<Longrightarrow> pcs s p = Inside \<Longrightarrow> lock_step N s (do_unlock p s)"

inductive lock_reach :: "nat \<Rightarrow> lock_state \<Rightarrow> bool" for N :: nat where
  start: "lock_reach N spin_lock_init"
| step: "lock_reach N s \<Longrightarrow> lock_step N s s' \<Longrightarrow> lock_reach N s'"

definition procs :: "nat \<Rightarrow> lock_state \<Rightarrow> pc \<Rightarrow> nat set" where
  "procs N s x = {p. p < N \<and> pcs s p = x}"

text \<open>The byte is 1 when nobody holds the lock; otherwise one process holds it and the byte went down
  by at most one for each process that waits.\<close>

definition lock_inv :: "nat \<Rightarrow> lock_state \<Rightarrow> bool" where
  "lock_inv N s \<longleftrightarrow>
     (procs N s Inside = {} \<and> sint (slock s) = 1) \<or>
     (\<exists>h. procs N s Inside = {h} \<and> - int (card (procs N s Waiting)) \<le> sint (slock s) \<and> sint (slock s) \<le> 0)"

lemma procs_finite [simp]: "finite (procs N s x)"
  by (simp add: procs_def)

lemma procs_set_pc:
  "p < N \<Longrightarrow> procs N (set_pc p x s) y = (if x = y then insert p (procs N s y) else procs N s y - {p})"
  by (auto simp: procs_def set_pc_def)

lemma procs_slock [simp]: "procs N (s\<lparr>slock := v\<rparr>) x = procs N s x"
  by (simp add: procs_def)

lemma slock_set_pc [simp]: "slock (set_pc p x s) = slock s"
  by (simp add: set_pc_def)

lemma sint_dec: "-128 < sint (v :: 8 word) \<Longrightarrow> sint (v - 1) = sint v - 1"
  using sint_range_size [of v] by (simp add: sint_word_ariths signed_take_bit_int_eq_self word_size)

lemma waiting_bound:
  assumes "p < N" and "q < N" and "p \<noteq> q" and "pcs s p \<noteq> Waiting" and "pcs s q \<noteq> Waiting"
  shows "card (procs N s Waiting) + 2 \<le> N"
proof -
  have "procs N s Waiting \<subseteq> {..<N} - {p, q}" using assms(4,5) by (auto simp: procs_def)
  then have "card (procs N s Waiting) \<le> card ({..<N} - {p, q})" by (intro card_mono) simp_all
  also have "\<dots> = N - 2" using assms(1-3) by (subst card_Diff_subset) auto
  finally show ?thesis using assms(1-3) by linarith
qed

lemma lock_inv_decb:
  assumes inv: "lock_inv N s" and p: "p < N" "pcs s p = AtDec" and N: "N \<le> 129"
  shows "lock_inv N (do_decb p s)"
proof -
  from inv consider (free) "procs N s Inside = {}" "sint (slock s) = 1"
    | (held) h where "procs N s Inside = {h}" "- int (card (procs N s Waiting)) \<le> sint (slock s)" "sint (slock s) \<le> 0"
    by (auto simp: lock_inv_def)
  then show ?thesis
  proof cases
    case free
    then have "sint (slock s - 1) = 0" using sint_dec [of "slock s"] by simp
    then show ?thesis using free p by (auto simp: lock_inv_def do_decb_def Let_def procs_set_pc)
  next
    case (held h)
    then have h: "h < N" "pcs s h = Inside" by (auto simp: procs_def)
    have "p \<noteq> h" using h p by auto
    then have "card (procs N s Waiting) + 2 \<le> N" using waiting_bound [of p N h s] p h by simp
    then have v: "sint (slock s - 1) = sint (slock s) - 1" using held(2) N by (intro sint_dec) linarith
    have "p \<notin> procs N s Waiting" "p \<noteq> h" using p h by (auto simp: procs_def)
    then show ?thesis using held v p by (auto simp: lock_inv_def do_decb_def Let_def procs_set_pc)
  qed
qed

lemma lock_inv_step:
  assumes "lock_step N s s'" and "lock_inv N s" and "N \<le> 129"
  shows "lock_inv N s'"
  using assms(1)
proof cases
  case (enter p)
  then have "procs N s' Inside = procs N s Inside" "procs N s' Waiting = procs N s Waiting" "slock s' = slock s"
    by (auto simp: procs_set_pc) (auto simp: procs_def)
  then show ?thesis using assms(2) by (simp add: lock_inv_def)
next
  case (decb p)
  then show ?thesis using lock_inv_decb assms(2,3) by blast
next
  case (cmpb p)
  show ?thesis
  proof (cases "sint (slock s) \<le> 0")
    case True
    then show ?thesis using cmpb assms(2) by (simp add: do_cmpb_def)
  next
    case False
    then have free: "procs N s Inside = {}" "sint (slock s) = 1" using assms(2) by (auto simp: lock_inv_def)
    then show ?thesis using cmpb False by (simp add: do_cmpb_def lock_inv_def procs_set_pc)
  qed
next
  case (unlock p)
  then have "p \<in> procs N s Inside" by (simp add: procs_def)
  then have "procs N s Inside = {p}" using assms(2) by (auto simp: lock_inv_def)
  then show ?thesis using unlock by (simp add: do_unlock_def lock_inv_def procs_set_pc)
qed

lemma lock_reach_inv:
  assumes "lock_reach N s" and "N \<le> 129"
  shows "lock_inv N s"
  using assms(1)
proof induction
  case start
  show ?case by (simp add: lock_inv_def spin_lock_init_def procs_def)
next
  case (step s s')
  then show ?case using lock_inv_step assms(2) by blast
qed

text \<open>C12. Mutual exclusion. With at most 129 processes, in every reachable state at most one process is
  inside the critical section.\<close>

theorem spin_lock_mutual_exclusion:
  assumes "lock_reach N s" and "N \<le> 129" and "p < N" and "q < N" and "pcs s p = Inside" and "pcs s q = Inside"
  shows "p = q"
proof -
  have "p \<in> procs N s Inside" "q \<in> procs N s Inside" using assms(3-6) by (auto simp: procs_def)
  then show ?thesis using lock_reach_inv [OF assms(1,2)] by (auto simp: lock_inv_def)
qed

theorem spin_lock_mutual_exclusion_witness:
  "\<exists>s. lock_reach 2 s \<and> pcs s 1 = Inside \<and> (\<forall>q<2. pcs s q = Inside \<longrightarrow> 1 = q)"
proof -
  define s where "s = do_decb 1 (set_pc 1 AtDec spin_lock_init)"
  have "lock_step 2 spin_lock_init (set_pc 1 AtDec spin_lock_init)"
    by (rule lock_step.enter) (simp_all add: spin_lock_init_def)
  moreover have "lock_step 2 (set_pc 1 AtDec spin_lock_init) s"
    unfolding s_def by (rule lock_step.decb) (simp_all add: set_pc_def)
  ultimately have r: "lock_reach 2 s" by (meson lock_reach.intros)
  have i: "pcs s 1 = Inside" by (simp add: s_def do_decb_def set_pc_def spin_lock_init_def)
  have "1 = q" if "q < 2" "pcs s q = Inside" for q
    by (rule spin_lock_mutual_exclusion [OF r _ _ that(1) i that(2)]) simp_all
  then show ?thesis using r i by blast
qed

section \<open>Too many processes\<close>

lemma try_lock: "p < N \<Longrightarrow> pcs s p = Outside \<Longrightarrow> lock_reach N s \<Longrightarrow> lock_reach N (do_decb p (set_pc p AtDec s))"
  by (rule lock_reach.step [OF lock_reach.step [OF _ lock_step.enter] lock_step.decb]) (simp_all add: set_pc_def)

lemma queue_up:
  "k \<le> 128 \<Longrightarrow> \<exists>s. lock_reach 130 s \<and> pcs s 0 = Inside \<and> sint (slock s) = - int k \<and> (\<forall>p>k. pcs s p = Outside)"
proof (induction k)
  case 0
  define s where "s = do_decb 0 (set_pc 0 AtDec spin_lock_init)"
  have "lock_reach 130 s"
    unfolding s_def by (rule try_lock) (simp_all add: spin_lock_init_def lock_reach.start [unfolded spin_lock_init_def])
  moreover have "pcs s 0 = Inside" "sint (slock s) = 0" "\<forall>p>0. pcs s p = Outside"
    by (simp_all add: s_def do_decb_def set_pc_def spin_lock_init_def)
  ultimately show ?case by auto
next
  case (Suc k)
  then obtain s where s: "lock_reach 130 s" "pcs s 0 = Inside" "sint (slock s) = - int k" "\<forall>p>k. pcs s p = Outside" by auto
  define s' where "s' = do_decb (Suc k) (set_pc (Suc k) AtDec s)"
  have v: "sint (slock s - 1) = - int (Suc k)" using sint_dec [of "slock s"] s(3) Suc.prems by simp
  have "lock_reach 130 s'" unfolding s'_def using s Suc.prems by (intro try_lock) simp_all
  moreover have "pcs s' 0 = Inside" "sint (slock s') = - int (Suc k)" "\<forall>p>Suc k. pcs s' p = Outside"
    using s v by (simp_all add: s'_def do_decb_def set_pc_def Let_def)
  ultimately show ?case by blast
qed

text \<open>C21. The bound is exact. With 130 processes a state can be reached in which two of them are inside:
  the holder and 128 waiting processes bring the byte to -128, and one more decrement wraps to 127.\<close>

theorem spin_lock_wraps:
  "\<exists>s. lock_reach 130 s \<and> pcs s 0 = Inside \<and> pcs s 129 = Inside"
proof -
  obtain s where s: "lock_reach 130 s" "pcs s 0 = Inside" "sint (slock s) = -128" "\<forall>p>128. pcs s p = Outside"
    using queue_up [of 128] by auto
  have "slock s = word_of_int (sint (slock s))" by simp
  then have "slock s = word_of_int (-128)" unfolding s(3) .
  then have v: "sint (slock s - 1) = 127" by simp
  define s' where "s' = do_decb 129 (set_pc 129 AtDec s)"
  have "lock_reach 130 s'" unfolding s'_def using s by (intro try_lock) simp_all
  moreover have "pcs s' 0 = Inside" "pcs s' 129 = Inside"
    using s(2) v by (simp_all add: s'_def do_decb_def set_pc_def Let_def)
  ultimately show ?thesis by blast
qed

end
