(* ===== verification/MD5.thy ===== *)
theory MD5
  imports Prelude
begin

unbundle bit_operations_syntax

text \<open>
  The message digest (\<open>cdb/tfc_md5.cpp\<close>). A context holds the four state words, the number of bits in
  two words, and the buffer of 64 bytes. The 64 steps of the transformation rotate the roles of
  \<open>a\<close>, \<open>b\<close>, \<open>c\<close>, \<open>d\<close>: a step takes the word it changes first. \<open>None\<close> is a length so large that the loop
  counter wraps.
\<close>

record MD5_CTX =
  md_state :: "32 word list"
  count0 :: "32 word"
  count1 :: "32 word"
  md_buffer :: "byte list"

definition md5_F :: "32 word \<Rightarrow> 32 word \<Rightarrow> 32 word \<Rightarrow> 32 word" where
  "md5_F x y z = (x AND y) OR (NOT x AND z)"

definition md5_G :: "32 word \<Rightarrow> 32 word \<Rightarrow> 32 word \<Rightarrow> 32 word" where
  "md5_G x y z = (x AND z) OR (y AND NOT z)"

definition md5_H :: "32 word \<Rightarrow> 32 word \<Rightarrow> 32 word \<Rightarrow> 32 word" where
  "md5_H x y z = x XOR y XOR z"

definition md5_I :: "32 word \<Rightarrow> 32 word \<Rightarrow> 32 word \<Rightarrow> 32 word" where
  "md5_I x y z = y XOR (x OR NOT z)"

definition ROTATE_LEFT :: "32 word \<Rightarrow> nat \<Rightarrow> 32 word" where
  "ROTATE_LEFT x n = push_bit n x OR drop_bit (32 - n) x"

type_synonym md5_regs = "32 word \<times> 32 word \<times> 32 word \<times> 32 word"

definition md5_step ::
    "(32 word \<Rightarrow> 32 word \<Rightarrow> 32 word \<Rightarrow> 32 word) \<Rightarrow> 32 word list \<Rightarrow> nat \<times> nat \<times> 32 word \<Rightarrow> md5_regs \<Rightarrow> md5_regs" where
  "md5_step f x t regs = (case (t, regs) of ((k, s, ac), (a, b, c, d)) \<Rightarrow>
     let a = a + (f b c d + x ! k + ac);
         a = ROTATE_LEFT a s;
         a = a + b
     in (d, a, b, c))"

definition round1 :: "(nat \<times> nat \<times> 32 word) list" where
  "round1 =
    [(0, 7, 0xd76aa478), (1, 12, 0xe8c7b756), (2, 17, 0x242070db), (3, 22, 0xc1bdceee),
     (4, 7, 0xf57c0faf), (5, 12, 0x4787c62a), (6, 17, 0xa8304613), (7, 22, 0xfd469501),
     (8, 7, 0x698098d8), (9, 12, 0x8b44f7af), (10, 17, 0xffff5bb1), (11, 22, 0x895cd7be),
     (12, 7, 0x6b901122), (13, 12, 0xfd987193), (14, 17, 0xa679438e), (15, 22, 0x49b40821)]"

definition round2 :: "(nat \<times> nat \<times> 32 word) list" where
  "round2 =
    [(1, 5, 0xf61e2562), (6, 9, 0xc040b340), (11, 14, 0x265e5a51), (0, 20, 0xe9b6c7aa),
     (5, 5, 0xd62f105d), (10, 9, 0x2441453), (15, 14, 0xd8a1e681), (4, 20, 0xe7d3fbc8),
     (9, 5, 0x21e1cde6), (14, 9, 0xc33707d6), (3, 14, 0xf4d50d87), (8, 20, 0x455a14ed),
     (13, 5, 0xa9e3e905), (2, 9, 0xfcefa3f8), (7, 14, 0x676f02d9), (12, 20, 0x8d2a4c8a)]"

definition round3 :: "(nat \<times> nat \<times> 32 word) list" where
  "round3 =
    [(5, 4, 0xfffa3942), (8, 11, 0x8771f681), (11, 16, 0x6d9d6122), (14, 23, 0xfde5380c),
     (1, 4, 0xa4beea44), (4, 11, 0x4bdecfa9), (7, 16, 0xf6bb4b60), (10, 23, 0xbebfbc70),
     (13, 4, 0x289b7ec6), (0, 11, 0xeaa127fa), (3, 16, 0xd4ef3085), (6, 23, 0x4881d05),
     (9, 4, 0xd9d4d039), (12, 11, 0xe6db99e5), (15, 16, 0x1fa27cf8), (2, 23, 0xc4ac5665)]"

definition round4 :: "(nat \<times> nat \<times> 32 word) list" where
  "round4 =
    [(0, 6, 0xf4292244), (7, 10, 0x432aff97), (14, 15, 0xab9423a7), (5, 21, 0xfc93a039),
     (12, 6, 0x655b59c3), (3, 10, 0x8f0ccc92), (10, 15, 0xffeff47d), (1, 21, 0x85845dd1),
     (8, 6, 0x6fa87e4f), (15, 10, 0xfe2ce6e0), (6, 15, 0xa3014314), (13, 21, 0x4e0811a1),
     (4, 6, 0xf7537e82), (11, 10, 0xbd3af235), (2, 15, 0x2ad7d2bb), (9, 21, 0xeb86d391)]"

definition Decode :: "byte list \<Rightarrow> nat \<Rightarrow> 32 word list" where
  "Decode input len = map (\<lambda>i. ucast (input ! (4 * i)) OR push_bit 8 (ucast (input ! (4 * i + 1))) OR
     push_bit 16 (ucast (input ! (4 * i + 2))) OR push_bit 24 (ucast (input ! (4 * i + 3)))) [0..<len div 4]"

definition Encode :: "32 word list \<Rightarrow> nat \<Rightarrow> byte list" where
  "Encode input len = concat (map (\<lambda>i. [ucast (input ! i), ucast (drop_bit 8 (input ! i)),
     ucast (drop_bit 16 (input ! i)), ucast (drop_bit 24 (input ! i))]) [0..<len div 4])"

definition MD5Transform :: "32 word list \<Rightarrow> byte list \<Rightarrow> 32 word list" where
  "MD5Transform state block =
     (let x = Decode block 64;
          regs = (state ! 0, state ! 1, state ! 2, state ! 3);
          regs = fold (md5_step md5_F x) round1 regs;
          regs = fold (md5_step md5_G x) round2 regs;
          regs = fold (md5_step md5_H x) round3 regs;
          (a, b, c, d) = fold (md5_step md5_I x) round4 regs
      in [state ! 0 + a, state ! 1 + b, state ! 2 + c, state ! 3 + d])"

definition MD5Init :: "byte list \<Rightarrow> MD5_CTX" where
  "MD5Init buffer = \<lparr>md_state = [0x67452301, 0xefcdab89, 0x98badcfe, 0x10325476], count0 = 0, count1 = 0,
     md_buffer = buffer\<rparr>"

text \<open>The loop over whole blocks; the result is the state and the position behind the last block.\<close>

function md5_blocks_loop :: "byte list \<Rightarrow> nat \<Rightarrow> 32 word list \<Rightarrow> 32 word list \<times> nat" where
  "md5_blocks_loop input i state =
     (if i + 63 < length input then md5_blocks_loop input (i + 64) (MD5Transform state (take 64 (drop i input)))
      else (state, i))"
  by pat_completeness auto

termination
  by (relation "measure (\<lambda>(input, i, _). length input - i)") auto

declare md5_blocks_loop.simps [simp del]

definition MD5Update :: "MD5_CTX \<Rightarrow> byte list \<Rightarrow> MD5_CTX option" where
  "MD5Update context input =
     (let inputLen = length input;
          index = unat (drop_bit 3 (count0 context) AND 0x3F);
          bits = push_bit 3 (of_nat inputLen :: 32 word);
          c0 = count0 context + bits;
          c1 = (if c0 < bits then count1 context + 1 else count1 context) + drop_bit 29 (of_nat inputLen);
          partLen = 64 - index
      in if 2 ^ 32 - 64 \<le> inputLen then None
         else if inputLen \<ge> partLen
         then do {
           buf \<leftarrow> memcpy (md_buffer context) index input 0 (int partLen);
           let (state, i) = md5_blocks_loop input partLen (MD5Transform (md_state context) buf);
           buf' \<leftarrow> memcpy buf 0 input i (int (inputLen - i));
           Some \<lparr>md_state = state, count0 = c0, count1 = c1, md_buffer = buf'\<rparr>
         }
         else do {
           buf \<leftarrow> memcpy (md_buffer context) index input 0 (int inputLen);
           Some (context\<lparr>count0 := c0, count1 := c1, md_buffer := buf\<rparr>)
         })"

definition PADDING :: "byte list" where
  "PADDING = 0x80 # replicate 63 0"

definition MD5Final :: "MD5_CTX \<Rightarrow> (byte list \<times> MD5_CTX) option" where
  "MD5Final context = do {
     let bits = Encode [count0 context, count1 context] 8;
     let index = unat (drop_bit 3 (count0 context) AND 0x3F);
     let padLen = (if index < 56 then 56 - index else 120 - index);
     c1 \<leftarrow> MD5Update context (take padLen PADDING);
     c2 \<leftarrow> MD5Update c1 bits;
     Some (Encode (md_state c2) 16,
       \<lparr>md_state = replicate 4 0, count0 = 0, count1 = 0, md_buffer = replicate 64 0\<rparr>)
   }"

definition md5_buf_safe :: "byte list \<Rightarrow> byte list \<Rightarrow> byte list option" where
  "md5_buf_safe garbage buf = do {
     c \<leftarrow> MD5Update (MD5Init garbage) buf;
     (k, _) \<leftarrow> MD5Final c;
     Some k
   }"

definition md5_buf :: "byte list \<Rightarrow> byte list \<Rightarrow> byte list option" where
  "md5_buf garbage buf = do {
     c \<leftarrow> MD5Update (MD5Init garbage) buf;
     (p, _) \<leftarrow> MD5Final c;
     Some p
   }"

section \<open>Printing a digest\<close>

definition hex_digit :: "byte \<Rightarrow> byte" where
  "hex_digit s = (if s < 10 then 48 + s else 97 + (s - 10))"

definition md5_get_str :: "byte list \<Rightarrow> byte list" where
  "md5_get_str md5 = concat (map (\<lambda>c. [hex_digit (0x0F AND drop_bit 4 c), hex_digit (0x0F AND c)]) md5) @ [0]"

section \<open>The digest of a message\<close>

function md5_blocks :: "32 word list \<Rightarrow> byte list \<Rightarrow> 32 word list" where
  "md5_blocks state m = (if length m < 64 then state else md5_blocks (MD5Transform state (take 64 m)) (drop 64 m))"
  by pat_completeness auto

termination
  by (relation "measure (\<lambda>(_, m). length m)") auto

declare md5_blocks.simps [simp del]

definition md5_init_state :: "32 word list" where
  "md5_init_state = [0x67452301, 0xefcdab89, 0x98badcfe, 0x10325476]"

text \<open>The message with a one bit, zeros up to 56 bytes modulo 64, and its length in bits as 64-bit number.\<close>

definition md5_padded :: "byte list \<Rightarrow> byte list" where
  "md5_padded m =
     (let r = length m mod 64
      in m @ [0x80] @ replicate ((if r < 56 then 56 - r else 120 - r) - 1) 0 @ le_bytes 8 (8 * int (length m)))"

definition md5_digest :: "byte list \<Rightarrow> byte list" where
  "md5_digest m = Encode (md5_blocks md5_init_state (md5_padded m)) 16"

text \<open>A context that has taken in the bytes \<open>m\<close>.\<close>

definition md5_rep :: "MD5_CTX \<Rightarrow> byte list \<Rightarrow> bool" where
  "md5_rep c m \<longleftrightarrow> length (md_buffer c) = 64 \<and> md_state c = md5_blocks md5_init_state m \<and>
     take (length m mod 64) (md_buffer c) = drop (64 * (length m div 64)) m \<and>
     count0 c = of_nat (8 * length m) \<and> count1 c = of_nat (8 * length m div 2 ^ 32)"

lemma md5_blocks_short: "length m < 64 \<Longrightarrow> md5_blocks st m = st"
  by (simp add: md5_blocks.simps)

lemma md5_blocks_append:
  "length a = 64 * k \<Longrightarrow> md5_blocks st (a @ b) = md5_blocks (md5_blocks st a) b"
proof (induction k arbitrary: a st)
  case (Suc k)
  then have l: "64 \<le> length a" "length (drop 64 a) = 64 * k" by simp_all
  have "md5_blocks st (a @ b) = md5_blocks (MD5Transform st (take 64 a)) (drop 64 a @ b)"
    using l(1) by (subst md5_blocks.simps) simp
  moreover have "md5_blocks st a = md5_blocks (MD5Transform st (take 64 a)) (drop 64 a)"
    using l(1) by (subst md5_blocks.simps) simp
  ultimately show ?case using Suc.IH [OF l(2)] by simp
qed (simp add: md5_blocks_short)

lemma md5_blocks_one: "length a = 64 \<Longrightarrow> md5_blocks st a = MD5Transform st a"
  by (subst md5_blocks.simps) (simp add: md5_blocks_short)

lemma md5_blocks_take:
  assumes "k = length m div 64"
  shows "md5_blocks st (take (64 * k) m) = md5_blocks st m"
proof -
  have k: "64 * k \<le> length m" "length m - 64 * k < 64" by (simp_all add: assms minus_mult_div_eq_mod)
  have "md5_blocks st (take (64 * k) m @ drop (64 * k) m) = md5_blocks (md5_blocks st (take (64 * k) m)) (drop (64 * k) m)"
    using k(1) by (intro md5_blocks_append [of _ k]) simp
  also have "\<dots> = md5_blocks st (take (64 * k) m)" using k by (intro md5_blocks_short) simp
  finally show ?thesis by simp
qed

lemma md5_loop_spec:
  "i \<le> length input \<Longrightarrow> md5_blocks_loop input i st =
     (md5_blocks st (drop i input), i + 64 * ((length input - i) div 64))"
proof (induction input i st rule: md5_blocks_loop.induct)
  case (1 input i st)
  show ?case
  proof (cases "i + 63 < length input")
    case True
    then have "\<not> length (drop i input) < 64" by simp
    then have "md5_blocks st (drop i input) = md5_blocks (MD5Transform st (take 64 (drop i input))) (drop (i + 64) input)"
      by (subst md5_blocks.simps) (simp only: if_False drop_drop add.commute)
    moreover have "(length input - i) div 64 = Suc ((length input - (i + 64)) div 64)"
      using True by (simp add: div_if diff_diff_add)
    ultimately show ?thesis using 1 True by (subst md5_blocks_loop.simps) simp
  next
    case False
    then have "length input - i < 64" using 1 by simp
    then show ?thesis using False by (subst md5_blocks_loop.simps) (simp add: md5_blocks_short)
  qed
qed

section \<open>The bit counter\<close>

lemma unat_drop_bit: "unat (drop_bit k w) = unat (w :: 32 word) div 2 ^ k"
proof -
  have "take_bit 32 (unat w) = unat w" using unsigned_less [of w, where ?'a = nat] by (intro take_bit_nat_eq_self) simp
  then show ?thesis by (simp add: unsigned_drop_bit_eq drop_bit_eq_div [where 'a = nat])
qed

lemma unat_and_63: "unat (w AND 0x3F) = unat (w :: 32 word) mod 64"
proof -
  have "(0x3F :: 32 word) = mask 6" by (simp add: mask_eq_exp_minus_1)
  then have "w AND 0x3F = take_bit 6 w" by (simp add: take_bit_eq_mask)
  then show ?thesis by (simp add: unsigned_take_bit_eq take_bit_eq_mod [where 'a = nat])
qed

lemma unat_of_nat_32: "unat (of_nat n :: 32 word) = n mod 2 ^ 32"
  by (simp add: unsigned_of_nat take_bit_eq_mod [where 'a = nat])

lemma md5_index: "unat (drop_bit 3 (of_nat (8 * n) :: 32 word) AND 0x3F) = n mod 64"
proof -
  have "unat (drop_bit 3 (of_nat (8 * n) :: 32 word) AND 0x3F) = ((8 * n) mod 2 ^ 32) div 8 mod 64"
    unfolding unat_and_63 unat_drop_bit unat_of_nat_32 by simp
  also have "((8 * n) mod 2 ^ 32) div 8 = n mod 2 ^ 29"
    using mult_mod_right [of 8 n "2 ^ 29"] by (simp add: mult.commute)
  also have "n mod 2 ^ 29 mod 64 = n mod 64" by (rule mod_mod_cancel) simp
  finally show ?thesis .
qed

lemma md5_count:
  fixes a n :: nat
  assumes "n < 2 ^ 32"
  defines "bits \<equiv> push_bit 3 (of_nat n :: 32 word)"
  defines "c0 \<equiv> of_nat (8 * a) + bits"
  shows "c0 = of_nat (8 * (a + n))"
    and "(if c0 < bits then of_nat (8 * a div 2 ^ 32) + 1 else of_nat (8 * a div 2 ^ 32)) + drop_bit 29 (of_nat n) =
      (of_nat (8 * (a + n) div 2 ^ 32) :: 32 word)"
proof -
  have bits: "bits = of_nat (8 * n)" by (simp add: bits_def push_bit_eq_mult mult.commute)
  then show c0: "c0 = of_nat (8 * (a + n))" by (simp add: c0_def algebra_simps)
  define x y where "x = 8 * a mod 2 ^ 32" and "y = 8 * n mod 2 ^ 32"
  have xy: "x < 2 ^ 32" "y < 2 ^ 32" by (simp_all add: x_def y_def)
  have ub: "unat bits = y" unfolding bits y_def by (rule unat_of_nat_32)
  have "8 * (a + n) mod 2 ^ 32 = (x + y) mod 2 ^ 32" by (simp add: x_def y_def mod_add_eq distrib_left)
  then have uc: "unat c0 = (x + y) mod 2 ^ 32" unfolding c0 unat_of_nat_32 .
  have less: "c0 < bits \<longleftrightarrow> 2 ^ 32 \<le> x + y"
  proof (cases "x + y < 2 ^ 32")
    case False
    then have "(x + y) mod 2 ^ 32 = x + y - 2 ^ 32" using xy by (simp add: le_mod_geq)
    then show ?thesis unfolding word_less_nat_alt ub uc using False xy by linarith
  qed (simp add: word_less_nat_alt ub uc)
  have "8 * (a + n) div 2 ^ 32 = 8 * a div 2 ^ 32 + 8 * n div 2 ^ 32 + (x + y) div 2 ^ 32"
    unfolding x_def y_def distrib_left by (rule div_add1_eq)
  also have "(x + y) div 2 ^ 32 = (if c0 < bits then 1 else 0)"
    using less xy by (auto simp: div_eq_0_iff intro: div_nat_eqI)
  also have "8 * n div 2 ^ 32 = n div 2 ^ 29" using div_mult_mult1 [of 8 n "2 ^ 29"] by simp
  finally have eq: "8 * (a + n) div 2 ^ 32 = 8 * a div 2 ^ 32 + n div 2 ^ 29 + (if c0 < bits then 1 else 0)" .
  have "drop_bit 29 (of_nat n :: 32 word) = of_nat (n div 2 ^ 29)"
    using assms(1) div_le_dividend [of n "2 ^ 29"]
    by (intro word_unat_eq_iff [THEN iffD2]) (simp only: unat_drop_bit unat_of_nat_32 mod_less le_less_trans)
  then show "(if c0 < bits then of_nat (8 * a div 2 ^ 32) + 1 else of_nat (8 * a div 2 ^ 32)) + drop_bit 29 (of_nat n) =
      (of_nat (8 * (a + n) div 2 ^ 32) :: 32 word)" unfolding eq by simp
qed

section \<open>Update and finish\<close>

lemma div_mod_64:
  fixes q r :: nat
  assumes "n = 64 * q + r" and "r < 64"
  shows "n div 64 = q" and "n mod 64 = r"
  using assms by simp_all

lemma md5_repD:
  assumes "md5_rep c m"
  shows "length (md_buffer c) = 64" and "md_state c = md5_blocks md5_init_state m"
    and "take (length m mod 64) (md_buffer c) = drop (64 * (length m div 64)) m"
    and "count0 c = of_nat (8 * length m)" and "count1 c = of_nat (8 * length m div 2 ^ 32)"
    and "unat (drop_bit 3 (count0 c) AND 0x3F) = length m mod 64"
proof -
  show c: "count0 c = of_nat (8 * length m)" using assms unfolding md5_rep_def by blast
  show "unat (drop_bit 3 (count0 c) AND 0x3F) = length m mod 64" unfolding c by (rule md5_index)
qed (use assms in \<open>unfold md5_rep_def, blast+\<close>)

lemma md5_repI:
  assumes "n = length m" and "n = 64 * q + r" and "r < 64" and "length b = 64" and "take r b = drop (64 * q) m"
  shows "md5_rep \<lparr>md_state = md5_blocks md5_init_state m, count0 = of_nat (8 * n),
    count1 = of_nat (8 * n div 2 ^ 32), md_buffer = b\<rparr> m"
  unfolding md5_rep_def assms(1) [symmetric] div_mod_64 [OF assms(2,3)] using assms(4,5) by (simp only: MD5_CTX.simps)

text \<open>What an update does, with the counters of a context that has taken in \<open>m\<close>.\<close>

lemma md5_update_eq:
  assumes "md5_rep c m" and "length input < 2 ^ 32 - 64"
  shows "MD5Update c input =
    (let index = length m mod 64; n = length m + length input
     in if length input \<ge> 64 - index
        then do {
          buf \<leftarrow> memcpy (md_buffer c) index input 0 (int (64 - index));
          let (state, i) = md5_blocks_loop input (64 - index) (MD5Transform (md_state c) buf);
          buf' \<leftarrow> memcpy buf 0 input i (int (length input - i));
          Some \<lparr>md_state = state, count0 = of_nat (8 * n), count1 = of_nat (8 * n div 2 ^ 32), md_buffer = buf'\<rparr>
        }
        else do {
          buf \<leftarrow> memcpy (md_buffer c) index input 0 (int (length input));
          Some (c\<lparr>count0 := of_nat (8 * n), count1 := of_nat (8 * n div 2 ^ 32), md_buffer := buf\<rparr>)
        })"
proof -
  have "length input < 2 ^ 32" using assms(2) by simp
  note cnt = md5_count [OF this, of "length m"]
  have "\<not> 2 ^ 32 - 64 \<le> length input" using assms(2) by simp
  then show ?thesis
    unfolding MD5Update_def Let_def md5_repD(4,5) [OF assms(1)] md5_index cnt(1) cnt(2) [unfolded cnt(1)] by (simp only: if_False)
qed

lemma md5_update_short:
  assumes "md5_rep c m" and "length input < 64 - length m mod 64"
  shows "\<exists>c'. MD5Update c input = Some c' \<and> md5_rep c' (m @ input)"
proof -
  define r q where "r = length m mod 64" and "q = length m div 64"
  define b where "b = take r (md_buffer c) @ input @ drop (r + length input) (md_buffer c)"
  define n where "n = length m + length input"
  note rep = md5_repD [OF assms(1), folded r_def q_def]
  have l: "r < 64" "length m = 64 * q + r" "length input < 64 - r" using assms(2) by (simp_all add: r_def q_def)
  have n: "n = 64 * q + (r + length input)" "r + length input < 64" using l by (simp_all add: n_def)
  have copy: "memcpy (md_buffer c) r input 0 (int (length input)) = Some b" using rep(1) l by (simp add: b_def)
  have "q = length (m @ input) div 64" using div_mod_64 [OF n] by (simp add: n_def)
  then have st: "md_state c = md5_blocks md5_init_state (m @ input)"
    using md5_blocks_take [of q "m @ input" md5_init_state] md5_blocks_take [OF q_def, of md5_init_state] rep(2) l(2) by simp
  have "take (r + length input) b = drop (64 * q) (m @ input)" using rep(1,3) l by (simp add: b_def)
  then have "md5_rep \<lparr>md_state = md_state c, count0 = of_nat (8 * n),
    count1 = of_nat (8 * n div 2 ^ 32), md_buffer = b\<rparr> (m @ input)"
    unfolding st using n l rep(1) by (intro md5_repI [of _ _ q "r + length input"]) (simp_all add: n_def b_def)
  moreover have "length input < 2 ^ 32 - 64" "\<not> 64 - r \<le> length input" using l by simp_all
  then have "MD5Update c input = Some (c\<lparr>count0 := of_nat (8 * n), count1 := of_nat (8 * n div 2 ^ 32), md_buffer := b\<rparr>)"
    by (simp only: md5_update_eq [OF assms(1)] Let_def r_def [symmetric] n_def [symmetric] copy if_False Option.bind.simps)
  ultimately show ?thesis by (cases c) simp
qed

lemma md5_update_long:
  assumes "md5_rep c m" and "64 - length m mod 64 \<le> length input" and "length input < 2 ^ 32 - 64"
  shows "\<exists>c'. MD5Update c input = Some c' \<and> md5_rep c' (m @ input)"
proof -
  define r q where "r = length m mod 64" and "q = length m div 64"
  define p where "p = 64 - r"
  define k where "k = (length input - p) div 64"
  define i where "i = p + 64 * k"
  define b where "b = drop (64 * q) m @ take p input"
  define b' where "b' = drop i input @ drop (length input - i) b"
  define n where "n = length m + length input"
  note rep = md5_repD [OF assms(1), folded r_def q_def]
  have l: "r < 64" "length m = 64 * q + r" "p \<le> length input" using assms(2) by (simp_all add: r_def q_def p_def)
  have i: "i \<le> length input" "length input - i < 64"
    using l(3) minus_mult_div_eq_mod [of "length input - p" 64] mod_less_divisor [of 64 "length input - p"]
    unfolding i_def k_def by linarith+
  have n: "n = 64 * (q + 1 + k) + (length input - i)" using l i by (simp add: i_def p_def n_def)
  have lb: "length b = 64" using l by (simp add: b_def p_def)
  have copy: "memcpy (md_buffer c) r input 0 (int p) = Some b"
    using rep(1,3) l by (subst memcpy_Some) (simp_all add: b_def p_def del: of_nat_diff)
  have copy': "memcpy b 0 input i (int (length input - i)) = Some b'"
    using i lb by (subst memcpy_Some) (simp_all add: b'_def del: of_nat_diff)
  have "length (m @ take p input) = 64 * (q + 1)" using l by (simp add: p_def)
  then have st: "md5_blocks (md5_blocks md5_init_state (m @ take p input)) (drop p input) = md5_blocks md5_init_state (m @ input)"
    using md5_blocks_append [of "m @ take p input" "q + 1" md5_init_state "drop p input"] by simp
  have "md5_blocks md5_init_state (take (64 * q) m @ b) = MD5Transform (md_state c) b"
    using md5_blocks_append [of "take (64 * q) m" q md5_init_state b] md5_blocks_one [OF lb] l(2)
      md5_blocks_take [OF q_def, of md5_init_state] rep(2) by simp
  moreover have "take (64 * q) m @ b = m @ take p input" unfolding b_def append_assoc [symmetric] by simp
  ultimately have "MD5Transform (md_state c) b = md5_blocks md5_init_state (m @ take p input)" by metis
  then have loop: "md5_blocks_loop input p (MD5Transform (md_state c) b) = (md5_blocks md5_init_state (m @ input), i)"
    using md5_loop_spec [OF l(3)] by (simp add: st i_def k_def)
  have "64 * (q + 1 + k) - length m = i" using l by (simp add: i_def p_def)
  then have "take (length input - i) b' = drop (64 * (q + 1 + k)) (m @ input)" using l by (simp add: b'_def)
  then have "md5_rep \<lparr>md_state = md5_blocks md5_init_state (m @ input), count0 = of_nat (8 * n),
    count1 = of_nat (8 * n div 2 ^ 32), md_buffer = b'\<rparr> (m @ input)"
    using n i lb by (intro md5_repI [of _ _ "q + 1 + k" "length input - i"]) (simp_all add: n_def b'_def)
  moreover have "MD5Update c input = Some \<lparr>md_state = md5_blocks md5_init_state (m @ input), count0 = of_nat (8 * n),
    count1 = of_nat (8 * n div 2 ^ 32), md_buffer = b'\<rparr>"
    using l(3) by (simp only: md5_update_eq [OF assms(1,3)] Let_def r_def [symmetric] n_def [symmetric] p_def [symmetric]
        copy loop copy' if_True Option.bind.simps prod.case)
  ultimately show ?thesis by blast
qed

lemma md5_update_rep:
  assumes "md5_rep c m" and "length input < 2 ^ 32 - 64"
  shows "\<exists>c'. MD5Update c input = Some c' \<and> md5_rep c' (m @ input)"
  using md5_update_short [OF assms(1), of input] md5_update_long [OF assms(1) _ assms(2)] by (meson not_le)

lemma md5_init_rep: "length garbage = 64 \<Longrightarrow> md5_rep (MD5Init garbage) []"
  by (simp add: md5_rep_def MD5Init_def md5_blocks_short md5_init_state_def)

lemma byte_of_count:
  assumes "k \<le> 24"
  shows "ucast (drop_bit k (of_nat n :: 32 word)) = (word_of_int (int n div 2 ^ k) :: byte)"
proof -
  have "int n div 2 ^ k = int (drop_bit k n)" by (simp add: drop_bit_eq_div [where 'a = nat] of_nat_div)
  then show ?thesis using assms
    by (auto simp: bit_unsigned_iff bit_drop_bit_eq bit_of_nat_iff intro!: bit_word_eqI)
qed

lemma byte_of_mod: "(word_of_int (v mod 256) :: byte) = word_of_int v"
  by (simp add: word_of_int_eq_iff take_bit_eq_mod)

lemma le_bytes_8:
  "le_bytes 8 v = map (\<lambda>k. word_of_int (v div 2 ^ k)) [0, 8, 16, 24] @
     map (\<lambda>k. word_of_int (v div 2 ^ 32 div 2 ^ k)) [0, 8, 16, 24]"
proof -
  have "le_bytes (Suc (Suc (Suc (Suc (Suc (Suc (Suc (Suc 0)))))))) v = map (\<lambda>k. word_of_int (v div 2 ^ k)) [0, 8, 16, 24] @
     map (\<lambda>k. word_of_int (v div 2 ^ 32 div 2 ^ k)) [0, 8, 16, 24]"
    by (simp only: le_bytes.simps byte_of_mod) (simp flip: zdiv_zmult2_eq)
  moreover have "Suc (Suc (Suc (Suc (Suc (Suc (Suc (Suc 0))))))) = 8" by simp
  ultimately show ?thesis by (simp only:)
qed

lemma Encode_count: "Encode [of_nat n, of_nat (n div 2 ^ 32)] 8 = le_bytes 8 (int n)"
proof -
  have "[0..<8 div 4] = [0, 1 :: nat]" by (simp add: upt_rec)
  then have "Encode [of_nat n, of_nat (n div 2 ^ 32)] 8 = map (\<lambda>k. word_of_int (int n div 2 ^ k)) [0, 8, 16, 24] @
      map (\<lambda>k. word_of_int (int (n div 2 ^ 32) div 2 ^ k)) [0, 8, 16, 24]"
    using byte_of_count [of 0] byte_of_count [of 8] byte_of_count [of 16] byte_of_count [of 24]
    by (simp add: Encode_def del: of_nat_div)
  then show ?thesis by (simp only: le_bytes_8 of_nat_div of_nat_power of_nat_numeral)
qed

lemma md5_final_digest:
  assumes "md5_rep c m"
  shows "\<exists>c'. MD5Final c = Some (md5_digest m, c')"
proof -
  define r where "r = length m mod 64"
  define pad where "pad = take (if r < 56 then 56 - r else 120 - r) PADDING"
  have r: "r < 64" by (simp add: r_def)
  have pad: "pad = 0x80 # replicate ((if r < 56 then 56 - r else 120 - r) - 1) 0" "length pad \<le> 64"
    using r by (auto simp: pad_def PADDING_def take_Cons')
  obtain c1 where c1: "MD5Update c pad = Some c1" "md5_rep c1 (m @ pad)" using md5_update_rep [OF assms, of pad] pad(2) by auto
  define bits where "bits = le_bytes 8 (int (8 * length m))"
  obtain c2 where c2: "MD5Update c1 bits = Some c2" "md5_rep c2 ((m @ pad) @ bits)"
    using md5_update_rep [OF c1(2), of bits] by (auto simp: bits_def)
  have bits': "Encode [count0 c, count1 c] 8 = bits" unfolding md5_repD(4,5) [OF assms] bits_def by (rule Encode_count)
  have "(m @ pad) @ bits = md5_padded m" by (simp add: md5_padded_def pad(1) bits_def r_def Let_def)
  then have "Encode (md_state c2) 16 = md5_digest m" using md5_repD(2) [OF c2(2)] by (simp add: md5_digest_def)
  then show ?thesis using c1(1) c2(1)
    by (simp add: MD5Final_def md5_repD(6) [OF assms] bits' Let_def flip: r_def pad_def)
qed

text \<open>A digest computed by several updates.\<close>

primrec md5_updates :: "MD5_CTX \<Rightarrow> byte list list \<Rightarrow> MD5_CTX option" where
  "md5_updates c [] = Some c"
| "md5_updates c (input # inputs) = do { c' \<leftarrow> MD5Update c input; md5_updates c' inputs }"

lemma md5_updates_rep:
  assumes "md5_rep c m" and "\<forall>input \<in> set inputs. length input < 2 ^ 32 - 64"
  shows "\<exists>c'. md5_updates c inputs = Some c' \<and> md5_rep c' (m @ concat inputs)"
  using assms
proof (induction inputs arbitrary: c m)
  case (Cons input inputs)
  then obtain c1 where "MD5Update c input = Some c1" "md5_rep c1 (m @ input)" using md5_update_rep [of c m input] by auto
  then show ?case using Cons.IH [of c1 "m @ input"] Cons.prems by auto
qed simp

text \<open>
  C16. However a message is cut into pieces, feeding the pieces to \<open>MD5Update\<close> after \<open>MD5Init\<close> (whatever
  the buffer held) and calling \<open>MD5Final\<close> gives the digest of the whole message: the block function folded
  over the message, a one bit, zeros, and the bit length modulo two to the 64. No call fails as long as
  each piece is shorter than two to the 32 less 64 bytes.
\<close>

theorem md5_pieces:
  assumes "length garbage = 64" and "\<forall>input \<in> set inputs. length input < 2 ^ 32 - 64"
  shows "\<exists>c'. do { c \<leftarrow> md5_updates (MD5Init garbage) inputs; MD5Final c } = Some (md5_digest (concat inputs), c')"
proof -
  obtain c where "md5_updates (MD5Init garbage) inputs = Some c" "md5_rep c (concat inputs)"
    using md5_updates_rep [OF md5_init_rep [OF assms(1)] assms(2)] by auto
  then show ?thesis using md5_final_digest by auto
qed

theorem md5_pieces_witness:
  "\<exists>c'. do { c \<leftarrow> md5_updates (MD5Init (replicate 64 7)) [[97], replicate 100 98, []]; MD5Final c } =
     Some (md5_digest (concat [[97], replicate 100 98, []]), c')"
  by (rule md5_pieces) simp_all

text \<open>
  The printed form of a digest: two hexadecimal digits for each byte and the terminating zero. It is
  read back by \<open>hex_value\<close>.
\<close>

definition hex_value :: "byte \<Rightarrow> byte" where
  "hex_value h = (if h < 97 then h - 48 else h - 87)"

primrec hex_read :: "nat \<Rightarrow> byte list \<Rightarrow> byte list" where
  "hex_read 0 s = []"
| "hex_read (Suc n) s = (push_bit 4 (hex_value (s ! 0)) OR hex_value (s ! 1)) # hex_read n (drop 2 s)"

lemma hex_value_digit: "hex_value (hex_digit (0x0F AND w)) = 0x0F AND w"
proof -
  define n where "n = unat (0x0F AND w)"
  have "(0x0F AND w :: byte) \<le> 15" by (rule word_and_le2)
  then have "n \<le> 15" by (simp add: word_le_nat_alt n_def)
  then have "n \<in> set [0..<16]" by simp
  moreover have "0x0F AND w = word_of_nat n" by (simp add: n_def)
  ultimately show ?thesis by (auto simp: hex_value_def hex_digit_def upt_rec simp del: set_upt)
qed

lemma byte_halves: "push_bit 4 (0x0F AND drop_bit 4 w) OR (0x0F AND w) = (w :: byte)"
proof -
  have m: "(0x0F :: byte) = mask 4" by (simp add: mask_eq_exp_minus_1)
  show ?thesis unfolding m
    by (rule bit_word_eqI) (auto simp: bit_push_bit_iff bit_and_iff bit_or_iff bit_drop_bit_eq bit_mask_iff simp del: mask_numeral)
qed

text \<open>
  C29. \<open>md5_get_str\<close> loses nothing: reading its text back two hexadecimal digits at a time gives the bytes
  of the digest, and the text is twice as long and closed by a zero byte.
\<close>

theorem md5_str_roundtrip:
  "hex_read (length d) (md5_get_str d) = d \<and> length (md5_get_str d) = 2 * length d + 1 \<and> last (md5_get_str d) = 0"
proof -
  have "hex_read (length d) (md5_get_str d) = d"
    by (induction d) (simp_all add: md5_get_str_def hex_value_digit byte_halves del: push_bit_and)
  moreover have "length (md5_get_str d) = 2 * length d + 1" by (induction d) (simp_all add: md5_get_str_def)
  ultimately show ?thesis by (simp add: md5_get_str_def)
qed

end
