(* ===== verification/ShmMap.thy ===== *)
theory ShmMap
  imports CacheDemo
begin

text \<open>
  The typed map over the cache (\<open>cdb/tfc_shm_map.h\<close>): \<open>TfcShmMapBase\<close>, \<open>TfcShmMap\<close> and its iterator. A
  value of the template parameter \<open>VT\<close> is its bytes, \<open>vs\<close> is \<open>sizeof(VT)\<close>, and the hash policy is the
  function \<open>get_hash_key\<close>. The lock policy is the default one, which does nothing. The iterator asks for
  the oldest key and reads it, which makes it the most recently used one; the walk ends when the
  first key is the oldest again.
\<close>

definition base_find :: "byte list \<Rightarrow> CacheAccess \<Rightarrow> (int \<times> CacheAccess) option" where
  "base_find md5key ca = do { ((rv, _), ca') \<leftarrow> ca_get_key md5key ca; Some (rv, ca') }"

definition base_get :: "byte list \<Rightarrow> byte list \<Rightarrow> CacheAccess \<Rightarrow> ((int \<times> byte list) \<times> CacheAccess) option" where
  "base_get md5key value ca = do {
     ((rv, out), ca') \<leftarrow> ca_get md5key value (int (length value)) ca;
     Some ((rv, case out of None \<Rightarrow> value | Some r \<Rightarrow> g_buf r), ca')
   }"

definition base_insert :: "byte list \<Rightarrow> byte list \<Rightarrow> int \<Rightarrow> CacheAccess \<Rightarrow> (int \<times> CacheAccess) option" where
  "base_insert md5key value now ca = ca_set md5key value (int (length value)) NODE_FLAG_DIRTY now ca"

definition base_erase :: "byte list \<Rightarrow> int \<Rightarrow> CacheAccess \<Rightarrow> (int \<times> CacheAccess) option" where
  "base_erase md5key now ca = ca_del md5key now ca"

definition map_size :: "CacheAccess option \<Rightarrow> int" where
  "map_size ca = (case ca of None \<Rightarrow> 0 | Some s \<Rightarrow> fst (ca_get_node_num s))"

section \<open>The map\<close>

record TfcShmMap =
  m_ca :: CacheAccess
  m_hash_key :: "byte list"

definition cache_key :: "('k \<Rightarrow> byte list) \<Rightarrow> 'k \<Rightarrow> TfcShmMap \<Rightarrow> TfcShmMap" where
  "cache_key get_hash_key key m = m\<lparr>m_hash_key := get_hash_key key\<rparr>"

definition set_cache_key :: "byte list \<Rightarrow> TfcShmMap \<Rightarrow> TfcShmMap option" where
  "set_cache_key hk m = do { k \<leftarrow> memcpy (m_hash_key m) 0 hk 0 16; Some (m\<lparr>m_hash_key := k\<rparr>) }"

definition map_find :: "TfcShmMap \<Rightarrow> (int \<times> TfcShmMap) option" where
  "map_find m = do { (rv, ca) \<leftarrow> base_find (m_hash_key m) (m_ca m); Some (rv, m\<lparr>m_ca := ca\<rparr>) }"

definition map_find_key :: "('k \<Rightarrow> byte list) \<Rightarrow> 'k \<Rightarrow> TfcShmMap \<Rightarrow> (int \<times> TfcShmMap) option" where
  "map_find_key get_hash_key key m = map_find (cache_key get_hash_key key m)"

definition map_get :: "byte list \<Rightarrow> TfcShmMap \<Rightarrow> ((int \<times> byte list) \<times> TfcShmMap) option" where
  "map_get value m = do { (r, ca) \<leftarrow> base_get (m_hash_key m) value (m_ca m); Some (r, m\<lparr>m_ca := ca\<rparr>) }"

definition map_get_key :: "('k \<Rightarrow> byte list) \<Rightarrow> 'k \<Rightarrow> byte list \<Rightarrow> TfcShmMap \<Rightarrow> ((int \<times> byte list) \<times> TfcShmMap) option" where
  "map_get_key get_hash_key key value m = map_get value (cache_key get_hash_key key m)"

definition map_insert :: "byte list \<Rightarrow> int \<Rightarrow> TfcShmMap \<Rightarrow> (int \<times> TfcShmMap) option" where
  "map_insert value now m = do { (rv, ca) \<leftarrow> base_insert (m_hash_key m) value now (m_ca m); Some (rv, m\<lparr>m_ca := ca\<rparr>) }"

definition map_insert_key :: "('k \<Rightarrow> byte list) \<Rightarrow> 'k \<Rightarrow> byte list \<Rightarrow> int \<Rightarrow> TfcShmMap \<Rightarrow> (int \<times> TfcShmMap) option" where
  "map_insert_key get_hash_key key value now m = map_insert value now (cache_key get_hash_key key m)"

definition map_erase :: "int \<Rightarrow> TfcShmMap \<Rightarrow> (int \<times> TfcShmMap) option" where
  "map_erase now m = do { (rv, ca) \<leftarrow> base_erase (m_hash_key m) now (m_ca m); Some (rv, m\<lparr>m_ca := ca\<rparr>) }"

definition map_erase_key :: "('k \<Rightarrow> byte list) \<Rightarrow> 'k \<Rightarrow> int \<Rightarrow> TfcShmMap \<Rightarrow> (int \<times> TfcShmMap) option" where
  "map_erase_key get_hash_key key now m = map_erase now (cache_key get_hash_key key m)"

section \<open>The iterator\<close>

text \<open>\<open>it_live\<close>: the pointer \<open>_ca\<close> is not null.\<close>

record TfcShmMapIterator =
  it_live :: bool
  first_key :: "byte list"
  cur_key :: "byte list"
  cur_data :: "byte list"
  cur_data_flag :: int

definition iterator_new :: "nat \<Rightarrow> TfcShmMapIterator" where
  "iterator_new vs = \<lparr>it_live = False, first_key = replicate 16 0, cur_key = replicate 16 0,
     cur_data = replicate vs 0, cur_data_flag = -1\<rparr>"

definition iterator_eq :: "TfcShmMapIterator \<Rightarrow> TfcShmMapIterator \<Rightarrow> bool" where
  "iterator_eq a b =
     (if it_live a \<noteq> it_live b then False
      else if \<not> it_live a \<and> \<not> it_live b then True
      else cur_key a = cur_key b)"

definition it_read :: "TfcShmMapIterator \<Rightarrow> CacheAccess \<Rightarrow> (TfcShmMapIterator \<times> CacheAccess) option" where
  "it_read it ca = do {
     ((rv, value), ca') \<leftarrow> base_get (cur_key it) (cur_data it) ca;
     Some (it\<lparr>cur_data := value, cur_data_flag := rv\<rparr>, ca')
   }"

definition init_begin :: "TfcShmMapIterator \<Rightarrow> CacheAccess \<Rightarrow> (TfcShmMapIterator \<times> CacheAccess) option" where
  "init_begin it ca =
     (case ca_oldest_key ca of
        (rv, None) \<Rightarrow> Some (it\<lparr>it_live := False, cur_data_flag := rv\<rparr>, ca)
      | (rv, Some (key, _)) \<Rightarrow>
          if rv \<noteq> 0 then Some (it\<lparr>it_live := False, first_key := key, cur_data_flag := rv\<rparr>, ca)
          else it_read (it\<lparr>it_live := True, first_key := key, cur_key := key, cur_data_flag := rv\<rparr>) ca)"

definition it_step :: "TfcShmMapIterator \<Rightarrow> CacheAccess \<Rightarrow> (TfcShmMapIterator \<times> CacheAccess) option" where
  "it_step it ca =
     (if \<not> it_live it then Some (it, ca)
      else case ca_oldest_key ca of
        (rv, None) \<Rightarrow> Some (it\<lparr>it_live := False, cur_data_flag := rv\<rparr>, ca)
      | (rv, Some (key, _)) \<Rightarrow>
          let it1 = it\<lparr>cur_key := key, cur_data_flag := rv\<rparr>
          in if rv = 0
             then if first_key it = key then Some (it1\<lparr>it_live := False\<rparr>, ca) else it_read it1 ca
             else Some (it1\<lparr>it_live := False\<rparr>, ca))"

definition it_extract :: "byte list \<Rightarrow> TfcShmMapIterator \<Rightarrow> int \<times> byte list" where
  "it_extract dest it = (cur_data_flag it, if cur_data_flag it = 0 then cur_data it else dest)"

section \<open>Walking over the map\<close>

text \<open>The loop \<open>for (it = m.begin(); it != m.end(); it++)\<close> with what it reads at each position: the key, the
  result of \<open>extract\<close> and the value.\<close>

partial_function (option) walk ::
    "TfcShmMapIterator \<Rightarrow> CacheAccess \<Rightarrow> (byte list \<times> int \<times> byte list) list \<Rightarrow>
     ((byte list \<times> int \<times> byte list) list \<times> CacheAccess) option" where
  "walk it ca acc =
     (if iterator_eq it ((iterator_new 0)\<lparr>it_live := False\<rparr>) then Some (acc, ca)
      else do {
        (it', ca') \<leftarrow> it_step it ca;
        walk it' ca' (acc @ [(cur_key it, it_extract [] it)])
      })"

lemma iterator_end: "iterator_eq it ((iterator_new 0)\<lparr>it_live := False\<rparr>) \<longleftrightarrow> \<not> it_live it"
  by (simp add: iterator_eq_def)

lemma hm_ok_tail: "hm_ok c L V \<Longrightarrow> get_add_list_tail c = node_handler2ptr (last_of L)"
  by (auto simp: hm_ok_def hm_order_def order_ok_def dll_def get_add_list_tail_def dest!: chain_first)

lemma hm_ok_valid: "hm_ok c L V \<Longrightarrow> n \<in> set L \<Longrightarrow> n \<noteq> -1"
  by (auto simp: hm_ok_def dest: hm_used_node(1))

lemma oldest_rep:
  assumes "cache_rep (m_cache s) es"
  shows "es = [] \<Longrightarrow> ca_oldest_key s = (1, None)"
    and "es = xs @ [e] \<Longrightarrow> \<exists>info. ca_oldest_key s = (0, Some (e_key e, info))"
proof -
  from assms obtain L V where ok: "hm_ok (m_cache s) L V" and es: "es = map V L" by (auto simp: cache_rep_def)
  show "ca_oldest_key s = (1, None)" if "es = []"
    using hm_ok_tail [OF ok] es that by (simp add: ca_oldest_key_def node_handler2ptr_def)
  assume "es = xs @ [e]"
  then have "L \<noteq> []" "V (last L) = e" using es last_map [of L V] by (cases L; simp)+
  then obtain L' n where L: "L = L' @ [n]" "V n = e" by (metis append_butlast_last_id)
  then have "n \<noteq> -1" "m_key (m_hash_node (m_cache s) n) = e_key e"
    using hm_ok_valid [OF ok, of n] hm_ok_fields(1) [OF ok, of n] by simp_all
  then show "\<exists>info. ca_oldest_key s = (0, Some (e_key e, info))"
    using hm_ok_tail [OF ok] L(1) by (simp add: ca_oldest_key_def node_handler2ptr_def node_info_def)
qed

lemma touch_last:
  assumes "distinct (map e_key (xs @ [e]))"
  shows "lru_find (e_key e) (xs @ [e]) = Some e" and "lru_touch (e_key e) (xs @ [e]) = e # xs"
proof -
  have x: "\<forall>x\<in>set xs. e_key x \<noteq> e_key e" using assms by (auto simp: image_iff)
  then have n: "find (\<lambda>x. e_key x = e_key e) xs = None" by (auto simp: find_None_iff)
  have "find P (as @ [b]) = (case find P as of None \<Rightarrow> if P b then Some b else None | Some a \<Rightarrow> Some a)"
    for P :: "entry \<Rightarrow> bool" and as b by (induction as) auto
  with n show 1: "lru_find (e_key e) (xs @ [e]) = Some e" by (simp add: lru_find_def)
  have "filter (\<lambda>x. e_key x \<noteq> e_key e) xs = xs" using x by (intro filter_True) simp
  then show "lru_touch (e_key e) (xs @ [e]) = e # xs" using 1 by (simp add: lru_touch_def lru_drop_def)
qed

definition typed :: "nat \<Rightarrow> entry \<Rightarrow> bool" where
  "typed vs e \<longleftrightarrow> length (e_key e) = 16 \<and> length (e_data e) = vs"

lemma it_read_last:
  assumes "cache_rep (m_cache s) (xs @ [e])" and "typed (length (cur_data it)) e" and "cur_key it = e_key e" and "length (cur_data it) < 2 ^ 31"
  shows "\<exists>c. it_read it s = Some (it\<lparr>cur_data := e_data e, cur_data_flag := 0\<rparr>, s\<lparr>m_cache := c\<rparr>) \<and> cache_rep c (e # xs)"
proof -
  note t = touch_last [OF cache_rep_distinct [OF assms(1)]]
  have k: "length (e_key e) = 16" "length (e_data e) = length (cur_data it)" using assms(2) by (simp_all add: typed_def)
  from find_node_rep(2) [OF assms(1) t(1)] obtain n c where c: "find_node (e_key e) (m_cache s) = Some (Some n, c)"
    "node_rep c n e (lru_drop (e_key e) (xs @ [e]))" by blast
  moreover have "cache_rep c (e # xs)" using node_rep_cache [OF c(2)] t by (simp add: lru_touch_def)
  ultimately show ?thesis using read_node_rep(1) [OF c(2) assms(4)] k
    by (intro exI [of _ c]) (simp add: it_read_def base_get_def ca_get_def hash_key_id assms(3))
qed

text \<open>In the middle of a walk: the entries \<open>done\<close> were read and are in front.\<close>

lemma walk_rest:
  assumes "cache_rep (m_cache s) (done @ todo)" and "done \<noteq> []" and "\<forall>e\<in>set (done @ todo). typed vs e" and "vs < 2 ^ 31"
    and "it = \<lparr>it_live = True, first_key = e_key (last done), cur_key = e_key (hd done), cur_data = e_data (hd done), cur_data_flag = 0\<rparr>"
  shows "\<exists>c. walk it s acc = Some (acc @ map (\<lambda>e. (e_key e, 0, e_data e)) (hd done # rev todo), s\<lparr>m_cache := c\<rparr>) \<and> cache_rep c (todo @ done)"
  using assms
proof (induction todo arbitrary: s "done" it acc rule: rev_induct)
  case Nil
  then obtain ds d where d: "done = ds @ [d]" by (metis rev_exhaust)
  from oldest_rep(2) [of s "done" ds d] Nil.prems(1) d obtain info where "ca_oldest_key s = (0, Some (e_key d, info))" by auto
  then have "it_step it s = Some (it\<lparr>cur_key := e_key d, cur_data_flag := 0, it_live := False\<rparr>, s)"
    using Nil.prems(5) d by (simp add: it_step_def)
  then have "walk it s acc = Some (acc @ [(e_key (hd done), 0, e_data (hd done))], s\<lparr>m_cache := m_cache s\<rparr>)"
    using Nil.prems(5) by (subst walk.simps, simp add: iterator_end) (subst walk.simps, simp add: iterator_end it_extract_def)
  then show ?case using Nil.prems(1) by (intro exI [of _ "m_cache s"]) simp
next
  case (snoc e todo)
  have "distinct (map e_key (done @ todo @ [e]))" using snoc.prems(1) by (rule cache_rep_distinct)
  then have ne: "e_key (last done) \<noteq> e_key e" using last_in_set [OF snoc.prems(2)] by (auto simp: image_iff)
  from oldest_rep(2) [of s _ "done @ todo" e] snoc.prems(1) obtain info where o: "ca_oldest_key s = (0, Some (e_key e, info))" by auto
  define it1 where "it1 = it\<lparr>cur_key := e_key e, cur_data_flag := 0\<rparr>"
  have ty: "typed vs e" "length (cur_data it1) = vs" "cur_key it1 = e_key e"
    using snoc.prems(2,3,5) by (auto simp: it1_def typed_def)
  from it_read_last [of s "done @ todo" e it1] snoc.prems(1,4) ty obtain c1 where
    c1: "it_read it1 s = Some (it1\<lparr>cur_data := e_data e, cur_data_flag := 0\<rparr>, s\<lparr>m_cache := c1\<rparr>)" "cache_rep c1 ((e # done) @ todo)"
    by auto
  have step: "it_step it s = Some (it1\<lparr>cur_data := e_data e, cur_data_flag := 0\<rparr>, s\<lparr>m_cache := c1\<rparr>)"
    using o ne c1(1) snoc.prems(5) by (simp add: it_step_def it1_def)
  define acc1 where "acc1 = acc @ [(e_key (hd done), 0, e_data (hd done))]"
  have "\<exists>c. walk (it1\<lparr>cur_data := e_data e, cur_data_flag := 0\<rparr>) (s\<lparr>m_cache := c1\<rparr>) acc1 =
      Some (acc1 @ map (\<lambda>e. (e_key e, 0, e_data e)) (hd (e # done) # rev todo), s\<lparr>m_cache := c1, m_cache := c\<rparr>) \<and> cache_rep c (todo @ (e # done))"
    using snoc.prems c1(2) by (intro snoc.IH) (auto simp: it1_def)
  moreover have "walk it s acc = walk (it1\<lparr>cur_data := e_data e, cur_data_flag := 0\<rparr>) (s\<lparr>m_cache := c1\<rparr>) acc1"
    using step snoc.prems(5) by (subst walk.simps) (simp add: iterator_end acc1_def it_extract_def)
  ultimately show ?case by (simp add: acc1_def)
qed

lemma walk_all:
  assumes "cache_rep (m_cache s) es" and "\<forall>e\<in>set es. typed vs e" and "vs < 2 ^ 31"
  shows "\<exists>it s1 c. init_begin (iterator_new vs) s = Some (it, s1) \<and>
    walk it s1 [] = Some (map (\<lambda>e. (e_key e, 0, e_data e)) (rev es), s\<lparr>m_cache := c\<rparr>) \<and> cache_rep c es"
proof (cases es rule: rev_cases)
  case Nil
  then have "ca_oldest_key s = (1, None)" using oldest_rep(1) assms(1) by simp
  then show ?thesis using Nil assms(1) by (auto simp: init_begin_def walk.simps iterator_end intro!: exI [of _ "m_cache s"])
next
  case (snoc xs e)
  from oldest_rep(2) [of s es xs e] assms(1) snoc obtain info where o: "ca_oldest_key s = (0, Some (e_key e, info))" by auto
  define it0 where "it0 = (iterator_new vs)\<lparr>it_live := True, first_key := e_key e, cur_key := e_key e, cur_data_flag := 0\<rparr>"
  from it_read_last [of s xs e it0] assms snoc obtain c1 where
    c1: "it_read it0 s = Some (it0\<lparr>cur_data := e_data e, cur_data_flag := 0\<rparr>, s\<lparr>m_cache := c1\<rparr>)" "cache_rep c1 ([e] @ xs)"
    by (auto simp: it0_def iterator_new_def)
  define it where "it = it0\<lparr>cur_data := e_data e, cur_data_flag := 0\<rparr>"
  have "\<exists>c. walk it (s\<lparr>m_cache := c1\<rparr>) [] =
      Some ([] @ map (\<lambda>e. (e_key e, 0, e_data e)) (hd [e] # rev xs), s\<lparr>m_cache := c1, m_cache := c\<rparr>) \<and> cache_rep c (xs @ [e])"
    using c1(2) assms(2,3) snoc by (intro walk_rest) (auto simp: it_def it0_def iterator_new_def)
  moreover have "init_begin (iterator_new vs) s = Some (it, s\<lparr>m_cache := c1\<rparr>)"
    using o c1(1) by (simp add: init_begin_def it_def it0_def)
  ultimately show ?thesis using snoc by auto
qed

text \<open>C10. The iterator visits everything once. In a map whose values all have the size of the value type,
  the walk from \<open>begin\<close> to \<open>end\<close> ends, gives each entry exactly once, the least recently used one first,
  with its value, and although each step moves an entry to the front of the order of use, the cache
  afterwards holds the same entries in the same order as before.\<close>

theorem walk_visits_all:
  assumes "ca_rep s es R" and "\<forall>e\<in>set es. typed vs e" and "vs < 2 ^ 31"
  shows "\<exists>it s1 s'. init_begin (iterator_new vs) s = Some (it, s1) \<and>
    walk it s1 [] = Some (map (\<lambda>e. (e_key e, 0, e_data e)) (rev es), s') \<and> ca_rep s' es R"
  using walk_all [OF _ assms(2,3), of s] ca_rep_cache [OF assms(1)] assms(1) by (auto simp: ca_rep_def)

theorem walk_visits_all_witness:
  "\<exists>s it s1 s'. ca_set (uin_key 1) [1, 2, 3] 3 NODE_FLAG_DIRTY 7 demo_ca = Some (0, s) \<and>
    init_begin (iterator_new 3) s = Some (it, s1) \<and> walk it s1 [] = Some ([(uin_key 1, 0, [1, 2, 3])], s')"
proof -
  obtain s R where s: "ca_set (uin_key 1) [1, 2, 3] 3 NODE_FLAG_DIRTY 7 demo_ca = Some (0, s)"
    "ca_rep s [(new_entry (uin_key 1) [1, 2, 3] 7 0)\<lparr>e_flag := 1\<rparr>] R" using demo_set by blast
  then show ?thesis
    using walk_visits_all [OF s(2), of 3] by (fastforce simp: typed_def new_entry_def uin_key_def)
qed

end
