(* ===== verification/Store.thy ===== *)
theory Store
  imports ShmMap
begin

text \<open>
  What the statistics rely on: a map from keys of 16 bytes to values of one size, of limited capacity. The
  locale \<open>fixed_store\<close> states the contract of the three operations; the interpretations below
  discharge it for \<open>base_find\<close>, \<open>base_get\<close> and \<open>base_insert\<close> of the typed map over a cache that
  writes no log, which is how the statistics open it.
\<close>

locale fixed_store =
  fixes find_op :: "byte list \<Rightarrow> 's \<Rightarrow> (int \<times> 's) option"
    and get_op :: "byte list \<Rightarrow> byte list \<Rightarrow> 's \<Rightarrow> ((int \<times> byte list) \<times> 's) option"
    and insert_op :: "byte list \<Rightarrow> byte list \<Rightarrow> int \<Rightarrow> 's \<Rightarrow> (int \<times> 's) option"
    and rep :: "'s \<Rightarrow> (byte list \<rightharpoonup> byte list) \<Rightarrow> bool"
    and vs :: nat
    and cap :: "'s \<Rightarrow> nat"
  assumes find_rep: "rep s m \<Longrightarrow> length k = 16 \<Longrightarrow>
      \<exists>s'. find_op k s = Some (if m k = None then 1 else 0, s') \<and> rep s' m \<and> cap s' = cap s"
    and get_rep: "rep s m \<Longrightarrow> length k = 16 \<Longrightarrow> m k = Some v \<Longrightarrow> length buf = vs \<Longrightarrow>
      \<exists>s'. get_op k buf s = Some ((0, v), s') \<and> rep s' m \<and> cap s' = cap s"
    and insert_rep: "rep s m \<Longrightarrow> length k = 16 \<Longrightarrow> length v = vs \<Longrightarrow> m k \<noteq> None \<or> card (dom m) < cap s \<Longrightarrow>
      \<exists>s'. insert_op k v now s = Some (0, s') \<and> rep s' (m(k \<mapsto> v)) \<and> cap s' = cap s"
    and insert_full: "rep s m \<Longrightarrow> length k = 16 \<Longrightarrow> length v = vs \<Longrightarrow> m k = None \<Longrightarrow> cap s \<le> card (dom m) \<Longrightarrow>
      \<exists>s'. insert_op k v now s = Some (1, s') \<and> rep s' m \<and> cap s' = cap s"
    and value_size: "rep s m \<Longrightarrow> m k = Some v \<Longrightarrow> length v = vs"
    and finite_store: "rep s m \<Longrightarrow> finite (dom m)"

text \<open>
  A client that reads, changes and writes back one entry, or makes a new one: this is what each of the
  functions that count an event does. \<open>upd\<close> gives the new value from the old one, \<open>None\<close> if there was none.
\<close>

definition read_modify_write ::
    "(byte list \<Rightarrow> 's \<Rightarrow> (int \<times> 's) option) \<Rightarrow> (byte list \<Rightarrow> byte list \<Rightarrow> 's \<Rightarrow> ((int \<times> byte list) \<times> 's) option) \<Rightarrow>
     (byte list \<Rightarrow> byte list \<Rightarrow> int \<Rightarrow> 's \<Rightarrow> (int \<times> 's) option) \<Rightarrow>
     byte list \<Rightarrow> byte list \<Rightarrow> (byte list option \<Rightarrow> byte list) \<Rightarrow> int \<Rightarrow> 's \<Rightarrow> 's option" where
  "read_modify_write find_op get_op insert_op k garbage upd now s = do {
     (rv, s1) \<leftarrow> find_op k s;
     if rv > 0 then do { (_, s2) \<leftarrow> insert_op k (upd None) now s1; Some s2 }
     else if rv = 0
     then do {
       ((_, v), s2) \<leftarrow> get_op k garbage s1;
       (_, s3) \<leftarrow> insert_op k (upd (Some v)) now s2;
       Some s3
     }
     else Some s1
   }"

context fixed_store
begin

lemma read_modify_write_rep:
  assumes "rep s m" and "length k = 16" and "length garbage = vs" and "length (upd (m k)) = vs"
  shows "\<exists>s'. read_modify_write find_op get_op insert_op k garbage upd now s = Some s' \<and> cap s' = cap s \<and>
    rep s' (if m k \<noteq> None \<or> card (dom m) < cap s then m(k \<mapsto> upd (m k)) else m)"
proof -
  obtain s1 where s1: "find_op k s = Some (if m k = None then 1 else 0, s1)" "rep s1 m" "cap s1 = cap s"
    using find_rep [OF assms(1,2)] by blast
  show ?thesis
  proof (cases "m k")
    case None
    show ?thesis
    proof (cases "card (dom m) < cap s")
      case True
      then obtain s2 where "insert_op k (upd None) now s1 = Some (0, s2)" "rep s2 (m(k \<mapsto> upd None))" "cap s2 = cap s1"
        using insert_rep [OF s1(2) assms(2), of "upd None"] assms(4) None s1(3) by auto
      then show ?thesis using s1 None True by (simp add: read_modify_write_def)
    next
      case False
      then obtain s2 where "insert_op k (upd None) now s1 = Some (1, s2)" "rep s2 m" "cap s2 = cap s1"
        using insert_full [OF s1(2) assms(2), of "upd None"] assms(4) None s1(3) by auto
      then show ?thesis using s1 None False by (simp add: read_modify_write_def)
    qed
  next
    case (Some v)
    obtain s2 where s2: "get_op k garbage s1 = Some ((0, v), s2)" "rep s2 m" "cap s2 = cap s1"
      using get_rep [OF s1(2) assms(2) Some assms(3)] by blast
    obtain s3 where "insert_op k (upd (Some v)) now s2 = Some (0, s3)" "rep s3 (m(k \<mapsto> upd (Some v)))" "cap s3 = cap s2"
      using insert_rep [OF s2(2) assms(2), of "upd (Some v)"] assms(4) Some by auto
    then show ?thesis using s1 s2 Some by (simp add: read_modify_write_def)
  qed
qed

end

section \<open>The cache without a log\<close>

definition values_of :: "entry list \<Rightarrow> byte list \<rightharpoonup> byte list" where
  "values_of es k = map_option e_data (lru_find k es)"

definition store_rep :: "nat \<Rightarrow> CacheAccess \<Rightarrow> (byte list \<rightharpoonup> byte list) \<Rightarrow> bool" where
  "store_rep vs s m \<longleftrightarrow> m_cache_dump_min s < 0 \<and>
     (\<exists>es. cache_rep (m_cache s) es \<and> m = values_of es \<and> (\<forall>e \<in> set es. length (e_data e) = vs))"

definition store_cap :: "nat \<Rightarrow> CacheAccess \<Rightarrow> nat" where
  "store_cap vs s = (let g = hm_geom (m_cache s)
     in nat (min (fst (fst g)) (fst (snd g) div chunks_for (snd (snd g)) (int vs))))"

lemma values_of_dom: "dom (values_of es) = e_key ` set es"
proof -
  have "values_of es k = None \<longleftrightarrow> k \<notin> e_key ` set es" for k
    by (auto simp: values_of_def lru_find_def find_None_iff)
  then show ?thesis by (auto simp: dom_def)
qed

lemma values_of_card: "distinct (map e_key es) \<Longrightarrow> card (dom (values_of es)) = length es"
  unfolding values_of_dom using distinct_card [of "map e_key es"] by simp

lemma values_of_put:
  "values_of (e # lru_drop (e_key e) es) = (values_of es)(e_key e \<mapsto> e_data e)"
proof
  fix k
  have "find (\<lambda>x. e_key x = k) (filter (\<lambda>x. e_key x \<noteq> e_key e) es) = find (\<lambda>x. e_key x = k) es" if "k \<noteq> e_key e"
    using that by (induction es) auto
  then show "values_of (e # lru_drop (e_key e) es) k = ((values_of es)(e_key e \<mapsto> e_data e)) k"
    by (auto simp: values_of_def lru_find_def lru_drop_def)
qed

lemma lru_find_key: "lru_find k es = Some e \<Longrightarrow> e_key e = k \<and> e \<in> set es"
  by (auto simp: lru_find_def find_Some_iff)

lemma values_of_touch: "values_of (lru_touch k es) = values_of es"
proof (cases "lru_find k es")
  case (Some e)
  then have "e_key e = k" by (simp add: lru_find_key)
  then have "values_of (lru_touch k es) = (values_of es)(k \<mapsto> e_data e)" using Some values_of_put [of e es] by (simp add: lru_touch_def)
  moreover have "values_of es k = Some (e_data e)" using Some by (simp add: values_of_def)
  ultimately show ?thesis by auto
qed (simp add: lru_touch_def)

lemma set_touch: "set (lru_touch k es) \<subseteq> set es"
  by (auto simp: lru_touch_def lru_drop_def split: option.splits dest: lru_find_key)

lemma lru_used_fixed: "\<forall>e \<in> set es. length (e_data e) = vs \<Longrightarrow> lru_used g es = int (length es) * chunks_for (snd (snd g)) (int vs)"
  by (induction es) (simp_all add: lru_used_def cost_def algebra_simps)

lemma cache_rep_bounds:
  assumes "cache_rep c es"
  shows "0 < snd (snd (hm_geom c))" and "lru_used (hm_geom c) es \<le> fst (snd (hm_geom c))"
proof -
  from assms obtain L V where ok: "hm_ok c L V" "es = map V L" by (auto simp: cache_rep_def)
  show "0 < snd (snd (hm_geom c))" using hm_ok_chunk_size [OF ok(1)] by (simp add: hm_geom_def al_geom_def)
  from ok(1) obtain X C where "alloc_ok (m_allocator c) C" by (auto simp: hm_ok_def hm_values_def)
  then have "0 \<le> get_free_chunk_num (m_allocator c)"
    by (auto simp: alloc_ok_def get_free_chunk_num_def)
  then show "lru_used (hm_geom c) es \<le> fst (snd (hm_geom c))"
    using hm_ok_free(2) [OF ok(1)] ok(2) by (simp add: hm_geom_def al_geom_def)
qed

lemma le_div_iff:
  fixes c :: int
  assumes "0 < c"
  shows "a * c \<le> t \<longleftrightarrow> a \<le> t div c"
proof
  assume "a * c \<le> t"
  then have "a * c div c \<le> t div c" using assms by (intro zdiv_mono1)
  then show "a \<le> t div c" using assms by simp
next
  assume "a \<le> t div c"
  then have "a * c \<le> t div c * c" using assms by simp
  also have "\<dots> \<le> t" using assms pos_mod_sign [of c t] div_mult_mod_eq [of t c] by linarith
  finally show "a * c \<le> t" .
qed

text \<open>Whether a value of the fixed size can be stored is a matter of the capacity alone.\<close>

lemma lru_put_fixed:
  assumes "cache_rep (m_cache s) es" and "\<forall>e \<in> set es. length (e_data e) = vs" and "length v = vs" and "0 < vs"
  shows "lru_put (hm_geom (m_cache s)) k v now es = None \<longleftrightarrow> lru_find k es = None \<and> store_cap vs s \<le> length es"
proof -
  define g where "g = hm_geom (m_cache s)"
  define c where "c = chunks_for (snd (snd g)) (int vs)"
  note b = cache_rep_bounds [OF assms(1), folded g_def]
  have c: "0 < c" using chunks_for_bounds(3,4) [OF b(1), of "int vs"] assms(4) by (simp add: c_def)
  have used: "lru_used g es = int (length es) * c" using lru_used_fixed [OF assms(2)] by (simp add: c_def)
  have cost: "cost g v = c" using assms(3) by (simp add: cost_def c_def)
  show ?thesis
  proof (cases "lru_find k es")
    case None
    have "(int (length es) + 1) * c \<le> fst (snd g) \<longleftrightarrow> int (length es) + 1 \<le> fst (snd g) div c" by (rule le_div_iff [OF c])
    moreover have "v \<noteq> []" using assms(3,4) by auto
    ultimately have "lru_room g es v \<longleftrightarrow> int (length es) < min (fst (fst g)) (fst (snd g) div c)"
      by (simp add: lru_room_def used cost distrib_right add1_zle_eq)
    then show ?thesis using None by (auto simp: lru_put_def store_cap_def Let_def g_def c_def)
  next
    case (Some e)
    then have "e \<in> set es" "e_key e = k" by (auto dest: lru_find_key)
    then have "length (lru_drop k es) < length es" unfolding lru_drop_def by (intro length_filter_less) auto
    then have "(int (length (lru_drop k es)) + 1) * c \<le> int (length es) * c" using c by (intro mult_right_mono) auto
    moreover have "lru_used g (lru_drop k es) = int (length (lru_drop k es)) * c"
      using lru_used_fixed [of "lru_drop k es" vs g] assms(2) by (auto simp: c_def lru_drop_def)
    ultimately have "lru_fits g (lru_drop k es) v" using b(2) used cost by (simp add: lru_fits_def distrib_right)
    then show ?thesis using Some by (simp add: lru_put_def g_def)
  qed
qed

lemma store_repE:
  assumes "store_rep vs s m"
  obtains es where "cache_rep (m_cache s) es" "m = values_of es" "\<forall>e \<in> set es. length (e_data e) = vs" "m_cache_dump_min s < 0"
    "card (dom m) = length es"
  using assms values_of_card [OF cache_rep_distinct] by (auto simp: store_rep_def)

lemma store_rep_node:
  assumes "cache_rep c es'" and "m_cache_dump_min s < 0" and "\<forall>e \<in> set es'. length (e_data e) = vs" and "hm_geom c = hm_geom (m_cache s)"
  shows "store_rep vs (s\<lparr>m_cache := c\<rparr>) (values_of es')" and "hm_geom (m_cache (s\<lparr>m_cache := c\<rparr>)) = hm_geom (m_cache s)"
  using assms by (auto simp: store_rep_def store_cap_def)

lemma store_lookup:
  assumes "store_rep vs s m" and "m k = Some v"
  obtains es e n c where "find_node k (m_cache s) = Some (Some n, c)" "node_rep c n e (lru_drop k es)" "v = e_data e"
    "length v = vs" "store_rep vs (s\<lparr>m_cache := c\<rparr>) m" "hm_geom (m_cache (s\<lparr>m_cache := c\<rparr>)) = hm_geom (m_cache s)"
proof -
  obtain es where es: "cache_rep (m_cache s) es" "m = values_of es" "\<forall>e \<in> set es. length (e_data e) = vs" "m_cache_dump_min s < 0"
    using assms(1) by (rule store_repE)
  obtain e where e: "lru_find k es = Some e" "v = e_data e" using assms(2) es(2) by (auto simp: values_of_def)
  from find_node_rep(2) [OF es(1) e(1)] obtain n c where c: "find_node k (m_cache s) = Some (Some n, c)"
    "node_rep c n e (lru_drop k es)" "hm_geom c = hm_geom (m_cache s)" by blast
  have "cache_rep c (lru_touch k es)" using node_rep_cache [OF c(2)] e(1) by (simp add: lru_touch_def)
  moreover have "\<forall>e \<in> set (lru_touch k es). length (e_data e) = vs" using es(3) set_touch [of k es] by blast
  ultimately have "store_rep vs (s\<lparr>m_cache := c\<rparr>) m" "hm_geom (m_cache (s\<lparr>m_cache := c\<rparr>)) = hm_geom (m_cache s)"
    using store_rep_node [of c "lru_touch k es" s vs] es(2,4) c(3) by (simp_all add: values_of_touch)
  then show thesis using that c(1,2) e(2) es(3) lru_find_key [OF e(1)] by simp
qed

lemma store_miss:
  assumes "store_rep vs s m" and "m k = None"
  shows "find_node k (m_cache s) = Some (None, m_cache s)"
proof -
  obtain es where es: "cache_rep (m_cache s) es" "m = values_of es" using assms(1) by (rule store_repE)
  then show ?thesis using find_node_rep(1) [OF es(1)] assms(2) by (simp add: values_of_def)
qed

lemma store_find:
  assumes "store_rep vs s m" and "length k = 16"
  shows "\<exists>s'. base_find k s = Some (if m k = None then 1 else 0, s') \<and> store_rep vs s' m \<and> hm_geom (m_cache s') = hm_geom (m_cache s)"
proof (cases "m k")
  case None
  then show ?thesis using store_miss [OF assms(1) None] assms
    by (intro exI [of _ s]) (simp add: base_find_def ca_get_key_def hash_key_id)
next
  case (Some v)
  from assms(1) Some show ?thesis
  proof (rule store_lookup)
    fix es e n c
    assume "find_node k (m_cache s) = Some (Some n, c)" "store_rep vs (s\<lparr>m_cache := c\<rparr>) m"
      "hm_geom (m_cache (s\<lparr>m_cache := c\<rparr>)) = hm_geom (m_cache s)"
    then show ?thesis using Some assms(2)
      by (intro exI [of _ "s\<lparr>m_cache := c\<rparr>"]) (simp add: base_find_def ca_get_key_def hash_key_id)
  qed
qed

lemma store_get:
  assumes "store_rep vs s m" and "length k = 16" and "m k = Some v" and "length buf = vs" and "vs < 2 ^ 31"
  shows "\<exists>s'. base_get k buf s = Some ((0, v), s') \<and> store_rep vs s' m \<and> hm_geom (m_cache s') = hm_geom (m_cache s)"
  using assms(1,3)
proof (rule store_lookup)
  fix es e n c
  assume c: "find_node k (m_cache s) = Some (Some n, c)" "node_rep c n e (lru_drop k es)" "v = e_data e"
    "length v = vs" "store_rep vs (s\<lparr>m_cache := c\<rparr>) m" "hm_geom (m_cache (s\<lparr>m_cache := c\<rparr>)) = hm_geom (m_cache s)"
  then show ?thesis using assms read_node_rep(1) [OF c(2), of buf]
    by (intro exI [of _ "s\<lparr>m_cache := c\<rparr>"]) (simp add: base_get_def ca_get_def hash_key_id)
qed

lemma store_put:
  assumes "store_rep vs s m" and "length k = 16" and "length v = vs" and "0 < vs" and "vs < 2 ^ 31"
  shows "m k \<noteq> None \<or> card (dom m) < store_cap vs s \<Longrightarrow>
      \<exists>s'. base_insert k v now s = Some (0, s') \<and> store_rep vs s' (m(k \<mapsto> v)) \<and> hm_geom (m_cache s') = hm_geom (m_cache s)"
    and "m k = None \<Longrightarrow> store_cap vs s \<le> card (dom m) \<Longrightarrow>
      \<exists>s'. base_insert k v now s = Some (1, s') \<and> store_rep vs s' m \<and> hm_geom (m_cache s') = hm_geom (m_cache s)"
proof -
  obtain es where es: "cache_rep (m_cache s) es" "m = values_of es" "\<forall>e \<in> set es. length (e_data e) = vs" "m_cache_dump_min s < 0"
    "card (dom m) = length es" using assms(1) by (rule store_repE)
  have len: "c_int (int vs) = int vs" using assms(5) by (intro c_int_small) simp_all
  have v: "0 \<le> int vs" "nat (int vs) \<le> length v" "take (nat (int vs)) v = v" using assms(3) by simp_all
  note st = store_node_rep [OF es(1) v(1,2), of k, unfolded v(3)]
  note put = lru_put_fixed [OF es(1,3) assms(3,4), of k now]
  have find: "m k = None \<longleftrightarrow> lru_find k es = None" by (simp add: es(2) values_of_def)
  show "\<exists>s'. base_insert k v now s = Some (1, s') \<and> store_rep vs s' m \<and> hm_geom (m_cache s') = hm_geom (m_cache s)"
    if "m k = None" "store_cap vs s \<le> card (dom m)"
  proof -
    have "lru_put (hm_geom (m_cache s)) k v now es = None" using that put find es(5) by simp
    then obtain c where c: "store_node k v (int vs) now (m_cache s) = Some (None, c)" "cache_rep c (lru_touch k es)"
      "hm_geom c = hm_geom (m_cache s)" using st(1) by blast
    have "lru_touch k es = es" using that find by (simp add: lru_touch_def)
    then show ?thesis using c store_rep_node [of c es s vs] es assms(2,3) len
      by (intro exI [of _ "s\<lparr>m_cache := c\<rparr>"]) (simp add: base_insert_def ca_set_def hash_key_id)
  qed
  assume "m k \<noteq> None \<or> card (dom m) < store_cap vs s"
  then have "lru_put (hm_geom (m_cache s)) k v now es \<noteq> None" using put find es(5) by auto
  then obtain e es' where e: "lru_put (hm_geom (m_cache s)) k v now es = Some (e, es')" by auto
  then obtain n c where c: "store_node k v (int vs) now (m_cache s) = Some (Some n, c)" "node_rep c n e es'"
    "hm_geom c = hm_geom (m_cache s)" using st(2) [OF e] by blast
  define c' where "c' = set_node_flag n NODE_FLAG_DIRTY c"
  have r: "cache_rep c' (e\<lparr>e_flag := flag_code NODE_FLAG_DIRTY\<rparr> # es')" "hm_geom c' = hm_geom (m_cache s)"
    using node_rep_cache [OF node_rep_flag [OF c(2), of NODE_FLAG_DIRTY]] c(3) by (simp_all add: c'_def frame_simps)
  have "es = lru_drop k es" if "lru_find k es = None"
    using that by (auto simp: lru_drop_def lru_find_def find_None_iff intro!: filter_True [symmetric])
  then have "e_key e = k \<and> e_data e = v \<and> es' = lru_drop k es"
    using e by (auto simp: lru_put_def new_entry_def split: option.splits if_splits dest: lru_find_key)
  then have v': "values_of (e\<lparr>e_flag := flag_code NODE_FLAG_DIRTY\<rparr> # es') = m(k \<mapsto> v)"
    "\<forall>x \<in> set (e\<lparr>e_flag := flag_code NODE_FLAG_DIRTY\<rparr> # es'). length (e_data x) = vs"
    using values_of_put [of "e\<lparr>e_flag := flag_code NODE_FLAG_DIRTY\<rparr>" es] es(2,3) assms(3) by (auto simp: lru_drop_def)
  note store_rep_node [OF r(1) es(4) v'(2) r(2), unfolded v'(1)]
  then show "\<exists>s'. base_insert k v now s = Some (0, s') \<and> store_rep vs s' (m(k \<mapsto> v)) \<and> hm_geom (m_cache s') = hm_geom (m_cache s)"
    using c(1) es(4) assms(2,3) len
    by (intro exI [of _ "s\<lparr>m_cache := c'\<rparr>"]) (simp add: base_insert_def ca_set_def hash_key_id c'_def)
qed

lemma store_cap_cong: "hm_geom (m_cache s') = hm_geom (m_cache s) \<Longrightarrow> store_cap vs s' = store_cap vs s"
  by (simp add: store_cap_def)

text \<open>The store of a cache of a given geometry, which no operation changes, and the store of a cache of any geometry.\<close>

interpretation geom_store: fixed_store base_find base_get base_insert "\<lambda>s m. store_rep 72 s m \<and> hm_geom (m_cache s) = g" 72 "store_cap 72" for g
proof
  fix s m k v buf now
  show "\<exists>s'. base_find k s = Some (if m k = None then 1 else 0, s') \<and> (store_rep 72 s' m \<and> hm_geom (m_cache s') = g) \<and> store_cap 72 s' = store_cap 72 s"
    if "(store_rep 72 s m \<and> hm_geom (m_cache s) = g)" "length k = 16"
    using store_find [of 72 s m k] that by (auto intro: store_cap_cong)
  show "\<exists>s'. base_get k buf s = Some ((0, v), s') \<and> (store_rep 72 s' m \<and> hm_geom (m_cache s') = g) \<and> store_cap 72 s' = store_cap 72 s"
    if "(store_rep 72 s m \<and> hm_geom (m_cache s) = g)" "length k = 16" "m k = Some v" "length buf = 72"
    using store_get [of 72 s m k v buf] that by (auto intro: store_cap_cong)
  show "\<exists>s'. base_insert k v now s = Some (0, s') \<and> (store_rep 72 s' (m(k \<mapsto> v)) \<and> hm_geom (m_cache s') = g) \<and> store_cap 72 s' = store_cap 72 s"
    if "(store_rep 72 s m \<and> hm_geom (m_cache s) = g)" "length k = 16" "length v = 72" "m k \<noteq> None \<or> card (dom m) < store_cap 72 s"
    using store_put(1) [of 72 s m k v now] that by (auto intro: store_cap_cong)
  show "\<exists>s'. base_insert k v now s = Some (1, s') \<and> (store_rep 72 s' m \<and> hm_geom (m_cache s') = g) \<and> store_cap 72 s' = store_cap 72 s"
    if "(store_rep 72 s m \<and> hm_geom (m_cache s) = g)" "length k = 16" "length v = 72" "m k = None" "store_cap 72 s \<le> card (dom m)"
    using store_put(2) [of 72 s m k v now] that by (auto intro: store_cap_cong)
  show "length v = 72" if "store_rep 72 s m \<and> hm_geom (m_cache s) = g" "m k = Some v"
    using that store_lookup [of 72 s m k v] by blast
  show "finite (dom m)" if "store_rep 72 s m \<and> hm_geom (m_cache s) = g"
    using that by (auto simp: values_of_dom elim: store_repE)
qed

interpretation stat_store: fixed_store base_find base_get base_insert "store_rep 72" 72 "store_cap 72"
proof
  fix s m k v buf now
  note g = refl [of "hm_geom (m_cache s)"]
  show "\<exists>s'. base_find k s = Some (if m k = None then 1 else 0, s') \<and> store_rep 72 s' m \<and> store_cap 72 s' = store_cap 72 s"
    if "store_rep 72 s m" "length k = 16"
    using geom_store.find_rep [OF conjI [OF that(1) g] that(2)] by blast
  show "\<exists>s'. base_get k buf s = Some ((0, v), s') \<and> store_rep 72 s' m \<and> store_cap 72 s' = store_cap 72 s"
    if "store_rep 72 s m" "length k = 16" "m k = Some v" "length buf = 72"
    using geom_store.get_rep [OF conjI [OF that(1) g] that(2-)] by blast
  show "\<exists>s'. base_insert k v now s = Some (0, s') \<and> store_rep 72 s' (m(k \<mapsto> v)) \<and> store_cap 72 s' = store_cap 72 s"
    if "store_rep 72 s m" "length k = 16" "length v = 72" "m k \<noteq> None \<or> card (dom m) < store_cap 72 s"
    using geom_store.insert_rep [OF conjI [OF that(1) g] that(2-)] by blast
  show "\<exists>s'. base_insert k v now s = Some (1, s') \<and> store_rep 72 s' m \<and> store_cap 72 s' = store_cap 72 s"
    if "store_rep 72 s m" "length k = 16" "length v = 72" "m k = None" "store_cap 72 s \<le> card (dom m)"
    using geom_store.insert_full [OF conjI [OF that(1) g] that(2-)] by blast
  show "length v = 72" if "store_rep 72 s m" "m k = Some v" using geom_store.value_size [OF conjI [OF that(1) g] that(2)] .
  show "finite (dom m)" if "store_rep 72 s m" using geom_store.finite_store [OF conjI [OF that g]] .
qed

section \<open>Entries of any size\<close>

text \<open>A cache that does not log, with entries of any size: what one call does to the list of entries.\<close>

definition plain_rep :: "CacheAccess \<Rightarrow> entry list \<Rightarrow> bool" where
  "plain_rep s es \<longleftrightarrow> m_cache_dump_min s < 0 \<and> cache_rep (m_cache s) es"

lemma plain_step:
  assumes "plain_rep s es" and "cache_rep c es'" and "hm_geom c = hm_geom (m_cache s)"
  shows "plain_rep (s\<lparr>m_cache := c\<rparr>) es'" and "hm_geom (m_cache (s\<lparr>m_cache := c\<rparr>)) = hm_geom (m_cache s)"
  using assms by (simp_all add: plain_rep_def)

lemma plain_get_key:
  assumes "plain_rep s es" and "length k = 16"
  shows "\<exists>info s'. ca_get_key k s = Some ((if lru_find k es = None then 1 else 0, info), s') \<and> plain_rep s' (lru_touch k es) \<and>
    hm_geom (m_cache s') = hm_geom (m_cache s)"
proof (cases "lru_find k es")
  case None
  then have "find_node k (m_cache s) = Some (None, m_cache s)" using find_node_rep(1) [of "m_cache s" es k] assms(1) by (simp add: plain_rep_def)
  then show ?thesis using None assms by (simp add: ca_get_key_def hash_key_id lru_touch_def)
next
  case (Some e)
  from find_node_rep(2) [OF _ Some, of "m_cache s"] assms(1) obtain n c where c: "find_node k (m_cache s) = Some (Some n, c)"
    "node_rep c n e (lru_drop k es)" "hm_geom c = hm_geom (m_cache s)" by (auto simp: plain_rep_def)
  then show ?thesis using Some assms plain_step [OF assms(1) node_rep_cache [OF c(2)] c(3)]
    by (simp add: ca_get_key_def hash_key_id lru_touch_def)
qed

lemma plain_get:
  assumes "plain_rep s es" and "length k = 16" and "lru_find k es = Some e" and "length buf < 2 ^ 31" and "n = int (length buf)"
  shows "\<exists>r s'. ca_get k buf n s = Some ((if length (e_data e) \<le> length buf then 0 else -2, Some r), s') \<and>
    g_buf r = (if length (e_data e) \<le> length buf then e_data e @ drop (length (e_data e)) buf else buf) \<and>
    plain_rep s' (lru_touch k es) \<and> hm_geom (m_cache s') = hm_geom (m_cache s)"
proof -
  from find_node_rep(2) [OF _ assms(3), of "m_cache s"] assms(1) obtain m c where c: "find_node k (m_cache s) = Some (Some m, c)"
    "node_rep c m e (lru_drop k es)" "hm_geom c = hm_geom (m_cache s)" by (auto simp: plain_rep_def)
  then show ?thesis using assms plain_step [OF assms(1) node_rep_cache [OF c(2)] c(3)] read_node_rep [OF c(2) assms(4)]
    by (cases "length (e_data e) \<le> length buf") (simp_all add: ca_get_def hash_key_id lru_touch_def)
qed

lemma plain_set:
  assumes "plain_rep s es" and "length k = 16" and "length v < 2 ^ 31" and "n = int (length v)"
  shows "\<exists>rv s'. ca_set k v n NODE_FLAG_DIRTY now s = Some (rv, s') \<and> hm_geom (m_cache s') = hm_geom (m_cache s) \<and>
    plain_rep s' (case lru_put (hm_geom (m_cache s)) k v now es of None \<Rightarrow> lru_touch k es | Some (e, es') \<Rightarrow> e\<lparr>e_flag := 1\<rparr> # es')"
proof -
  have len: "c_int n = n" using assms(3,4) by (intro c_int_small) simp_all
  have v: "0 \<le> n" "nat n \<le> length v" "take (nat n) v = v" using assms(4) by simp_all
  have c: "cache_rep (m_cache s) es" "m_cache_dump_min s < 0" using assms(1) by (simp_all add: plain_rep_def)
  note st = store_node_rep [OF c(1) v(1,2), of k, unfolded v(3)]
  show ?thesis
  proof (cases "lru_put (hm_geom (m_cache s)) k v now es")
    case None
    from st(1) [OF None] obtain c' where c': "store_node k v n now (m_cache s) = Some (None, c')" "cache_rep c' (lru_touch k es)"
      "hm_geom c' = hm_geom (m_cache s)" by blast
    then show ?thesis using None plain_step [OF assms(1) c'(2,3)] assms(2) len by (simp add: ca_set_def hash_key_id)
  next
    case (Some p)
    obtain e es' where p: "p = (e, es')" by fastforce
    from st(2) [OF Some [unfolded p]] obtain m c' where c': "store_node k v n now (m_cache s) = Some (Some m, c')" "node_rep c' m e es'"
      "hm_geom c' = hm_geom (m_cache s)" by blast
    have "cache_rep (set_node_flag m NODE_FLAG_DIRTY c') (e\<lparr>e_flag := 1\<rparr> # es')" "hm_geom (set_node_flag m NODE_FLAG_DIRTY c') = hm_geom (m_cache s)"
      using node_rep_cache [OF node_rep_flag [OF c'(2), of NODE_FLAG_DIRTY]] c'(3) by (simp_all add: frame_simps)
    from plain_step [OF assms(1) this] show ?thesis using Some p c'(1) c(2) assms(2) len by (simp add: ca_set_def hash_key_id)
  qed
qed

section \<open>The expiry time of an update\<close>



end
