(* ===== verification/Murmur.thy ===== *)
theory Murmur
  imports Prelude
begin

unbundle bit_operations_syntax

text \<open>
  The hash functions (\<open>cdb/MurmurHash3.cpp\<close>). Data is the list of its bytes, \<open>len\<close> is its length, and the
  128-bit results are given as the bytes stored to \<open>out\<close> on a little-endian machine. The switch over
  the tail falls through from the last byte to the first: \<open>xor_tail\<close> is one group of its cases.
\<close>

definition rotl32 :: "32 word \<Rightarrow> nat \<Rightarrow> 32 word" where
  "rotl32 x r = push_bit r x OR drop_bit (32 - r) x"

definition rotl64 :: "64 word \<Rightarrow> nat \<Rightarrow> 64 word" where
  "rotl64 x r = push_bit r x OR drop_bit (64 - r) x"

definition getblock32 :: "byte list \<Rightarrow> nat \<Rightarrow> 32 word" where
  "getblock32 p i = of_nat (le_nat (take 4 (drop (4 * i) p)))"

definition getblock64 :: "byte list \<Rightarrow> nat \<Rightarrow> 64 word" where
  "getblock64 p i = of_nat (le_nat (take 8 (drop (8 * i) p)))"

definition fmix32 :: "32 word \<Rightarrow> 32 word" where
  "fmix32 h =
     (let h = h XOR drop_bit 16 h;
          h = h * 0x85ebca6b;
          h = h XOR drop_bit 13 h;
          h = h * 0xc2b2ae35
      in h XOR drop_bit 16 h)"

definition fmix64 :: "64 word \<Rightarrow> 64 word" where
  "fmix64 k =
     (let k = k XOR drop_bit 33 k;
          k = k * 0xff51afd7ed558ccd;
          k = k XOR drop_bit 33 k;
          k = k * 0xc4ceb9fe1a85ec53
      in k XOR drop_bit 33 k)"

definition xor_tail :: "byte list \<Rightarrow> nat \<Rightarrow> nat \<Rightarrow> 'w::len word" where
  "xor_tail tail lo n = foldl (\<lambda>k i. k XOR push_bit (8 * (i - lo)) (ucast (tail ! i))) 0 (rev [lo..<n])"

section \<open>The 32-bit hash\<close>

definition mix32 :: "32 word \<Rightarrow> 32 word" where
  "mix32 k1 = rotl32 (k1 * 0xcc9e2d51) 15 * 0x1b873593"

definition x86_32_block :: "byte list \<Rightarrow> nat \<Rightarrow> 32 word \<Rightarrow> 32 word" where
  "x86_32_block data i h1 = rotl32 (h1 XOR mix32 (getblock32 data i)) 13 * 5 + 0xe6546b64"

definition MurmurHash3_x86_32 :: "byte list \<Rightarrow> 32 word \<Rightarrow> 32 word" where
  "MurmurHash3_x86_32 data seed =
     (let len = length data;
          nblocks = len div 4;
          h1 = fold (x86_32_block data) [0..<nblocks] seed;
          tail = drop (nblocks * 4) data;
          h1 = (if len mod 4 = 0 then h1 else h1 XOR mix32 (xor_tail tail 0 (len mod 4)))
      in fmix32 (h1 XOR of_nat len))"

section \<open>The 128-bit hash for 32-bit machines\<close>

definition mix_x86 :: "nat \<Rightarrow> 32 word \<Rightarrow> 32 word" where
  "mix_x86 j k =
     (if j = 1 then rotl32 (k * 0x239b961b) 15 * 0xab0e9789
      else if j = 2 then rotl32 (k * 0xab0e9789) 16 * 0x38b34ae5
      else if j = 3 then rotl32 (k * 0x38b34ae5) 17 * 0xa1e38b93
      else rotl32 (k * 0xa1e38b93) 18 * 0x239b961b)"

type_synonym x86_state = "32 word \<times> 32 word \<times> 32 word \<times> 32 word"

definition x86_128_block :: "byte list \<Rightarrow> nat \<Rightarrow> x86_state \<Rightarrow> x86_state" where
  "x86_128_block data i h = (case h of (h1, h2, h3, h4) \<Rightarrow>
     let h1 = h1 XOR mix_x86 1 (getblock32 data (i * 4 + 0));
         h1 = (rotl32 h1 19 + h2) * 5 + 0x561ccd1b;
         h2 = h2 XOR mix_x86 2 (getblock32 data (i * 4 + 1));
         h2 = (rotl32 h2 17 + h3) * 5 + 0x0bcaa747;
         h3 = h3 XOR mix_x86 3 (getblock32 data (i * 4 + 2));
         h3 = (rotl32 h3 15 + h4) * 5 + 0x96cd1c35;
         h4 = h4 XOR mix_x86 4 (getblock32 data (i * 4 + 3));
         h4 = (rotl32 h4 13 + h1) * 5 + 0x32ac3b17
     in (h1, h2, h3, h4))"

definition x86_128_tail :: "byte list \<Rightarrow> nat \<Rightarrow> x86_state \<Rightarrow> x86_state" where
  "x86_128_tail tail n h = (case h of (h1, h2, h3, h4) \<Rightarrow>
     (if n \<ge> 1 then h1 XOR mix_x86 1 (xor_tail tail 0 (min n 4)) else h1,
      if n \<ge> 5 then h2 XOR mix_x86 2 (xor_tail tail 4 (min n 8)) else h2,
      if n \<ge> 9 then h3 XOR mix_x86 3 (xor_tail tail 8 (min n 12)) else h3,
      if n \<ge> 13 then h4 XOR mix_x86 4 (xor_tail tail 12 n) else h4))"

definition x86_128_add :: "x86_state \<Rightarrow> x86_state" where
  "x86_128_add h = (case h of (h1, h2, h3, h4) \<Rightarrow> let h1 = h1 + h2 + h3 + h4 in (h1, h2 + h1, h3 + h1, h4 + h1))"

definition MurmurHash3_x86_128 :: "byte list \<Rightarrow> 32 word \<Rightarrow> byte list" where
  "MurmurHash3_x86_128 data seed =
     (let len = length data;
          nblocks = len div 16;
          h = fold (x86_128_block data) [0..<nblocks] (seed, seed, seed, seed);
          (h1, h2, h3, h4) = x86_128_tail (drop (nblocks * 16) data) (len mod 16) h;
          l = of_nat len;
          (h1, h2, h3, h4) = x86_128_add (h1 XOR l, h2 XOR l, h3 XOR l, h4 XOR l);
          (h1, h2, h3, h4) = x86_128_add (fmix32 h1, fmix32 h2, fmix32 h3, fmix32 h4)
      in le_bytes 4 (uint h1) @ le_bytes 4 (uint h2) @ le_bytes 4 (uint h3) @ le_bytes 4 (uint h4))"

section \<open>The 128-bit hash for 64-bit machines\<close>

definition mix1 :: "64 word \<Rightarrow> 64 word" where
  "mix1 k1 = rotl64 (k1 * 0x87c37b91114253d5) 31 * 0x4cf5ad432745937f"

definition mix2 :: "64 word \<Rightarrow> 64 word" where
  "mix2 k2 = rotl64 (k2 * 0x4cf5ad432745937f) 33 * 0x87c37b91114253d5"

definition x64_128_block :: "byte list \<Rightarrow> nat \<Rightarrow> 64 word \<times> 64 word \<Rightarrow> 64 word \<times> 64 word" where
  "x64_128_block data i h = (case h of (h1, h2) \<Rightarrow>
     let h1 = h1 XOR mix1 (getblock64 data (i * 2 + 0));
         h1 = (rotl64 h1 27 + h2) * 5 + 0x52dce729;
         h2 = h2 XOR mix2 (getblock64 data (i * 2 + 1));
         h2 = (rotl64 h2 31 + h1) * 5 + 0x38495ab5
     in (h1, h2))"

definition x64_128_tail :: "byte list \<Rightarrow> nat \<Rightarrow> 64 word \<times> 64 word \<Rightarrow> 64 word \<times> 64 word" where
  "x64_128_tail tail n h = (case h of (h1, h2) \<Rightarrow>
     (if n \<ge> 1 then h1 XOR mix1 (xor_tail tail 0 (min n 8)) else h1,
      if n \<ge> 9 then h2 XOR mix2 (xor_tail tail 8 n) else h2))"

definition MurmurHash3_x64_128 :: "byte list \<Rightarrow> 32 word \<Rightarrow> byte list" where
  "MurmurHash3_x64_128 data seed =
     (let len = length data;
          nblocks = len div 16;
          h = fold (x64_128_block data) [0..<nblocks] (ucast seed, ucast seed);
          (h1, h2) = x64_128_tail (drop (nblocks * 16) data) (len mod 16) h;
          h1 = h1 XOR of_nat len;
          h2 = h2 XOR of_nat len;
          h1 = h1 + h2;
          h2 = h2 + h1;
          h1 = fmix64 h1;
          h2 = fmix64 h2;
          h1 = h1 + h2;
          h2 = h2 + h1
      in le_bytes 8 (uint h1) @ le_bytes 8 (uint h2))"

section \<open>The tail is a block padded with zeros\<close>

lemma bit_low_high:
  assumes "(a :: nat) < 256"
  shows "bit (a + 256 * x) i \<longleftrightarrow> (if i < 8 then bit a i else bit x (i - 8))"
proof (cases "i < 8")
  case True
  have "(2 :: nat) ^ i * 2 ^ (8 - i) = 2 ^ (i + (8 - i))" by (rule power_add [symmetric])
  then have p: "(256 :: nat) = 2 ^ i * 2 ^ (8 - i)" using True by simp
  have "(a + 256 * x) div 2 ^ i = a div 2 ^ i + 2 ^ (8 - i) * x" unfolding p by (simp add: mult.assoc)
  moreover have "even ((2 :: nat) ^ (8 - i))" using True by simp
  ultimately show ?thesis using True by (simp add: bit_iff_odd)
next
  case False
  have "(2 :: nat) ^ 8 * 2 ^ (i - 8) = 2 ^ (8 + (i - 8))" by (rule power_add [symmetric])
  then have p: "(2 :: nat) ^ i = 256 * 2 ^ (i - 8)" using False by simp
  have "(a + 256 * x) div 2 ^ i = x div 2 ^ (i - 8)" unfolding p using assms by (simp add: div_mult2_eq)
  then show ?thesis using False by (simp add: bit_iff_odd)
qed

lemma bit_le_nat: "bit (le_nat bs) i \<longleftrightarrow> i div 8 < length bs \<and> bit (bs ! (i div 8)) (i mod 8)"
proof (induction bs arbitrary: i)
  case (Cons b bs)
  have "unat b < 256" using unsigned_less [of b, where ?'a = nat] by simp
  then have "bit (le_nat (b # bs)) i \<longleftrightarrow> (if i < 8 then bit (unat b) i else bit (le_nat bs) (i - 8))"
    by (simp add: bit_low_high)
  also have "\<dots> \<longleftrightarrow> i div 8 < length (b # bs) \<and> bit ((b # bs) ! (i div 8)) (i mod 8)"
  proof (cases "i < 8")
    case False
    then have "i div 8 = Suc ((i - 8) div 8)" "i mod 8 = (i - 8) mod 8" by (simp_all add: div_if mod_if)
    then show ?thesis using Cons.IH [of "i - 8"] False by simp
  qed (simp add: bit_unsigned_iff)
  finally show ?case .
qed simp

lemma foldl_xor: "foldl (\<lambda>k i. k XOR f i) a xs = a XOR foldl (\<lambda>k i. k XOR f i) (0 :: 'w::len word) xs"
proof (induction xs arbitrary: a)
  case (Cons x xs)
  from Cons.IH [of "a XOR f x"] Cons.IH [of "0 XOR f x"] show ?case by (simp add: xor.assoc)
qed simp

lemma bit_xor_tail:
  "bit (xor_tail tail lo n :: 'w::len word) i \<longleftrightarrow> i < LENGTH('w) \<and> lo + i div 8 < n \<and> bit (tail ! (lo + i div 8)) (i mod 8)"
proof (induction n)
  case (Suc n)
  show ?case
  proof (cases "lo \<le> n")
    case True
    have "(xor_tail tail lo (Suc n) :: 'w word) = push_bit (8 * (n - lo)) (ucast (tail ! n)) XOR xor_tail tail lo n"
      using True foldl_xor [of "\<lambda>i. push_bit (8 * (i - lo)) (ucast (tail ! i)) :: 'w word"
          "push_bit (8 * (n - lo)) (ucast (tail ! n))" "rev [lo..<n]"] by (simp add: xor_tail_def)
    moreover have "bit (push_bit (8 * (n - lo)) (ucast (tail ! n)) :: 'w word) i \<longleftrightarrow>
        i < LENGTH('w) \<and> lo + i div 8 = n \<and> bit (tail ! n) (i mod 8)"
    proof -
      have "8 * (n - lo) \<le> i \<and> i - 8 * (n - lo) < 8 \<longleftrightarrow> lo + i div 8 = n" using True by linarith
      moreover have "i - 8 * (n - lo) = i mod 8" if "lo + i div 8 = n" using that True by (metis add_diff_cancel_left' minus_mult_div_eq_mod)
      ultimately show ?thesis
        by (auto simp: bit_push_bit_iff bit_unsigned_iff dest: bit_imp_le_length)
    qed
    ultimately show ?thesis using Suc.IH by (auto simp: bit_xor_iff less_Suc_eq)
  qed (use Suc.IH in \<open>simp add: xor_tail_def\<close>)
qed (simp add: xor_tail_def)

lemma xor_tail_le_nat:
  assumes "n - lo \<le> length (drop lo tail)" and "lo \<le> n"
  shows "(xor_tail tail lo n :: 'w::len word) = of_nat (le_nat (take (n - lo) (drop lo tail)))"
proof (rule bit_word_eqI)
  fix i
  assume "i < LENGTH('w)"
  then show "bit (xor_tail tail lo n :: 'w word) i \<longleftrightarrow> bit (of_nat (le_nat (take (n - lo) (drop lo tail))) :: 'w word) i"
    using assms by (auto simp: bit_xor_tail bit_of_nat_iff bit_le_nat)
qed

lemma mix_zero [simp]: "mix1 0 = 0" "mix2 0 = 0"
  by (simp_all add: mix1_def mix2_def rotl64_def)

lemma le_nat_append_zeros [simp]: "le_nat (bs @ replicate k 0) = le_nat bs"
proof (induction bs)
  case Nil
  show ?case by (induction k) simp_all
qed simp

lemma le_nat_zeros [simp]: "le_nat (replicate k 0) = 0"
  using le_nat_append_zeros [of "[]" k] by simp

text \<open>C18. The tail is hashed as a block padded with zeros. The switch that falls through from the last
  byte of the tail to the first, with its two groups of cases, computes what the body computes for a
  block: the two little-endian words of the tail padded with zero bytes to 16, mixed into the state.\<close>

theorem murmur_tail_is_padded_block:
  assumes "length tail < 16"
  shows "x64_128_tail tail (length tail) (h1, h2) =
    (let block = tail @ replicate (16 - length tail) 0
     in (h1 XOR mix1 (getblock64 block 0), h2 XOR mix2 (getblock64 block 1)))"
proof -
  define n where "n = length tail"
  have 1: "xor_tail tail 0 (min n 8) = getblock64 (tail @ replicate (16 - n) 0) 0"
  proof (cases "n \<le> 8")
    case True
    then have "take 8 (tail @ replicate (16 - n) 0) = tail @ replicate (8 - n) 0" by (simp add: n_def)
    then show ?thesis using True by (simp add: xor_tail_le_nat getblock64_def n_def)
  next
    case False
    then show ?thesis by (simp add: xor_tail_le_nat getblock64_def n_def)
  qed
  have 2: "xor_tail tail 8 n = getblock64 (tail @ replicate (16 - n) 0) 1" if "8 < n"
  proof -
    have "take 8 (drop 8 (tail @ replicate (16 - n) 0)) = drop 8 tail @ replicate (16 - n) 0"
      using that assms by (simp add: n_def)
    then show ?thesis using that by (simp add: xor_tail_le_nat getblock64_def n_def)
  qed
  have 3: "getblock64 (tail @ replicate (16 - n) 0) 1 = 0" if "n \<le> 8"
    using that by (simp add: getblock64_def n_def)
  have 4: "getblock64 (tail @ replicate (16 - n) 0) 0 = 0" if "n = 0"
    using that by (simp add: getblock64_def n_def)
  show ?thesis
    using 1 2 3 4 by (auto simp: x64_128_tail_def Let_def n_def [symmetric] not_le)
qed

theorem murmur_tail_is_padded_block_witness:
  "x64_128_tail [1, 2, 3, 4, 5, 6, 7, 8, 9] 9 (7, 8) =
    (7 XOR mix1 (getblock64 [1, 2, 3, 4, 5, 6, 7, 8, 9, 0, 0, 0, 0, 0, 0, 0] 0),
     8 XOR mix2 (getblock64 [1, 2, 3, 4, 5, 6, 7, 8, 9, 0, 0, 0, 0, 0, 0, 0] 1))"
  using murmur_tail_is_padded_block [of "[1, 2, 3, 4, 5, 6, 7, 8, 9]" 7 8] by (simp add: numeral_eq_Suc Let_def)

section \<open>The finalisation loses nothing\<close>

lemma xorshift_involution: "(let y = x XOR drop_bit 33 x in y XOR drop_bit 33 y) = (x :: 64 word)"
  by (rule bit_word_eqI) (auto simp: Let_def bit_xor_iff bit_drop_bit_eq dest: bit_imp_le_length)

lemma bij_xorshift: "bij (\<lambda>x :: 64 word. x XOR drop_bit 33 x)"
  by (rule involuntory_imp_bij) (use xorshift_involution in \<open>simp add: Let_def\<close>)

lemma bij_times:
  assumes "c * c' = (1 :: 64 word)"
  shows "bij (\<lambda>x. x * c)"
proof (rule bij_betw_byWitness [where f' = "\<lambda>x. x * c'"])
  show "\<forall>x\<in>UNIV. x * c * c' = x" "\<forall>x\<in>UNIV. x * c' * c = x"
    using assms by (simp_all add: mult.assoc mult.commute [of c' c])
qed simp_all

text \<open>C30. The finalisation of the 64-bit hash is a bijection: states that differ before it differ
  after it.\<close>

theorem fmix64_bij: "bij fmix64"
proof -
  have 1: "bij (\<lambda>x :: 64 word. x * 0xff51afd7ed558ccd)" by (rule bij_times [where c' = "0x4f74430c22a54005"]) simp
  have 2: "bij (\<lambda>x :: 64 word. x * 0xc4ceb9fe1a85ec53)" by (rule bij_times [where c' = "0x9cb4b2f8129337db"]) simp
  have 3: "fmix64 = (\<lambda>x. x XOR drop_bit 33 x) \<circ> (\<lambda>x. x * 0xc4ceb9fe1a85ec53) \<circ> (\<lambda>x. x XOR drop_bit 33 x) \<circ>
      (\<lambda>x. x * 0xff51afd7ed558ccd) \<circ> (\<lambda>x. x XOR drop_bit 33 x)"
    by (simp add: fun_eq_iff fmix64_def Let_def)
  show ?thesis unfolding 3 by (intro bij_comp bij_xorshift 1 2)
qed

lemma murmur_length [simp]: "length (MurmurHash3_x64_128 data seed) = 16"
  by (simp add: MurmurHash3_x64_128_def Let_def split: prod.split)

end
