(* ===== verification/Stats.thy ===== *)
theory Stats
  imports Store Murmur
begin

unbundle bit_operations_syntax

text \<open>
  The statistics of the instance (\<open>cdb/cdb.h\<close>, the second half of \<open>cdb/cdb.cpp\<close>): counters and times of
  statements by type and result, of connections by address and result, and of statements by client. A
  \<open>double\<close> is its bit pattern; comparison is defined on the patterns, while addition \<open>fadd\<close> and the product
  with \<open>0.000001\<close> that turns microseconds into seconds, \<open>secs\<close>, are parameters. An \<open>int\<close> is a 32-bit word and
  wraps. The structures are packed, so an entry is the bytes of its fields. The cache is the one of the
  current shared memory of the pair; the calls run between locking and unlocking its mutex. What the
  functions print is not modelled.
\<close>

type_synonym double = "64 word"

definition dbl_mag :: "double \<Rightarrow> nat" where
  "dbl_mag x = unat (take_bit 63 x)"

definition dbl_nan :: "double \<Rightarrow> bool" where
  "dbl_nan x \<longleftrightarrow> dbl_mag x > 0x7FF0000000000000"

definition dbl_ord :: "double \<Rightarrow> int" where
  "dbl_ord x = (if bit x 63 then - int (dbl_mag x) else int (dbl_mag x))"

definition dbl_less :: "double \<Rightarrow> double \<Rightarrow> bool" where
  "dbl_less x y \<longleftrightarrow> \<not> dbl_nan x \<and> \<not> dbl_nan y \<and> dbl_ord x < dbl_ord y"

definition DBL_MAX :: double where
  "DBL_MAX = 0x7FEFFFFFFFFFFFFF"

record CDBCommStat =
  cs_total :: "32 word"
  cs_time_sum :: double
  cs_time_min :: double
  cs_time_max :: double
  cs_time_bucket :: "32 word list"

text \<open>0.02, 0.04, 0.06, 0.08, 0.1, 0.5, 1, 2, 10 and the placeholder.\<close>

definition time_bucket_threshold :: "double list" where
  "time_bucket_threshold =
    [0x3F947AE147AE147B, 0x3FA47AE147AE147B, 0x3FAEB851EB851EB8, 0x3FB47AE147AE147B, 0x3FB999999999999A,
     0x3FE0000000000000, 0x3FF0000000000000, 0x4000000000000000, 0x4024000000000000, DBL_MAX]"

definition time_bucket :: "double \<Rightarrow> nat option" where
  "time_bucket v =
     find (\<lambda>i. dbl_less (time_bucket_threshold ! i) v \<and> dbl_less v (time_bucket_threshold ! (i + 1))) [0..<9]"

definition cdb_comm_stat_add :: "(double \<Rightarrow> double \<Rightarrow> double) \<Rightarrow> CDBCommStat \<Rightarrow> double \<Rightarrow> bool \<Rightarrow> CDBCommStat" where
  "cdb_comm_stat_add fadd cs v init =
     (let cs = (if init
                then \<lparr>cs_total = 0, cs_time_sum = 0, cs_time_min = DBL_MAX, cs_time_max = 0, cs_time_bucket = replicate 9 0\<rparr>
                else cs);
          cs = cs\<lparr>cs_total := cs_total cs + 1\<rparr>;
          cs = cs\<lparr>cs_time_sum := fadd (cs_time_sum cs) v\<rparr>;
          cs = (if dbl_less v (cs_time_min cs) then cs\<lparr>cs_time_min := v\<rparr> else cs);
          cs = (if dbl_less (cs_time_max cs) v then cs\<lparr>cs_time_max := v\<rparr> else cs)
      in case time_bucket v of
           None \<Rightarrow> cs
         | Some i \<Rightarrow> cs\<lparr>cs_time_bucket := (cs_time_bucket cs)[i := cs_time_bucket cs ! i + 1]\<rparr>)"

section \<open>Entries as bytes\<close>

definition stat_bytes :: "CDBCommStat \<Rightarrow> byte list" where
  "stat_bytes cs = le_bytes 4 (uint (cs_total cs)) @ le_bytes 8 (uint (cs_time_sum cs)) @ le_bytes 8 (uint (cs_time_min cs)) @
     le_bytes 8 (uint (cs_time_max cs)) @ concat (map (\<lambda>b. le_bytes 4 (uint b)) (cs_time_bucket cs))"

definition stat_of_bytes :: "byte list \<Rightarrow> CDBCommStat" where
  "stat_of_bytes b = \<lparr>cs_total = of_nat (le_nat (take 4 b)), cs_time_sum = of_nat (le_nat (take 8 (drop 4 b))),
     cs_time_min = of_nat (le_nat (take 8 (drop 12 b))), cs_time_max = of_nat (le_nat (take 8 (drop 20 b))),
     cs_time_bucket = map (\<lambda>i. of_nat (le_nat (take 4 (drop (28 + 4 * i) b)))) [0..<9]\<rparr>"

definition MURMURHASH_SEED :: "32 word" where
  "MURMURHASH_SEED = 17"

definition hash_murmur :: "byte list \<Rightarrow> byte list" where
  "hash_murmur key = MurmurHash3_x64_128 key MURMURHASH_SEED"

section \<open>Counting an event\<close>

text \<open>
  The part that the three functions share, for a key of 8 bytes: \<open>cs\<close> is the statistics field of the argument,
  which is initialised when the key is new, and \<open>garbage\<close> is what the local entry holds before it is read.
\<close>

definition stat_entry_add ::
    "(double \<Rightarrow> double \<Rightarrow> double) \<Rightarrow> byte list \<Rightarrow> byte list \<Rightarrow> CDBCommStat \<Rightarrow> double \<Rightarrow> int \<Rightarrow> CacheAccess \<Rightarrow>
     (CDBCommStat \<times> CacheAccess) option" where
  "stat_entry_add fadd garbage key cs diff now ca = do {
     let m = cache_key hash_murmur key \<lparr>m_ca = ca, m_hash_key = replicate 16 0\<rparr>;
     (rv, m) \<leftarrow> map_find m;
     if rv > 0
     then do {
       let cs = cdb_comm_stat_add fadd cs diff True;
       (_, m) \<leftarrow> map_insert (key @ stat_bytes cs) now m;
       Some (cs, m_ca m)
     }
     else if rv = 0
     then do {
       ((_, entry), m) \<leftarrow> map_get garbage m;
       let st = cdb_comm_stat_add fadd (stat_of_bytes (drop 8 entry)) diff False;
       (_, m) \<leftarrow> map_insert (take 8 entry @ stat_bytes st) now m;
       Some (cs, m_ca m)
     }
     else Some (cs, m_ca m)
   }"

record CDBInsDml =
  id_type :: "32 word"
  id_result :: "32 word"
  id_comm_stat :: CDBCommStat

definition dml_key :: "CDBInsDml \<Rightarrow> byte list" where
  "dml_key op = le_bytes 4 (uint (id_type op)) @ le_bytes 4 (uint (id_result op))"

definition cdb_ins_dml_add ::
    "(double \<Rightarrow> double \<Rightarrow> double) \<Rightarrow> (64 word \<Rightarrow> double) \<Rightarrow> int \<Rightarrow> byte list \<Rightarrow> CDBInsDml \<Rightarrow> 64 word \<Rightarrow> 64 word \<Rightarrow> int \<Rightarrow>
     CacheAccess \<Rightarrow> (CDBInsDml \<times> CacheAccess) option" where
  "cdb_ins_dml_add fadd secs opt_cdb_stat_ins_dml garbage op begin_time end_time now ca =
     (if opt_cdb_stat_ins_dml = 0 then Some (op, ca)
      else do {
        let op_diff = secs (end_time - begin_time);
        (cs, ca') \<leftarrow> stat_entry_add fadd garbage (dml_key op) (id_comm_stat op) op_diff now ca;
        Some (op\<lparr>id_comm_stat := cs\<rparr>, ca')
      })"

record CDBInsConn =
  ic_ip :: "32 word"
  ic_result :: "32 word"
  ic_comm_stat :: CDBCommStat

definition conn_key :: "CDBInsConn \<Rightarrow> byte list" where
  "conn_key c = le_bytes 4 (uint (ic_ip c)) @ le_bytes 4 (uint (ic_result c))"

definition cdb_ins_conn_add ::
    "(double \<Rightarrow> double \<Rightarrow> double) \<Rightarrow> (64 word \<Rightarrow> double) \<Rightarrow> int \<Rightarrow> byte list \<Rightarrow> CDBInsConn \<Rightarrow> 64 word \<Rightarrow> 64 word \<Rightarrow> int \<Rightarrow>
     CacheAccess \<Rightarrow> (CDBInsConn \<times> CacheAccess) option" where
  "cdb_ins_conn_add fadd secs opt_cdb_stat_ins_conn garbage conn begin_time end_time now ca =
     (if opt_cdb_stat_ins_conn = 0 then Some (conn, ca)
      else do {
        let time_diff = secs (end_time - begin_time);
        (cs, ca') \<leftarrow> stat_entry_add fadd garbage (conn_key conn) (ic_comm_stat conn) time_diff now ca;
        Some (conn\<lparr>ic_comm_stat := cs\<rparr>, ca')
      })"

text \<open>The overload of \<open>cdb_ins_conn_add\<close> that takes the address and the result.\<close>

definition cdb_ins_conn_add_ip ::
    "(double \<Rightarrow> double \<Rightarrow> double) \<Rightarrow> (64 word \<Rightarrow> double) \<Rightarrow> int \<Rightarrow> byte list \<Rightarrow> CDBCommStat \<Rightarrow> 32 word \<Rightarrow> 32 word \<Rightarrow>
     64 word \<Rightarrow> 64 word \<Rightarrow> int \<Rightarrow> CacheAccess \<Rightarrow> CacheAccess option" where
  "cdb_ins_conn_add_ip fadd secs opt garbage junk ip result begin_time end_time now ca = do {
     (_, ca') \<leftarrow> cdb_ins_conn_add fadd secs opt garbage \<lparr>ic_ip = ip, ic_result = result, ic_comm_stat = junk\<rparr>
       begin_time end_time now ca;
     Some ca'
   }"

record CDBInsClientDml =
  icd_ip :: "32 word"
  icd_type :: "32 word"
  icd_comm_stat :: CDBCommStat

definition client_key :: "CDBInsClientDml \<Rightarrow> byte list" where
  "client_key op = le_bytes 4 (uint (icd_ip op)) @ le_bytes 4 (uint (icd_type op))"

definition cdb_ins_client_dml_add ::
    "(double \<Rightarrow> double \<Rightarrow> double) \<Rightarrow> (64 word \<Rightarrow> double) \<Rightarrow> int \<Rightarrow> byte list \<Rightarrow> CDBInsClientDml \<Rightarrow> 64 word \<Rightarrow> 64 word \<Rightarrow> int \<Rightarrow>
     CacheAccess \<Rightarrow> (CDBInsClientDml \<times> CacheAccess) option" where
  "cdb_ins_client_dml_add fadd secs opt_cdb_stat_client_dml garbage op begin_time end_time now ca =
     (if opt_cdb_stat_client_dml = 0 then Some (op, ca)
      else do {
        let op_diff = secs (end_time - begin_time);
        (cs, ca') \<leftarrow> stat_entry_add fadd garbage (client_key op) (icd_comm_stat op) op_diff now ca;
        Some (op\<lparr>icd_comm_stat := cs\<rparr>, ca')
      })"

section \<open>The bytes of an entry and its fields\<close>

definition stat_wf :: "CDBCommStat \<Rightarrow> bool" where
  "stat_wf cs \<longleftrightarrow> length (cs_time_bucket cs) = 9"

lemma word_of_le_bytes:
  "of_nat (le_nat (le_bytes 4 (uint (w :: 32 word)))) = w" "of_nat (le_nat (le_bytes 8 (uint (x :: 64 word)))) = x"
proof -
  have "int (le_nat (le_bytes 4 (uint w))) = uint w" using le_nat_le_bytes [of "uint w" 4] uint_lt2p [of w] by simp
  from arg_cong [where f = "of_int :: int \<Rightarrow> 32 word", OF this]
  show "of_nat (le_nat (le_bytes 4 (uint w))) = w" by (simp only: of_int_of_nat_eq of_int_uint ucast_id)
  have "int (le_nat (le_bytes 8 (uint x))) = uint x" using le_nat_le_bytes [of "uint x" 8] uint_lt2p [of x] by simp
  from arg_cong [where f = "of_int :: int \<Rightarrow> 64 word", OF this]
  show "of_nat (le_nat (le_bytes 8 (uint x))) = x" by (simp only: of_int_of_nat_eq of_int_uint ucast_id)
qed

lemma concat_blocks:
  assumes "\<And>b. length (f b) = k" and "i < length bs"
  shows "take k (drop (k * i) (concat (map f bs))) = f (bs ! i)"
  using assms(2)
proof (induction bs arbitrary: i)
  case (Cons b bs)
  then show ?case using assms(1) by (cases i) simp_all
qed simp

lemma stat_bytes_length: "stat_wf cs \<Longrightarrow> length (stat_bytes cs) = 64"
  by (simp add: stat_bytes_def stat_wf_def length_concat comp_def sum_list_triv)

lemma stat_bytes_roundtrip:
  assumes "stat_wf cs"
  shows "stat_of_bytes (stat_bytes cs) = cs"
proof -
  define B where "B = concat (map (\<lambda>b. le_bytes 4 (uint b)) (cs_time_bucket cs))"
  have d: "drop (28 + n) (stat_bytes cs) = drop n B" for n by (simp add: stat_bytes_def B_def)
  have "map (\<lambda>i. of_nat (le_nat (take 4 (drop (28 + 4 * i) (stat_bytes cs))))) [0..<9] = cs_time_bucket cs"
  proof (rule nth_equalityI)
    fix i
    assume "i < length (map (\<lambda>i. of_nat (le_nat (take 4 (drop (28 + 4 * i) (stat_bytes cs)))) :: 32 word) [0..<9])"
    then have "i < length (cs_time_bucket cs)" "i < 9" using assms by (simp_all add: stat_wf_def)
    then show "map (\<lambda>i. of_nat (le_nat (take 4 (drop (28 + 4 * i) (stat_bytes cs))))) [0..<9] ! i = cs_time_bucket cs ! i"
      using concat_blocks [of "\<lambda>b. le_bytes 4 (uint b)" 4 i "cs_time_bucket cs"] by (simp add: d B_def word_of_le_bytes)
  qed (use assms in \<open>simp add: stat_wf_def\<close>)
  then show ?thesis
    by (simp add: stat_of_bytes_def) (simp add: stat_bytes_def word_of_le_bytes)
qed

lemma comm_stat_add_wf: "init \<or> stat_wf cs \<Longrightarrow> stat_wf (cdb_comm_stat_add fadd cs v init)"
  by (auto simp: stat_wf_def cdb_comm_stat_add_def Let_def split: option.split)

lemma comm_stat_add_init: "cdb_comm_stat_add fadd cs v True = cdb_comm_stat_add fadd cs' v True"
  by (simp add: cdb_comm_stat_add_def)

lemma comm_stat_add_total:
  "cs_total (cdb_comm_stat_add fadd cs v init) = (if init then 1 else cs_total cs + 1)"
  by (simp add: cdb_comm_stat_add_def Let_def split: option.split)

section \<open>Buckets\<close>

lemma time_bucket_Some: "time_bucket v = Some i \<Longrightarrow> i < 9"
  by (auto simp: time_bucket_def find_Some_iff)

lemma sum_list_inc:
  fixes bs :: "32 word list"
  shows "i < length bs \<Longrightarrow> sum_list (bs[i := bs ! i + 1]) = sum_list bs + 1"
proof (induction bs arbitrary: i)
  case (Cons b bs)
  then show ?case by (cases i) (simp_all add: algebra_simps)
qed simp

lemma time_bucket_threshold_ord:
  "map dbl_ord time_bucket_threshold =
    [0x3F947AE147AE147B, 0x3FA47AE147AE147B, 0x3FAEB851EB851EB8, 0x3FB47AE147AE147B, 0x3FB999999999999A,
     0x3FE0000000000000, 0x3FF0000000000000, 0x4000000000000000, 0x4024000000000000, 0x7FEFFFFFFFFFFFFF]"
  "\<forall>t \<in> set time_bucket_threshold. \<not> dbl_nan t"
  by (simp_all add: time_bucket_threshold_def dbl_ord_def dbl_mag_def dbl_nan_def DBL_MAX_def bit_numeral_word_iff)

lemma between_none:
  fixes x :: int
  shows "sorted_wrt (<) (t # ts) \<Longrightarrow> (\<forall>i < length ts. \<not> ((t # ts) ! i < x \<and> x < ts ! i)) \<longleftrightarrow>
    x \<le> t \<or> last (t # ts) \<le> x \<or> x \<in> set (t # ts)"
proof (induction ts arbitrary: t)
  case (Cons u ts)
  have "(\<forall>i < length (u # ts). \<not> ((t # u # ts) ! i < x \<and> x < (u # ts) ! i)) \<longleftrightarrow>
      \<not> (t < x \<and> x < u) \<and> (\<forall>i < length ts. \<not> ((u # ts) ! i < x \<and> x < ts ! i))"
    by (simp add: All_less_Suc2)
  also have "\<dots> \<longleftrightarrow> \<not> (t < x \<and> x < u) \<and> (x \<le> u \<or> last (u # ts) \<le> x \<or> x \<in> set (u # ts))"
    using Cons by simp
  also have "\<dots> \<longleftrightarrow> x \<le> t \<or> last (t # u # ts) \<le> x \<or> x \<in> set (t # u # ts)"
    using Cons.prems last_in_set [of "u # ts"] by fastforce
  finally show ?case .
qed auto

lemma time_bucket_None:
  assumes "\<not> dbl_nan v"
  shows "time_bucket v = None \<longleftrightarrow>
    dbl_ord v \<le> dbl_ord (hd time_bucket_threshold) \<or> dbl_ord DBL_MAX \<le> dbl_ord v \<or> dbl_ord v \<in> dbl_ord ` set time_bucket_threshold"
proof -
  let ?T = "time_bucket_threshold"
  have T: "length ?T = 10" "last ?T = DBL_MAX" by (simp_all add: time_bucket_threshold_def)
  define t ts where "t = hd (map dbl_ord ?T)" and "ts = tl (map dbl_ord ?T)"
  have "map dbl_ord ?T \<noteq> []" using T(1) by auto
  then have t: "map dbl_ord ?T = t # ts" "length ts = 9" using T(1) by (simp_all add: t_def ts_def)
  have sorted: "sorted_wrt (<) (t # ts)" unfolding t(1) [symmetric] time_bucket_threshold_ord(1) by simp
  have nth: "dbl_ord (?T ! i) = (t # ts) ! i" if "i < 10" for i using that T(1) t(1) by (metis nth_map)
  have "(t # ts) ! (i + 1) = ts ! i" for i by simp
  moreover have "\<not> dbl_nan (?T ! i)" if "i < 10" for i using that T(1) time_bucket_threshold_ord(2) by simp
  ultimately have "time_bucket v = None \<longleftrightarrow> (\<forall>i < 9. \<not> ((t # ts) ! i < dbl_ord v \<and> dbl_ord v < ts ! i))"
    using assms nth by (auto simp: time_bucket_def find_None_iff dbl_less_def simp del: nth_Cons_Suc)
  also have "\<dots> \<longleftrightarrow> dbl_ord v \<le> t \<or> last (t # ts) \<le> dbl_ord v \<or> dbl_ord v \<in> set (t # ts)"
    using between_none [OF sorted, of "dbl_ord v"] unfolding t(2) .
  also have "last (t # ts) = dbl_ord DBL_MAX" using t(1) T by (metis last_map list.size(3) zero_neq_numeral)
  also have "set (t # ts) = dbl_ord ` set ?T" using t(1) by (metis list.set_map)
  also have "t = dbl_ord (hd ?T)" unfolding t_def using T(1) by (intro hd_map) auto
  finally show ?thesis .
qed



section \<open>The store of statistics\<close>

text \<open>
  What the entries say: a map from keys to statistics of limited capacity. The hash of a key must not be that
  of another key in use, the set \<open>K\<close>.
\<close>

definition stat_zero :: CDBCommStat where
  "stat_zero = \<lparr>cs_total = 0, cs_time_sum = 0, cs_time_min = 0, cs_time_max = 0, cs_time_bucket = []\<rparr>"

definition stat_event ::
    "(double \<Rightarrow> double \<Rightarrow> double) \<Rightarrow> nat \<Rightarrow> byte list \<times> double \<Rightarrow> (byte list \<rightharpoonup> CDBCommStat) \<Rightarrow> byte list \<rightharpoonup> CDBCommStat" where
  "stat_event fadd cap ev M = (case ev of (k, v) \<Rightarrow>
     if M k \<noteq> None \<or> card (dom M) < cap
     then M(k \<mapsto> (case M k of
                   None \<Rightarrow> cdb_comm_stat_add fadd stat_zero v True
                 | Some cs \<Rightarrow> cdb_comm_stat_add fadd cs v False))
     else M)"

definition stat_rep :: "byte list set \<Rightarrow> CacheAccess \<Rightarrow> (byte list \<rightharpoonup> CDBCommStat) \<Rightarrow> bool" where
  "stat_rep K s M \<longleftrightarrow> inj_on hash_murmur K \<and> (\<forall>k \<in> K. length k = 8) \<and> dom M \<subseteq> K \<and> (\<forall>cs \<in> ran M. stat_wf cs) \<and>
     (\<exists>m. store_rep 72 s m \<and> dom m = hash_murmur ` dom M \<and> (\<forall>k cs. M k = Some cs \<longrightarrow> m (hash_murmur k) = Some (k @ stat_bytes cs)))"

lemma stat_repI:
  assumes "inj_on hash_murmur K" and "\<forall>k \<in> K. length k = 8" and "dom M \<subseteq> K" and "\<forall>cs \<in> ran M. stat_wf cs"
    and "store_rep 72 s m" and "dom m = hash_murmur ` dom M" and "\<And>k cs. M k = Some cs \<Longrightarrow> m (hash_murmur k) = Some (k @ stat_bytes cs)"
  shows "stat_rep K s M"
  unfolding stat_rep_def using assms by blast

lemma stat_entry_add_rmw:
  "map_option snd (stat_entry_add fadd garbage key cs diff now ca) =
   read_modify_write base_find base_get base_insert (hash_murmur key) garbage
     (\<lambda>v. case v of None \<Rightarrow> key @ stat_bytes (cdb_comm_stat_add fadd cs diff True)
       | Some e \<Rightarrow> take 8 e @ stat_bytes (cdb_comm_stat_add fadd (stat_of_bytes (drop 8 e)) diff False)) now ca"
  by (simp add: stat_entry_add_def read_modify_write_def cache_key_def map_find_def map_insert_def map_get_def Let_def
      split: bind_split prod.split)

lemma stat_rep_lookup:
  assumes "stat_rep K s M" and "k \<in> K"
    and "store_rep 72 s m" and "dom m = hash_murmur ` dom M" and "\<forall>k cs. M k = Some cs \<longrightarrow> m (hash_murmur k) = Some (k @ stat_bytes cs)"
  shows "m (hash_murmur k) = map_option (\<lambda>cs. k @ stat_bytes cs) (M k)" and "card (dom m) = card (dom M)"
proof -
  have K: "inj_on hash_murmur K" "dom M \<subseteq> K" using assms(1) by (simp_all add: stat_rep_def)
  then have "hash_murmur k \<in> hash_murmur ` dom M \<longleftrightarrow> k \<in> dom M" using assms(2) by (simp add: inj_on_image_mem_iff)
  then show "m (hash_murmur k) = map_option (\<lambda>cs. k @ stat_bytes cs) (M k)"
    using assms(4,5) by (cases "M k") (auto simp: domIff)
  show "card (dom m) = card (dom M)" using K assms(4) card_image inj_on_subset by metis
qed

lemma stat_entry_add_rep:
  assumes "stat_rep K s M" and "k \<in> K" and "length garbage = 72"
  shows "\<exists>cs' s'. stat_entry_add fadd garbage k cs v now s = Some (cs', s') \<and> store_cap 72 s' = store_cap 72 s \<and>
    stat_rep K s' (stat_event fadd (store_cap 72 s) (k, v) M)"
proof -
  obtain m where m: "store_rep 72 s m" "dom m = hash_murmur ` dom M" "\<forall>k cs. M k = Some cs \<longrightarrow> m (hash_murmur k) = Some (k @ stat_bytes cs)"
    and K: "inj_on hash_murmur K" "\<forall>k \<in> K. length k = 8" "dom M \<subseteq> K" "\<forall>cs \<in> ran M. stat_wf cs"
    using assms(1) by (auto simp: stat_rep_def)
  note look = stat_rep_lookup [OF assms(1,2) m]
  define new where "new = (case M k of None \<Rightarrow> cdb_comm_stat_add fadd stat_zero v True | Some cs \<Rightarrow> cdb_comm_stat_add fadd cs v False)"
  define upd where "upd = (\<lambda>v'. case v' of None \<Rightarrow> k @ stat_bytes (cdb_comm_stat_add fadd cs v True)
       | Some e \<Rightarrow> take 8 e @ stat_bytes (cdb_comm_stat_add fadd (stat_of_bytes (drop 8 e)) v False))"
  have wf: "stat_wf new" using K(4) by (auto simp: new_def ranI intro!: comm_stat_add_wf split: option.split)
  have k: "length k = 8" using K(2) assms(2) by blast
  have upd: "upd (m (hash_murmur k)) = k @ stat_bytes new"
    using k K(4) stat_bytes_roundtrip comm_stat_add_init [of fadd cs v stat_zero]
    by (auto simp: upd_def look(1) new_def ranI split: option.split)
  then have "length (upd (m (hash_murmur k))) = 72" using k stat_bytes_length [OF wf] by simp
  then obtain s' where s': "read_modify_write base_find base_get base_insert (hash_murmur k) garbage upd now s = Some s'"
    "store_cap 72 s' = store_cap 72 s"
    "store_rep 72 s' (if m (hash_murmur k) \<noteq> None \<or> card (dom m) < store_cap 72 s then m(hash_murmur k \<mapsto> upd (m (hash_murmur k))) else m)"
    using stat_store.read_modify_write_rep [OF m(1) _ assms(3), of "hash_murmur k" upd now] by (auto simp: hash_murmur_def)
  then obtain cs' where "stat_entry_add fadd garbage k cs v now s = Some (cs', s')"
    using stat_entry_add_rmw [of fadd garbage k cs v now s] unfolding upd_def by auto
  moreover have "stat_rep K s' (stat_event fadd (store_cap 72 s) (k, v) M)"
  proof (cases "M k \<noteq> None \<or> card (dom M) < store_cap 72 s")
    case True
    then have "store_rep 72 s' (m(hash_murmur k \<mapsto> k @ stat_bytes new))" using s'(3) look upd by auto
    moreover have "(m(hash_murmur k \<mapsto> k @ stat_bytes new)) (hash_murmur k') = Some (k' @ stat_bytes cs')"
      if "(M(k \<mapsto> new)) k' = Some cs'" for k' cs'
      using that m(3) K(1,3) assms(2) by (auto simp: inj_on_eq_iff [OF K(1)] split: if_splits)
    moreover have "\<forall>cs \<in> ran (M(k \<mapsto> new)). stat_wf cs" using K(4) wf by (auto simp: ran_def split: if_splits)
    moreover have "dom (m(hash_murmur k \<mapsto> k @ stat_bytes new)) = hash_murmur ` dom (M(k \<mapsto> new))" using m(2) by simp
    moreover have "dom (M(k \<mapsto> new)) \<subseteq> K" using K(3) assms(2) by simp
    ultimately have "stat_rep K s' (M(k \<mapsto> new))" using K(1,2) by (intro stat_repI)
    then show ?thesis using True by (simp add: stat_event_def new_def)
  next
    case False
    then show ?thesis using s'(3) look m K by (auto simp: stat_rep_def stat_event_def)
  qed
  ultimately show ?thesis using s'(2) by blast
qed

text \<open>
  C8. The three functions that count events refine one step on the map of statistics: when the option is on,
  the call returns and the cache then represents the map in which the entry of the key has been
  initialised or extended by the time of the event, or the same map if the key is new and the store full.
\<close>

theorem stat_adds_refine:
  assumes "stat_rep K s M" and "length garbage = 72" and "opt \<noteq> 0"
  shows "(dml_key op \<in> K \<longrightarrow> (\<exists>op' s'. cdb_ins_dml_add fadd secs opt garbage op b e now s = Some (op', s') \<and>
      stat_rep K s' (stat_event fadd (store_cap 72 s) (dml_key op, secs (e - b)) M))) \<and>
    (conn_key conn \<in> K \<longrightarrow> (\<exists>c' s'. cdb_ins_conn_add fadd secs opt garbage conn b e now s = Some (c', s') \<and>
      stat_rep K s' (stat_event fadd (store_cap 72 s) (conn_key conn, secs (e - b)) M))) \<and>
    (client_key cl \<in> K \<longrightarrow> (\<exists>c' s'. cdb_ins_client_dml_add fadd secs opt garbage cl b e now s = Some (c', s') \<and>
      stat_rep K s' (stat_event fadd (store_cap 72 s) (client_key cl, secs (e - b)) M)))"
proof (intro conjI impI)
  note add = stat_entry_add_rep [OF assms(1) _ assms(2)]
  show "\<exists>op' s'. cdb_ins_dml_add fadd secs opt garbage op b e now s = Some (op', s') \<and>
      stat_rep K s' (stat_event fadd (store_cap 72 s) (dml_key op, secs (e - b)) M)" if "dml_key op \<in> K"
    using add [OF that, of fadd "id_comm_stat op" "secs (e - b)" now] assms(3) by (auto simp: cdb_ins_dml_add_def)
  show "\<exists>c' s'. cdb_ins_conn_add fadd secs opt garbage conn b e now s = Some (c', s') \<and>
      stat_rep K s' (stat_event fadd (store_cap 72 s) (conn_key conn, secs (e - b)) M)" if "conn_key conn \<in> K"
    using add [OF that, of fadd "ic_comm_stat conn" "secs (e - b)" now] assms(3) by (auto simp: cdb_ins_conn_add_def)
  show "\<exists>c' s'. cdb_ins_client_dml_add fadd secs opt garbage cl b e now s = Some (c', s') \<and>
      stat_rep K s' (stat_event fadd (store_cap 72 s) (client_key cl, secs (e - b)) M)" if "client_key cl \<in> K"
    using add [OF that, of fadd "icd_comm_stat cl" "secs (e - b)" now] assms(3) by (auto simp: cdb_ins_client_dml_add_def)
qed

section \<open>Counts\<close>

text \<open>A sequence of counted statements, each with its times.\<close>

record dml_call =
  dc_op :: CDBInsDml
  dc_begin :: "64 word"
  dc_end :: "64 word"
  dc_now :: int

primrec dml_run ::
    "(double \<Rightarrow> double \<Rightarrow> double) \<Rightarrow> (64 word \<Rightarrow> double) \<Rightarrow> byte list \<Rightarrow> dml_call list \<Rightarrow> CacheAccess \<Rightarrow> CacheAccess option" where
  "dml_run fadd secs garbage [] s = Some s"
| "dml_run fadd secs garbage (c # cs) s = do {
     (_, s') \<leftarrow> cdb_ins_dml_add fadd secs 1 garbage (dc_op c) (dc_begin c) (dc_end c) (dc_now c) s;
     dml_run fadd secs garbage cs s'
   }"

definition call_event :: "(64 word \<Rightarrow> double) \<Rightarrow> dml_call \<Rightarrow> byte list \<times> double" where
  "call_event secs c = (dml_key (dc_op c), secs (dc_end c - dc_begin c))"

lemma dml_run_rep:
  assumes "stat_rep K s M" and "length garbage = 72" and "\<forall>c \<in> set cs. dml_key (dc_op c) \<in> K"
  shows "\<exists>s'. dml_run fadd secs garbage cs s = Some s' \<and>
    stat_rep K s' (fold (stat_event fadd (store_cap 72 s)) (map (call_event secs) cs) M)"
  using assms(1,3)
proof (induction cs arbitrary: s M)
  case (Cons c cs)
  obtain st s' where s': "stat_entry_add fadd garbage (dml_key (dc_op c)) (id_comm_stat (dc_op c)) (secs (dc_end c - dc_begin c)) (dc_now c) s = Some (st, s')"
    "store_cap 72 s' = store_cap 72 s" "stat_rep K s' (stat_event fadd (store_cap 72 s) (call_event secs c) M)"
    using stat_entry_add_rep [OF Cons.prems(1) _ assms(2), of "dml_key (dc_op c)"] Cons.prems(2)
    unfolding call_event_def by (meson list.set_intros(1))
  then show ?case using Cons.IH [OF s'(3)] Cons.prems(2) by (auto simp: cdb_ins_dml_add_def)
qed simp

definition key_count :: "byte list \<Rightarrow> (byte list \<times> double) list \<Rightarrow> nat" where
  "key_count k evs = length (filter (\<lambda>(k', _). k' = k) evs)"

text \<open>As long as there is room for every key, the total of a key is the number of its events.\<close>

definition total_at :: "(byte list \<rightharpoonup> CDBCommStat) \<Rightarrow> byte list \<Rightarrow> 32 word" where
  "total_at M k = (case M k of None \<Rightarrow> 0 | Some cs \<Rightarrow> cs_total cs)"

lemma stat_event_room:
  assumes "k \<in> K" and "finite K" and "card K \<le> cap" and "dom M \<subseteq> K"
  shows "dom (stat_event fadd cap (k, v) M) = insert k (dom M)"
    and "total_at (stat_event fadd cap (k, v) M) k' = total_at M k' + (if k' = k then 1 else 0)"
proof -
  have room: "M k \<noteq> None \<or> card (dom M) < cap"
  proof (cases "k \<in> dom M")
    case False
    then have "dom M \<subset> K" using assms(1,4) by blast
    then have "card (dom M) < card K" using assms(2) by (intro psubset_card_mono)
    then show ?thesis using assms(3) by simp
  qed auto
  then show "dom (stat_event fadd cap (k, v) M) = insert k (dom M)" by (simp add: stat_event_def)
  show "total_at (stat_event fadd cap (k, v) M) k' = total_at M k' + (if k' = k then 1 else 0)"
    using room by (simp add: stat_event_def total_at_def comm_stat_add_total split: option.split)
qed

lemma stat_events_count:
  assumes "fst ` set evs \<subseteq> K" and "finite K" and "card K \<le> cap" and "dom M \<subseteq> K"
  shows "dom (fold (stat_event fadd cap) evs M) = dom M \<union> fst ` set evs \<and>
    total_at (fold (stat_event fadd cap) evs M) k = total_at M k + of_nat (key_count k evs)"
  using assms(1,4)
proof (induction evs arbitrary: M)
  case (Cons ev evs)
  obtain k' v where ev: "ev = (k', v)" by (cases ev)
  have k': "k' \<in> K" using Cons.prems by (simp add: ev)
  note step = stat_event_room [OF k' assms(2,3) Cons.prems(2), of fadd v]
  have sub: "dom (stat_event fadd cap ev M) \<subseteq> K" using step(1) k' Cons.prems(2) by (simp add: ev)
  show ?case using Cons.IH [OF _ sub] Cons.prems(1) step by (auto simp: ev key_count_def)
qed (simp add: key_count_def)

lemma stat_rep_read:
  assumes "stat_rep K s M" and "M k = Some cs" and "length buf = 72"
  shows "\<exists>s'. base_get (hash_murmur k) buf s = Some ((0, k @ stat_bytes cs), s')" and "stat_wf cs" and "length k = 8"
proof -
  obtain m where m: "store_rep 72 s m" "m (hash_murmur k) = Some (k @ stat_bytes cs)"
    using assms(1,2) unfolding stat_rep_def by blast
  have "length (hash_murmur k) = 16" by (simp add: hash_murmur_def)
  from stat_store.get_rep [OF m(1) this m(2) assms(3)]
  show "\<exists>s'. base_get (hash_murmur k) buf s = Some ((0, k @ stat_bytes cs), s')" by blast
  show "stat_wf cs" "length k = 8" using assms(1,2) unfolding stat_rep_def by (auto intro: ranI)
qed

text \<open>
  C4. The counters are exact: after any sequence of counted statements on an empty cache with room for all
  their keys, and no two of these keys with the same hash, reading the entry of each key gives the key itself
  and a total that is the number of statements with that key, modulo two to the 32.
\<close>

theorem dml_counts:
  assumes "store_rep 72 s Map.empty" and "length garbage = 72"
    and "K = dml_key ` dc_op ` set cs" and "inj_on hash_murmur K" and "card K \<le> store_cap 72 s"
  shows "\<exists>s'. dml_run fadd secs garbage cs s = Some s' \<and>
    (\<forall>k \<in> K. \<exists>entry s''. base_get (hash_murmur k) garbage s' = Some ((0, entry), s'') \<and> take 8 entry = k \<and>
       cs_total (stat_of_bytes (drop 8 entry)) = of_nat (length (filter (\<lambda>c. dml_key (dc_op c) = k) cs)))"
proof -
  define evs where "evs = map (call_event secs) cs"
  have K: "fst ` set evs = K" "finite K" by (force simp: evs_def call_event_def assms(3))+
  have "\<forall>k \<in> K. length k = 8" by (auto simp: assms(3) dml_key_def)
  then have "stat_rep K s Map.empty" using assms(1,4) by (intro stat_repI [where m = Map.empty]) simp_all
  then obtain s' where s': "dml_run fadd secs garbage cs s = Some s'"
    "stat_rep K s' (fold (stat_event fadd (store_cap 72 s)) evs Map.empty)"
    using dml_run_rep [OF _ assms(2), of K s Map.empty cs fadd secs] by (auto simp: assms(3) evs_def)
  define M where "M = fold (stat_event fadd (store_cap 72 s)) evs Map.empty"
  have "dom M = K" "total_at M k = of_nat (key_count k evs)" for k
    using stat_events_count [of evs K "store_cap 72 s" Map.empty fadd] K assms(5) by (simp_all add: M_def total_at_def)
  moreover have "key_count k evs = length (filter (\<lambda>c. dml_key (dc_op c) = k) cs)" for k
    unfolding key_count_def evs_def by (induction cs) (auto simp: call_event_def)
  ultimately have M: "\<exists>st. M k = Some st \<and> cs_total st = of_nat (length (filter (\<lambda>c. dml_key (dc_op c) = k) cs))" if "k \<in> K" for k
    using that by (force simp: total_at_def split: option.splits)
  have "\<exists>entry s''. base_get (hash_murmur k) garbage s' = Some ((0, entry), s'') \<and> take 8 entry = k \<and>
       cs_total (stat_of_bytes (drop 8 entry)) = of_nat (length (filter (\<lambda>c. dml_key (dc_op c) = k) cs))" if k: "k \<in> K" for k
  proof -
    obtain st where st: "M k = Some st" "cs_total st = of_nat (length (filter (\<lambda>c. dml_key (dc_op c) = k) cs))" using M [OF k] by blast
    note r = stat_rep_read [OF s'(2) [folded M_def] st(1) assms(2)]
    then show ?thesis using st(2) stat_bytes_roundtrip [OF r(2)] by auto
  qed
  then show ?thesis using s'(1) by blast
qed

section \<open>The configured cache\<close>

text \<open>An empty cache with the numbers that \<open>cdb_shm_conf_array\<close> gives for the statements.\<close>

definition conf_hm :: CHashMap where
  "conf_hm = snd (the (hash_open (\<lambda>_. 0) True 4096 4096 4096 128 demo_hm_raw))"

definition conf_ca :: CacheAccess where
  "conf_ca = CacheAccess_new 5 conf_hm 1048576 (replicate (nat MAX_BINLOG_ITEM_LEN) 0) demo_fs"

lemma conf_hm_facts: "cache_rep conf_hm []" "hm_geom conf_hm = ((4096, 4096), 4096, 128)"
proof -
  have "\<exists>s'. hash_open (\<lambda>_. 0) True 4096 4096 4096 128 demo_hm_raw = Some (0, s') \<and> hm_ok s' [] (\<lambda>_. undefined) \<and>
      hm_geom s' = ((4096, 4096), 4096, 128)"
    using hash_open_init [of 4096 4096 128 4096 "\<lambda>_. 0" demo_hm_raw "\<lambda>_. undefined"]
    by (auto simp: hash_head_size_def hm_geom_def al_geom_def)
  then show "cache_rep conf_hm []" "hm_geom conf_hm = ((4096, 4096), 4096, 128)" by (auto simp: conf_hm_def cache_rep_def)
qed

lemma conf_ca_rep: "store_rep 72 conf_ca Map.empty" "store_cap 72 conf_ca = 4096"
proof -
  have "values_of [] = Map.empty" by (simp add: values_of_def lru_find_def fun_eq_iff)
  then show "store_rep 72 conf_ca Map.empty"
    using conf_hm_facts(1) by (auto simp: store_rep_def conf_ca_def CacheAccess_new_def intro!: exI [of _ "[]"])
  show "store_cap 72 conf_ca = 4096"
    by (simp add: store_cap_def conf_ca_def CacheAccess_new_def conf_hm_facts(2) chunks_for_def)
qed

theorem stat_adds_refine_witness:
  "\<exists>op s. cdb_ins_dml_add (\<lambda>x y. x) (\<lambda>d. d) 1 (replicate 72 0) \<lparr>id_type = 1, id_result = 0, id_comm_stat = stat_zero\<rparr> 3 8 9 conf_ca = Some (op, s)"
proof -
  have "stat_rep {dml_key \<lparr>id_type = 1, id_result = 0, id_comm_stat = stat_zero\<rparr>} conf_ca Map.empty"
    using conf_ca_rep(1) by (intro stat_repI [where m = Map.empty]) (simp_all add: dml_key_def)
  from stat_adds_refine [OF this, of "replicate 72 0" 1 "\<lparr>id_type = 1, id_result = 0, id_comm_stat = stat_zero\<rparr>"
      "\<lambda>x y. x" "\<lambda>d. d" 3 8 9] show ?thesis by force
qed

theorem dml_counts_witness:
  "\<exists>s entry s'. dml_run (\<lambda>x y. x) (\<lambda>d. d) (replicate 72 0)
     (replicate 3 \<lparr>dc_op = \<lparr>id_type = 1, id_result = 0, id_comm_stat = stat_zero\<rparr>, dc_begin = 3, dc_end = 8, dc_now = 9\<rparr>) conf_ca = Some s \<and>
     base_get (hash_murmur (le_bytes 4 1 @ le_bytes 4 0)) (replicate 72 0) s = Some ((0, entry), s') \<and>
     cs_total (stat_of_bytes (drop 8 entry)) = 3"
proof -
  define cs where "cs = replicate 3 \<lparr>dc_op = \<lparr>id_type = 1, id_result = 0, id_comm_stat = stat_zero\<rparr>, dc_begin = 3, dc_end = 8, dc_now = 9\<rparr>"
  have K: "dml_key ` dc_op ` set cs = {le_bytes 4 1 @ le_bytes 4 0}" by (simp add: cs_def dml_key_def)
  have l: "length (replicate 72 (0 :: byte)) = 72" by simp
  have i: "inj_on hash_murmur (dml_key ` dc_op ` set cs)" "card (dml_key ` dc_op ` set cs) \<le> store_cap 72 conf_ca"
    by (simp_all add: K conf_ca_rep(2))
  have f: "filter (\<lambda>c. dml_key (dc_op c) = le_bytes 4 1 @ le_bytes 4 0) cs = cs" by (simp add: cs_def dml_key_def)
  from dml_counts [OF conf_ca_rep(1) l refl i, of "\<lambda>x y. x" "\<lambda>d. d"]
  show ?thesis unfolding K by (auto simp: f) (force simp: cs_def)
qed

end
