(* ===== verification/TabDml.thy ===== *)
theory TabDml
  imports Stats
begin

unbundle bit_operations_syntax

text \<open>
  The statistics of tables (\<open>CDBTabDml\<close> in \<open>cdb/cdb.h\<close> and \<open>cdb/cdb.cpp\<close>): a list of tables and a result, with
  one record of statistics for each of six types of statements, written to one buffer of bytes. A
  \<open>std::string\<close> is the list of its bytes. \<open>None\<close> is a write or a read outside the buffer, or the exception of
  \<open>assign\<close> when a length byte is read as a negative number. The content of fresh memory is the parameter \<open>junk\<close>.
\<close>

record CDBTabName =
  tn_db :: "byte list"
  tn_table :: "byte list"

record CDBTabDml =
  td_names :: "CDBTabName list"
  td_result :: "32 word"
  td_comm_stats :: "CDBCommStat list"

definition marshal_size :: "CDBTabDml \<Rightarrow> nat" where
  "marshal_size op = 384 + 4 + 1 + (\<Sum>n\<leftarrow>td_names op. (length (tn_db n) + 1) + (length (tn_table n) + 1))"

text \<open>
  One turn of the loop over the names: the bytes it writes and the name it leaves behind. The variable \<open>s\<close> is a
  reference to \<open>_db\<close>, so the assignment of \<open>_table\<close> to it changes the name.
\<close>

definition marshal_name :: "CDBTabName \<Rightarrow> byte list \<times> CDBTabName" where
  "marshal_name n =
     (let s = tn_db n;
          b1 = of_nat (length s) # s;
          n = n\<lparr>tn_db := tn_table n\<rparr>;
          s = tn_db n;
          b2 = of_nat (length s) # s
      in (b1 @ b2, n))"

definition marshal_key :: "CDBTabDml \<Rightarrow> byte list \<Rightarrow> nat \<Rightarrow> (CDBTabDml \<times> byte list \<times> byte list) option" where
  "marshal_key op buf buf_size = do {
     let key_size = buf_size - 384;
     let image = le_bytes 4 (uint (td_result op)) @ [of_nat (length (td_names op))] @
           concat (map (fst \<circ> marshal_name) (td_names op));
     buf' \<leftarrow> memcpy buf 384 image 0 (int (length image));
     let key = MurmurHash3_x64_128 (take key_size (drop 384 buf')) MURMURHASH_SEED;
     Some (op\<lparr>td_names := map (snd \<circ> marshal_name) (td_names op)\<rparr>, buf', key)
   }"

text \<open>A string behind its length byte, which is read as a signed \<open>char\<close>.\<close>

definition read_string :: "byte list \<Rightarrow> (byte list \<times> byte list) option" where
  "read_string p =
     (case p of
        [] \<Rightarrow> None
      | c # r \<Rightarrow>
          let ss = sint c
          in if ss < 0 \<or> length r < nat ss then None else Some (take (nat ss) r, drop (nat ss) r))"

primrec read_names :: "nat \<Rightarrow> byte list \<Rightarrow> CDBTabName list option" where
  "read_names 0 p = Some []"
| "read_names (Suc k) p = do {
     (db, p1) \<leftarrow> read_string p;
     (table, p2) \<leftarrow> read_string p1;
     ns \<leftarrow> read_names k p2;
     Some (\<lparr>tn_db = db, tn_table = table\<rparr> # ns)
   }"

definition de_marshal_key :: "byte list \<Rightarrow> CDBTabDml \<Rightarrow> CDBTabDml option" where
  "de_marshal_key buf op =
     (if length buf < 389 then None
      else do {
        let p = drop 384 buf;
        let result = of_nat (le_nat (take 4 p));
        let name_count = unat (p ! 4);
        names \<leftarrow> read_names name_count (drop 5 p);
        Some (op\<lparr>td_result := result, td_names := names\<rparr>)
      })"

definition stats_bytes :: "CDBCommStat list \<Rightarrow> byte list" where
  "stats_bytes st = concat (map stat_bytes st)"

definition marshal_stats :: "CDBTabDml \<Rightarrow> byte list \<Rightarrow> byte list option" where
  "marshal_stats op buf = memcpy buf 0 (stats_bytes (td_comm_stats op)) 0 384"

definition de_marshal_stats :: "byte list \<Rightarrow> CDBTabDml \<Rightarrow> CDBTabDml option" where
  "de_marshal_stats buf op =
     (if length buf < 384 then None
      else Some (op\<lparr>td_comm_stats := map (\<lambda>i. stat_of_bytes (take 64 (drop (64 * i) buf))) [0..<6]\<rparr>))"

definition de_marshal :: "byte list \<Rightarrow> CDBTabDml \<Rightarrow> CDBTabDml option" where
  "de_marshal buf op = do { op' \<leftarrow> de_marshal_stats buf op; de_marshal_key buf op' }"

definition reset_stats :: "CDBTabDml \<Rightarrow> CDBTabDml" where
  "reset_stats op = op\<lparr>td_comm_stats := replicate 6 (stat_of_bytes (replicate 64 0))\<rparr>"

definition stat_add_at :: "(double \<Rightarrow> double \<Rightarrow> double) \<Rightarrow> nat \<Rightarrow> double \<Rightarrow> bool \<Rightarrow> CDBTabDml \<Rightarrow> CDBTabDml" where
  "stat_add_at fadd type diff init op =
     op\<lparr>td_comm_stats := (td_comm_stats op)[type := cdb_comm_stat_add fadd (td_comm_stats op ! type) diff init]\<rparr>"

definition cdb_tab_dml_add ::
    "(double \<Rightarrow> double \<Rightarrow> double) \<Rightarrow> (64 word \<Rightarrow> double) \<Rightarrow> int \<Rightarrow> (nat \<Rightarrow> byte) \<Rightarrow> CDBTabDml \<Rightarrow> int \<Rightarrow> 64 word \<Rightarrow> 64 word \<Rightarrow> int \<Rightarrow>
     CacheAccess \<Rightarrow> (CDBTabDml \<times> CacheAccess) option" where
  "cdb_tab_dml_add fadd secs opt_cdb_stat_table_dml junk op type begin_time end_time now ca =
     (if opt_cdb_stat_table_dml = 0 then Some (op, ca)
      else if type < 0 \<or> type \<ge> 6 then Some (op, ca)
      else do {
        let op_diff = secs (end_time - begin_time);
        let buf_size = marshal_size op;
        let buf = map junk [0..<buf_size];
        (op, buf, h) \<leftarrow> marshal_key op buf buf_size;
        ((rv, _), ca) \<leftarrow> ca_get_key h ca;
        if rv > 0
        then do {
          let op = stat_add_at fadd (nat type) op_diff True (reset_stats op);
          buf \<leftarrow> marshal_stats op buf;
          (_, ca) \<leftarrow> ca_set h buf (int buf_size) NODE_FLAG_DIRTY now ca;
          Some (op, ca)
        }
        else if rv = 0
        then do {
          ((_, out), ca) \<leftarrow> ca_get h buf (int buf_size) ca;
          let buf = (case out of None \<Rightarrow> buf | Some r \<Rightarrow> g_buf r);
          op \<leftarrow> de_marshal_stats buf op;
          let op = stat_add_at fadd (nat type) op_diff False op;
          buf \<leftarrow> marshal_stats op buf;
          (_, ca) \<leftarrow> ca_set h buf (int buf_size) NODE_FLAG_DIRTY now ca;
          Some (op, ca)
        }
        else Some (op, ca)
      })"

section \<open>Reading back what was written\<close>

definition name_bytes :: "CDBTabName \<Rightarrow> byte list" where
  "name_bytes n = of_nat (length (tn_db n)) # tn_db n @ of_nat (length (tn_table n)) # tn_table n"

definition key_image :: "CDBTabDml \<Rightarrow> byte list" where
  "key_image op = le_bytes 4 (uint (td_result op)) @ [of_nat (length (td_names op))] @ concat (map name_bytes (td_names op))"

lemma marshal_name_eq: "marshal_name n = (name_bytes n, n\<lparr>tn_db := tn_table n\<rparr>)"
  by (simp add: marshal_name_def name_bytes_def Let_def)

lemma marshal_size_eq: "marshal_size op = 384 + length (key_image op)"
proof -
  have "length (concat (map name_bytes ns)) = (\<Sum>n\<leftarrow>ns. (length (tn_db n) + 1) + (length (tn_table n) + 1))" for ns
    by (induction ns) (simp_all add: name_bytes_def)
  then show ?thesis by (simp add: marshal_size_def key_image_def)
qed

lemma marshal_key_eq:
  assumes "length buf = marshal_size op"
  shows "marshal_key op buf (marshal_size op) =
    Some (op\<lparr>td_names := map (\<lambda>n. n\<lparr>tn_db := tn_table n\<rparr>) (td_names op)\<rparr>, take 384 buf @ key_image op,
      MurmurHash3_x64_128 (key_image op) MURMURHASH_SEED)"
proof -
  have img: "le_bytes 4 (uint (td_result op)) @ [of_nat (length (td_names op))] @ concat (map (fst \<circ> marshal_name) (td_names op)) = key_image op"
    by (simp add: key_image_def comp_def marshal_name_eq)
  have "memcpy buf 384 (key_image op) 0 (int (length (key_image op))) = Some (take 384 buf @ key_image op)"
    using assms by (subst memcpy_Some) (simp_all add: marshal_size_eq)
  then show ?thesis unfolding marshal_key_def img Let_def
    using assms by (simp add: marshal_size_eq comp_def marshal_name_eq)
qed

definition name_ok :: "CDBTabName \<Rightarrow> bool" where
  "name_ok n \<longleftrightarrow> length (tn_db n) < 128 \<and> length (tn_table n) < 128"

lemma sint_length:
  assumes "n < 128"
  shows "sint (of_nat n :: byte) = int n"
  using assms by (simp add: signed_of_nat signed_take_bit_int_eq_self)

lemma read_string_eq: "length d < 128 \<Longrightarrow> read_string (of_nat (length d) # d @ r) = Some (d, r)"
  by (simp add: read_string_def sint_length)

lemma read_names_eq: "list_all name_ok ns \<Longrightarrow> read_names (length ns) (concat (map name_bytes ns)) = Some ns"
proof (induction ns)
  case (Cons n ns)
  then show ?case
    using read_string_eq [of "tn_db n" "of_nat (length (tn_table n)) # tn_table n @ concat (map name_bytes ns)"]
      read_string_eq [of "tn_table n" "concat (map name_bytes ns)"]
    by (simp add: name_bytes_def [of n] name_ok_def [of n])
qed simp

lemma stats_bytes_facts:
  assumes "length st = 6" and "list_all stat_wf st"
  shows "length (stats_bytes st) = 384" and "map (\<lambda>i. stat_of_bytes (take 64 (drop (64 * i) (stats_bytes st @ r)))) [0..<6] = st"
proof -
  have l: "length (concat (map stat_bytes ts)) = 64 * length ts" if "list_all stat_wf ts" for ts
    using that by (induction ts) (simp_all add: stat_bytes_length)
  then show len: "length (stats_bytes st) = 384" using assms by (simp add: stats_bytes_def)
  have blk: "take 64 (drop (64 * i) (concat (map stat_bytes ts) @ r)) = stat_bytes (ts ! i)" if "list_all stat_wf ts" "i < length ts" for ts i r
    using that
  proof (induction ts arbitrary: i)
    case (Cons t ts)
    then show ?case by (cases i) (simp_all add: stat_bytes_length)
  qed simp
  show "map (\<lambda>i. stat_of_bytes (take 64 (drop (64 * i) (stats_bytes st @ r)))) [0..<6] = st"
  proof (rule nth_equalityI)
    fix i
    assume "i < length (map (\<lambda>i. stat_of_bytes (take 64 (drop (64 * i) (stats_bytes st @ r)))) [0..<6])"
    then have i: "i < 6" by simp
    then have "stat_wf (st ! i)" using assms by (simp add: list_all_length)
    then show "map (\<lambda>i. stat_of_bytes (take 64 (drop (64 * i) (stats_bytes st @ r)))) [0..<6] ! i = st ! i"
      using i blk [OF assms(2), of i r] assms(1) by (simp add: stats_bytes_def stat_bytes_roundtrip del: take_append drop_append)
  qed (simp add: assms(1))
qed

lemma de_marshal_image:
  assumes "list_all name_ok (td_names op)" and "length (td_names op) < 256" and "length (td_comm_stats op) = 6" and "list_all stat_wf (td_comm_stats op)"
  shows "de_marshal (stats_bytes (td_comm_stats op) @ key_image op) junk_op =
    Some (junk_op\<lparr>td_names := td_names op, td_result := td_result op, td_comm_stats := td_comm_stats op\<rparr>)"
proof -
  define buf where "buf = stats_bytes (td_comm_stats op) @ key_image op"
  note st = stats_bytes_facts [OF assms(3,4)]
  have "de_marshal_stats buf junk_op = Some (junk_op\<lparr>td_comm_stats := td_comm_stats op\<rparr>)"
    using st by (simp add: de_marshal_stats_def buf_def)
  moreover have "drop 384 buf = key_image op" using st(1) by (simp add: buf_def)
  moreover have "take 4 (key_image op) = le_bytes 4 (uint (td_result op))" "key_image op ! 4 = of_nat (length (td_names op))"
    "drop 5 (key_image op) = concat (map name_bytes (td_names op))" by (simp_all add: key_image_def nth_append)
  moreover have "unat (of_nat (length (td_names op)) :: byte) = length (td_names op)"
    using assms(2) by (simp add: unsigned_of_nat take_bit_nat_eq_self)
  moreover have "389 \<le> length buf" using st(1) by (simp add: buf_def key_image_def)
  ultimately show ?thesis using read_names_eq [OF assms(1)]
    by (auto simp: de_marshal_def de_marshal_key_def word_of_le_bytes Let_def not_less simp flip: buf_def)
qed

text \<open>
  C14. What \<open>marshal_key\<close> and \<open>marshal_stats\<close> write into a buffer of \<open>marshal_size\<close> bytes, \<open>de_marshal\<close> reads
  back: the tables, the result and the statistics, for up to 255 tables whose names have at most 127
  bytes. The writes stay inside the buffer and fill it.
\<close>

theorem tab_dml_roundtrip:
  assumes "length buf = marshal_size op" and "list_all name_ok (td_names op)" and "length (td_names op) < 256"
    and "length (td_comm_stats op) = 6" and "list_all stat_wf (td_comm_stats op)"
  shows "\<exists>op' buf1 buf2 key. marshal_key op buf (marshal_size op) = Some (op', buf1, key) \<and>
    marshal_stats op' buf1 = Some buf2 \<and> length buf2 = marshal_size op \<and> de_marshal buf2 junk_op =
      Some (junk_op\<lparr>td_names := td_names op, td_result := td_result op, td_comm_stats := td_comm_stats op\<rparr>)"
proof -
  define op' where "op' = op\<lparr>td_names := map (\<lambda>n. n\<lparr>tn_db := tn_table n\<rparr>) (td_names op)\<rparr>"
  define buf2 where "buf2 = stats_bytes (td_comm_stats op) @ key_image op"
  note st = stats_bytes_facts [OF assms(4,5)]
  have "marshal_stats op' (take 384 buf @ key_image op) = Some buf2"
    using assms(1) st(1) by (simp add: marshal_stats_def op'_def buf2_def marshal_size_eq)
  moreover have "length buf2 = marshal_size op" using st(1) by (simp add: buf2_def marshal_size_eq)
  ultimately show ?thesis using marshal_key_eq [OF assms(1)] de_marshal_image [OF assms(2-5)] by (auto simp: buf2_def simp flip: op'_def)
qed

theorem tab_dml_roundtrip_witness:
  "\<exists>op' buf1 buf2 key. marshal_key \<lparr>td_names = [\<lparr>tn_db = [1], tn_table = [2, 3]\<rparr>], td_result = 4, td_comm_stats = replicate 6 (stat_zero\<lparr>cs_time_bucket := replicate 9 0\<rparr>)\<rparr>
      (replicate 394 0) 394 = Some (op', buf1, key) \<and> marshal_stats op' buf1 = Some buf2 \<and>
    map_option td_names (de_marshal buf2 \<lparr>td_names = [], td_result = 0, td_comm_stats = []\<rparr>) = Some [\<lparr>tn_db = [1], tn_table = [2, 3]\<rparr>]"
proof -
  define op where "op = \<lparr>td_names = [\<lparr>tn_db = [1], tn_table = [2, 3]\<rparr>], td_result = 4, td_comm_stats = replicate 6 (stat_zero\<lparr>cs_time_bucket := replicate 9 0\<rparr>)\<rparr>"
  have "marshal_size op = 394" "list_all name_ok (td_names op)" "length (td_names op) < 256" "length (td_comm_stats op) = 6"
    "list_all stat_wf (td_comm_stats op)" "td_names op = [\<lparr>tn_db = [1], tn_table = [2, 3]\<rparr>]"
    by (simp_all add: op_def marshal_size_def name_ok_def stat_wf_def list_all_length)
  with tab_dml_roundtrip [of "replicate 394 0" op "\<lparr>td_names = [], td_result = 0, td_comm_stats = []\<rparr>"] show ?thesis
    unfolding op_def [symmetric] by fastforce
qed

text \<open>
  C33. \<open>marshal_key\<close> overwrites the database name of every table of its argument with the table name: the
  statistics it is called for keep the wrong names afterwards.
\<close>

theorem marshal_key_clobbers:
  "map_option (\<lambda>(op', _, _). map tn_db (td_names op')) (marshal_key op (map junk [0..<marshal_size op]) (marshal_size op)) =
    Some (map tn_table (td_names op))"
  by (simp add: marshal_key_eq comp_def)



section \<open>Counting\<close>

definition stat_null :: CDBCommStat where
  "stat_null = stat_of_bytes (replicate 64 0)"

definition stats_add :: "(double \<Rightarrow> double \<Rightarrow> double) \<Rightarrow> nat \<Rightarrow> double \<Rightarrow> bool \<Rightarrow> CDBCommStat list \<Rightarrow> CDBCommStat list" where
  "stats_add fadd t v init st = st[t := cdb_comm_stat_add fadd (st ! t) v init]"

lemma stat_of_bytes_wf: "stat_wf (stat_of_bytes b)" "stat_wf stat_null"
  by (simp_all add: stat_wf_def stat_of_bytes_def stat_null_def)

lemma stats_add_wf:
  assumes "length st = 6" and "list_all stat_wf st" and "t < 6"
  shows "length (stats_add fadd t v init st) = 6" and "list_all stat_wf (stats_add fadd t v init st)"
proof -
  have "stat_wf (st ! t)" using assms by (simp add: list_all_length)
  then have "stat_wf (cdb_comm_stat_add fadd (st ! t) v init)" by (simp add: comm_stat_add_wf)
  then show "list_all stat_wf (stats_add fadd t v init st)"
    using assms(2) set_update_subset_insert [of st t] by (fastforce simp: stats_add_def list_all_iff)
qed (simp add: stats_add_def assms(1))

lemma touch_again: "lru_find k (lru_touch k es) = lru_find k es" "lru_touch k (lru_touch k es) = lru_touch k es"
proof -
  show 1: "lru_find k (lru_touch k es) = lru_find k es"
  proof (cases "lru_find k es")
    case (Some e)
    then show ?thesis using lru_find_key [OF Some] unfolding lru_touch_def by (simp add: lru_find_def)
  qed (simp add: lru_touch_def)
  show "lru_touch k (lru_touch k es) = lru_touch k es"
  proof (cases "lru_find k es")
    case (Some e)
    then have "lru_touch k es = e # lru_drop k es" "e_key e = k" using lru_find_key [OF Some] by (simp_all add: lru_touch_def)
    then show ?thesis using 1 Some unfolding lru_touch_def [of k "lru_touch k es"] by (simp add: lru_drop_def)
  qed (simp add: lru_touch_def)
qed

lemma marshal_stats_eq:
  assumes "length (td_comm_stats op) = 6" and "list_all stat_wf (td_comm_stats op)" and "384 \<le> length buf"
  shows "marshal_stats op buf = Some (stats_bytes (td_comm_stats op) @ drop 384 buf)"
  using stats_bytes_facts(1) [OF assms(1,2)] assms(3) by (simp add: marshal_stats_def memcpy_def)

text \<open>What a call stores under the hash of the tables and the result: \<open>d\<close>, if there is room.\<close>

definition tab_put :: "geometry \<Rightarrow> byte list \<Rightarrow> byte list \<Rightarrow> int \<Rightarrow> entry list \<Rightarrow> entry list" where
  "tab_put g h d now es = (case lru_put g h d now (lru_touch h es) of None \<Rightarrow> lru_touch h es | Some (e, es') \<Rightarrow> e\<lparr>e_flag := 1\<rparr> # es')"

definition tab_data :: "(double \<Rightarrow> double \<Rightarrow> double) \<Rightarrow> nat \<Rightarrow> double \<Rightarrow> CDBTabDml \<Rightarrow> byte list option \<Rightarrow> byte list \<Rightarrow> bool" where
  "tab_data fadd t v op old d \<longleftrightarrow> length d = marshal_size op \<and>
     (old = None \<longrightarrow> d = stats_bytes (stats_add fadd t v True (replicate 6 stat_null)) @ key_image op) \<and>
     (\<forall>st. length st = 6 \<and> list_all stat_wf st \<and> old = Some (stats_bytes st @ key_image op) \<longrightarrow>
        d = stats_bytes (stats_add fadd t v False st) @ key_image op)"

text \<open>The argument after \<open>marshal_key\<close> and the buffer it leaves.\<close>

definition tab_clobbered :: "CDBTabDml \<Rightarrow> CDBTabDml" where
  "tab_clobbered op = op\<lparr>td_names := map (\<lambda>n. n\<lparr>tn_db := tn_table n\<rparr>) (td_names op)\<rparr>"

definition tab_buf :: "(nat \<Rightarrow> byte) \<Rightarrow> CDBTabDml \<Rightarrow> byte list" where
  "tab_buf junk op = map junk [0..<384] @ key_image op"

lemma tab_buf_simps [simp]: "length (tab_buf junk op) = marshal_size op" "drop 384 (tab_buf junk op) = key_image op"
  by (simp_all add: tab_buf_def marshal_size_eq)

lemma tab_add_unfold:
  assumes "0 \<le> type" and "type < 6" and "opt \<noteq> 0" and "h = hash_murmur (key_image op)"
  shows "cdb_tab_dml_add fadd secs opt junk op type b e now s = do {
      ((rv, _), ca) \<leftarrow> ca_get_key h s;
      if rv > 0
      then do {
        let op' = stat_add_at fadd (nat type) (secs (e - b)) True (reset_stats (tab_clobbered op));
        buf \<leftarrow> marshal_stats op' (tab_buf junk op);
        (_, ca) \<leftarrow> ca_set h buf (int (marshal_size op)) NODE_FLAG_DIRTY now ca;
        Some (op', ca)
      }
      else if rv = 0
      then do {
        ((_, out), ca) \<leftarrow> ca_get h (tab_buf junk op) (int (marshal_size op)) ca;
        let buf = (case out of None \<Rightarrow> tab_buf junk op | Some r \<Rightarrow> g_buf r);
        op' \<leftarrow> de_marshal_stats buf (tab_clobbered op);
        let op' = stat_add_at fadd (nat type) (secs (e - b)) False op';
        buf \<leftarrow> marshal_stats op' buf;
        (_, ca) \<leftarrow> ca_set h buf (int (marshal_size op)) NODE_FLAG_DIRTY now ca;
        Some (op', ca)
      }
      else Some (tab_clobbered op, ca) }"
proof -
  have "take 384 (map junk [0..<marshal_size op]) = map junk [0..<384]" by (simp add: take_map marshal_size_eq)
  then have "marshal_key op (map junk [0..<marshal_size op]) (marshal_size op) = Some (tab_clobbered op, tab_buf junk op, h)"
    using marshal_key_eq [of "map junk [0..<marshal_size op]" op] assms(4) by (simp add: tab_clobbered_def tab_buf_def hash_murmur_def)
  then show ?thesis using assms(1-3) unfolding cdb_tab_dml_add_def Let_def by simp
qed

lemma tab_set:
  assumes "plain_rep s (lru_touch h es)" and "length h = 16" and "length d = marshal_size op" and "marshal_size op < 2 ^ 31"
  shows "\<exists>rv s'. ca_set h d (int (marshal_size op)) NODE_FLAG_DIRTY now s = Some (rv, s') \<and> hm_geom (m_cache s') = hm_geom (m_cache s) \<and>
    plain_rep s' (tab_put (hm_geom (m_cache s)) h d now es)"
  using plain_set [OF assms(1,2), of d "int (marshal_size op)" now, unfolded touch_again] assms(3,4) by (auto simp: tab_put_def)

lemma tab_add_new:
  assumes "plain_rep s es" and "0 \<le> type" and "type < 6" and "opt \<noteq> 0" and "marshal_size op < 2 ^ 31" and "h = hash_murmur (key_image op)"
    and "lru_find h es = None" and "d = stats_bytes (stats_add fadd (nat type) (secs (e - b)) True (replicate 6 stat_null)) @ key_image op"
  shows "\<exists>op' s'. cdb_tab_dml_add fadd secs opt junk op type b e now s = Some (op', s') \<and> hm_geom (m_cache s') = hm_geom (m_cache s) \<and>
    plain_rep s' (tab_put (hm_geom (m_cache s)) h d now es) \<and> length d = marshal_size op"
proof -
  define st where "st = stats_add fadd (nat type) (secs (e - b)) True (replicate 6 stat_null)"
  have h: "length h = 16" by (simp add: assms(6) hash_murmur_def)
  from plain_get_key [OF assms(1) h] assms(7) obtain info s1 where s1: "ca_get_key h s = Some ((1, info), s1)"
    "plain_rep s1 (lru_touch h es)" "hm_geom (m_cache s1) = hm_geom (m_cache s)" by auto
  have st: "length st = 6" "list_all stat_wf st"
    using stats_add_wf [of "replicate 6 stat_null" "nat type" fadd "secs (e - b)" True] assms(3) by (simp_all add: st_def stat_of_bytes_wf list_all_iff)
  have d: "length d = marshal_size op" using stats_bytes_facts(1) [OF st] by (simp add: assms(8) marshal_size_eq flip: st_def)
  have "marshal_stats (stat_add_at fadd (nat type) (secs (e - b)) True (reset_stats (tab_clobbered op))) (tab_buf junk op) = Some d"
    using marshal_stats_eq [of "stat_add_at fadd (nat type) (secs (e - b)) True (reset_stats (tab_clobbered op))" "tab_buf junk op"] st
    by (simp add: stat_add_at_def reset_stats_def st_def stats_add_def assms(8) marshal_size_eq flip: stat_null_def)
  moreover from tab_set [OF s1(2) h d assms(5), of now] obtain rv s' where
    "ca_set h d (int (marshal_size op)) NODE_FLAG_DIRTY now s1 = Some (rv, s')" "hm_geom (m_cache s') = hm_geom (m_cache s)"
    "plain_rep s' (tab_put (hm_geom (m_cache s)) h d now es)" using s1(3) by auto
  ultimately show ?thesis using tab_add_unfold [OF assms(2-4,6)] s1(1) d by (simp add: Let_def)
qed

lemma tab_add_old:
  assumes "plain_rep s es" and "0 \<le> type" and "type < 6" and "opt \<noteq> 0" and "marshal_size op < 2 ^ 31" and "h = hash_murmur (key_image op)"
    and "lru_find h es = Some x"
  shows "\<exists>d op' s'. cdb_tab_dml_add fadd secs opt junk op type b e now s = Some (op', s') \<and> hm_geom (m_cache s') = hm_geom (m_cache s) \<and>
    plain_rep s' (tab_put (hm_geom (m_cache s)) h d now es) \<and> length d = marshal_size op \<and>
    (\<forall>st. length st = 6 \<and> list_all stat_wf st \<and> e_data x = stats_bytes st @ key_image op \<longrightarrow>
       d = stats_bytes (stats_add fadd (nat type) (secs (e - b)) False st) @ key_image op)"
proof -
  define t v n where "t = nat type" and "v = secs (e - b)" and "n = marshal_size op"
  have t: "t < 6" "384 \<le> n" "n = 384 + length (key_image op)" using assms(3) by (simp_all add: t_def n_def marshal_size_eq)
  have h: "length h = 16" by (simp add: assms(6) hash_murmur_def)
  from plain_get_key [OF assms(1) h] assms(7) obtain info s1 where s1: "ca_get_key h s = Some ((0, info), s1)"
    "plain_rep s1 (lru_touch h es)" "hm_geom (m_cache s1) = hm_geom (m_cache s)" by auto
  have x: "lru_find h (lru_touch h es) = Some x" using assms(7) by (simp add: touch_again)
  from plain_get [OF s1(2) h x, of "tab_buf junk op" "int n"] assms(5) obtain rv r s2 where
    s2: "ca_get h (tab_buf junk op) (int n) s1 = Some ((rv, Some r), s2)"
    "g_buf r = (if length (e_data x) \<le> n then e_data x @ drop (length (e_data x)) (tab_buf junk op) else tab_buf junk op)"
    "plain_rep s2 (lru_touch h es)" "hm_geom (m_cache s2) = hm_geom (m_cache s)" using s1(3) by (auto simp: touch_again n_def)
  have lr: "length (g_buf r) = n" using s2(2) by (auto simp: n_def)
  define st where "st = map (\<lambda>i. stat_of_bytes (take 64 (drop (64 * i) (g_buf r)))) [0..<6]"
  define st' d where "st' = stats_add fadd t v False st" and "d = stats_bytes st' @ drop 384 (g_buf r)"
  have wf: "list_all stat_wf st" "length st = 6" by (simp_all add: st_def list_all_iff stat_of_bytes_wf)
  note st' = stats_add_wf [OF wf(2,1) t(1), of fadd v False, folded st'_def]
  have dm: "de_marshal_stats (g_buf r) (tab_clobbered op) = Some ((tab_clobbered op)\<lparr>td_comm_stats := st\<rparr>)"
    using lr t(2) by (simp add: de_marshal_stats_def st_def)
  have ms: "marshal_stats (stat_add_at fadd t v False ((tab_clobbered op)\<lparr>td_comm_stats := st\<rparr>)) (g_buf r) = Some d"
    using marshal_stats_eq [of "stat_add_at fadd t v False ((tab_clobbered op)\<lparr>td_comm_stats := st\<rparr>)" "g_buf r"] st' lr t(2)
    by (simp add: stat_add_at_def st'_def stats_add_def d_def)
  have d: "length d = n" using stats_bytes_facts(1) [OF st'] lr t(2) by (simp add: d_def)
  from tab_set [OF s2(3) h, of d op now] d assms(5) obtain rv' s' where "ca_set h d (int n) NODE_FLAG_DIRTY now s2 = Some (rv', s')"
    "hm_geom (m_cache s') = hm_geom (m_cache s)" "plain_rep s' (tab_put (hm_geom (m_cache s)) h d now es)" using s2(4) by (auto simp: n_def)
  moreover have "d = stats_bytes (stats_add fadd t v False st0) @ key_image op"
    if "length st0 = 6" "list_all stat_wf st0" "e_data x = stats_bytes st0 @ key_image op" for st0
  proof -
    have "g_buf r = stats_bytes st0 @ key_image op" using s2(2) that(3) stats_bytes_facts(1) [OF that(1,2)] t(3) by (simp add: n_def)
    then show ?thesis using stats_bytes_facts [OF that(1,2)] by (simp add: d_def st'_def st_def)
  qed
  ultimately show ?thesis using tab_add_unfold [OF assms(2-4,6)] s1(1) s2(1) dm ms d unfolding t_def v_def n_def
    by (intro exI [of _ d]) (auto simp: Let_def)
qed

lemma tab_add_rep:
  assumes "plain_rep s es" and "0 \<le> type" and "type < 6" and "opt \<noteq> 0" and "marshal_size op < 2 ^ 31" and "h = hash_murmur (key_image op)"
  shows "\<exists>d op' s'. cdb_tab_dml_add fadd secs opt junk op type b e now s = Some (op', s') \<and> hm_geom (m_cache s') = hm_geom (m_cache s) \<and>
    plain_rep s' (tab_put (hm_geom (m_cache s)) h d now es) \<and> tab_data fadd (nat type) (secs (e - b)) op (map_option e_data (lru_find h es)) d"
proof (cases "lru_find h es")
  case None
  then show ?thesis using tab_add_new [OF assms None refl, where fadd = fadd and secs = secs and b = b and e = e and junk = junk and now = now] by (auto simp: tab_data_def)
next
  case (Some x)
  then show ?thesis using tab_add_old [OF assms Some, where fadd = fadd and secs = secs and b = b and e = e and junk = junk and now = now] by (fastforce simp: tab_data_def)
qed

text \<open>The entry of the tables of \<open>op\<close> holds \<open>st\<close>, and a value of its size fits beside the other entries.\<close>

definition tab_holds :: "CDBTabDml \<Rightarrow> CacheAccess \<Rightarrow> CDBCommStat list \<Rightarrow> bool" where
  "tab_holds op s st \<longleftrightarrow> length st = 6 \<and> list_all stat_wf st \<and> marshal_size op < 2 ^ 31 \<and>
     (\<exists>es x. plain_rep s es \<and> lru_find (hash_murmur (key_image op)) es = Some x \<and> e_data x = stats_bytes st @ key_image op \<and>
        lru_fits (hm_geom (m_cache s)) (lru_drop (hash_murmur (key_image op)) es) (e_data x))"

lemma tab_put_found:
  assumes "lru_find h es = Some x" and "lru_fits g (lru_drop h es) d"
  shows "tab_put g h d now es = x\<lparr>e_data := d, e_info_1 := now, e_flag := 1\<rparr> # lru_drop h es"
proof -
  have "lru_drop h (lru_touch h es) = lru_drop h es"
    using assms(1) lru_find_key [OF assms(1)] by (simp add: lru_touch_def) (simp add: lru_drop_def)
  then show ?thesis using assms by (simp add: tab_put_def lru_put_def touch_again)
qed

lemma lru_fits_length: "length d = length d' \<Longrightarrow> lru_fits g es d = lru_fits g es d'"
  by (simp add: lru_fits_def cost_def)

lemma lru_find_head: "e_key x = h \<Longrightarrow> lru_find h (x # es) = Some x" "e_key x = h \<Longrightarrow> lru_drop h (x # lru_drop h es) = lru_drop h es"
  by (simp_all add: lru_find_def lru_drop_def)

lemma tab_add_holds:
  assumes "tab_holds op s st" and "0 \<le> type" and "type < 6" and "opt \<noteq> 0"
  shows "\<exists>op' s'. cdb_tab_dml_add fadd secs opt junk op type b e now s = Some (op', s') \<and>
    tab_holds op s' (stats_add fadd (nat type) (secs (e - b)) False st)"
proof -
  define h g where "h = hash_murmur (key_image op)" and "g = hm_geom (m_cache s)"
  obtain es x where x: "plain_rep s es" "lru_find h es = Some x" "e_data x = stats_bytes st @ key_image op" "lru_fits g (lru_drop h es) (e_data x)"
    and st: "length st = 6" "list_all stat_wf st" "marshal_size op < 2 ^ 31" using assms(1) by (auto simp: tab_holds_def h_def g_def)
  define st' where "st' = stats_add fadd (nat type) (secs (e - b)) False st"
  have wf: "length st' = 6" "list_all stat_wf st'" using stats_add_wf [OF st(1,2), of "nat type"] assms(3) by (simp_all add: st'_def)
  from tab_add_old [OF x(1) assms(2-4) st(3) h_def x(2), of fadd secs junk b e now] obtain d op' s' where
    s': "cdb_tab_dml_add fadd secs opt junk op type b e now s = Some (op', s')" "hm_geom (m_cache s') = g"
    "plain_rep s' (tab_put g h d now es)" "d = stats_bytes st' @ key_image op" using st(1,2) x(3) unfolding g_def st'_def by blast
  have fit: "lru_fits g (lru_drop h es) d"
    using x(4) lru_fits_length [of d "e_data x"] stats_bytes_facts(1) [OF st(1,2)] stats_bytes_facts(1) [OF wf] by (simp add: s'(4) x(3))
  have "e_key x = h" using lru_find_key [OF x(2)] by simp
  then have "lru_find h (tab_put g h d now es) = Some (x\<lparr>e_data := d, e_info_1 := now, e_flag := 1\<rparr>)" "lru_drop h (tab_put g h d now es) = lru_drop h es"
    by (simp_all add: tab_put_found [OF x(2) fit] lru_find_head)
  then have "tab_holds op s' st'" using s' fit wf st(3) by (auto simp: tab_holds_def simp flip: h_def)
  then show ?thesis using s'(1) by (auto simp: st'_def)
qed

lemma tab_add_first:
  assumes "plain_rep s es" and "lru_find (hash_murmur (key_image op)) es = None" and "marshal_size op < 2 ^ 31"
    and "lru_room (hm_geom (m_cache s)) es (replicate (marshal_size op) 0)" and "0 \<le> type" and "type < 6" and "opt \<noteq> 0"
  shows "\<exists>op' s'. cdb_tab_dml_add fadd secs opt junk op type b e now s = Some (op', s') \<and>
    tab_holds op s' (stats_add fadd (nat type) (secs (e - b)) True (replicate 6 stat_null))"
proof -
  define h g st where "h = hash_murmur (key_image op)" and "g = hm_geom (m_cache s)"
    and "st = stats_add fadd (nat type) (secs (e - b)) True (replicate 6 stat_null)"
  define d where "d = stats_bytes st @ key_image op"
  have wf: "length st = 6" "list_all stat_wf st"
    using stats_add_wf [of "replicate 6 stat_null" "nat type" fadd "secs (e - b)" True] assms(6) by (simp_all add: st_def stat_of_bytes_wf list_all_iff)
  have n: "lru_find h es = None" using assms(2) by (simp add: h_def)
  from tab_add_new [where secs = secs and b = b and e = e and junk = junk and now = now, OF assms(1,5-7,3) h_def n d_def [unfolded st_def]] obtain op' s' where
    s': "cdb_tab_dml_add fadd secs opt junk op type b e now s = Some (op', s')" "hm_geom (m_cache s') = g"
    "plain_rep s' (tab_put g h d now es)" "length d = marshal_size op" unfolding g_def by blast
  have touch: "lru_touch h es = es" using n by (simp add: lru_touch_def)
  have drop: "lru_drop h es = es" using n by (auto simp: lru_drop_def lru_find_def find_None_iff intro!: filter_True)
  have "lru_room g es d" using assms(4) s'(4) wf stats_bytes_facts(1) [OF wf] by (auto simp: lru_room_def cost_def g_def d_def)
  then have put: "tab_put g h d now es = (new_entry h d now 0)\<lparr>e_flag := 1\<rparr> # es" "lru_fits g es d"
    using n by (simp_all add: tab_put_def touch lru_put_def lru_room_def lru_fits_def)
  have k: "e_key ((new_entry h d now 0)\<lparr>e_flag := 1\<rparr>) = h" "e_data ((new_entry h d now 0)\<lparr>e_flag := 1\<rparr>) = d" by (simp_all add: new_entry_def)
  have "lru_find h (tab_put g h d now es) = Some ((new_entry h d now 0)\<lparr>e_flag := 1\<rparr>)" "lru_drop h (tab_put g h d now es) = es"
    using lru_find_head [OF k(1), of es] drop by (simp_all add: put(1))
  then have "tab_holds op s' st" using s' put(2) wf assms(3) k(2) by (auto simp: tab_holds_def d_def simp flip: h_def)
  then show ?thesis using s'(1) by (auto simp: st_def)
qed

text \<open>A sequence of counted statements on the same tables with the same result.\<close>

record tab_call =
  tc_type :: nat
  tc_begin :: "64 word"
  tc_end :: "64 word"
  tc_now :: int

primrec tab_run ::
    "(double \<Rightarrow> double \<Rightarrow> double) \<Rightarrow> (64 word \<Rightarrow> double) \<Rightarrow> (nat \<Rightarrow> byte) \<Rightarrow> CDBTabDml \<Rightarrow> tab_call list \<Rightarrow> CacheAccess \<Rightarrow> CacheAccess option" where
  "tab_run fadd secs junk op [] s = Some s"
| "tab_run fadd secs junk op (c # cs) s = do {
     (_, s') \<leftarrow> cdb_tab_dml_add fadd secs 1 junk op (int (tc_type c)) (tc_begin c) (tc_end c) (tc_now c) s;
     tab_run fadd secs junk op cs s'
   }"

lemma tab_run_holds:
  assumes "tab_holds op s st" and "\<forall>c \<in> set cs. tc_type c < 6"
  shows "\<exists>s'. tab_run fadd secs junk op cs s = Some s' \<and>
    tab_holds op s' (fold (\<lambda>c. stats_add fadd (tc_type c) (secs (tc_end c - tc_begin c)) False) cs st)"
  using assms
proof (induction cs arbitrary: s st)
  case (Cons c cs)
  obtain op' s' where s': "cdb_tab_dml_add fadd secs 1 junk op (int (tc_type c)) (tc_begin c) (tc_end c) (tc_now c) s = Some (op', s')"
    "tab_holds op s' (stats_add fadd (tc_type c) (secs (tc_end c - tc_begin c)) False st)"
    using tab_add_holds [OF Cons.prems(1), of "int (tc_type c)" 1] Cons.prems(2) by fastforce
  then show ?case using Cons.IH [OF s'(2)] Cons.prems(2) by auto
qed auto

definition tab_runs_to ::
    "(double \<Rightarrow> double \<Rightarrow> double) \<Rightarrow> (64 word \<Rightarrow> double) \<Rightarrow> tab_call list \<Rightarrow> CDBCommStat list" where
  "tab_runs_to fadd secs cs =
     fold (\<lambda>c. stats_add fadd (tc_type c) (secs (tc_end c - tc_begin c)) False) (tl cs)
       (stats_add fadd (tc_type (hd cs)) (secs (tc_end (hd cs) - tc_begin (hd cs))) True (replicate 6 stat_null))"

lemma tab_run_first:
  assumes "plain_rep s es" and "lru_find (hash_murmur (key_image op)) es = None" and "marshal_size op < 2 ^ 31"
    and "lru_room (hm_geom (m_cache s)) es (replicate (marshal_size op) 0)" and "cs \<noteq> []" and "\<forall>c \<in> set cs. tc_type c < 6"
  shows "\<exists>s'. tab_run fadd secs junk op cs s = Some s' \<and> tab_holds op s' (tab_runs_to fadd secs cs)"
proof -
  obtain c cs' where cs: "cs = c # cs'" using assms(5) by (cases cs) auto
  obtain op' s1 where s1: "cdb_tab_dml_add fadd secs 1 junk op (int (tc_type c)) (tc_begin c) (tc_end c) (tc_now c) s = Some (op', s1)"
    "tab_holds op s1 (stats_add fadd (tc_type c) (secs (tc_end c - tc_begin c)) True (replicate 6 stat_null))"
    using tab_add_first [OF assms(1-4), of "int (tc_type c)" 1] assms(6) cs by fastforce
  then show ?thesis using tab_run_holds [OF s1(2), of cs'] assms(6) by (simp add: cs tab_runs_to_def)
qed

lemma tab_holds_read:
  assumes "tab_holds op s st" and "length buf = marshal_size op"
  shows "\<exists>r s'. ca_get (hash_murmur (key_image op)) buf (int (length buf)) s = Some ((0, Some r), s') \<and>
    de_marshal_stats (g_buf r) op = Some (op\<lparr>td_comm_stats := st\<rparr>)"
proof -
  obtain es x where x: "plain_rep s es" "lru_find (hash_murmur (key_image op)) es = Some x" "e_data x = stats_bytes st @ key_image op"
    and st: "length st = 6" "list_all stat_wf st" "marshal_size op < 2 ^ 31" using assms(1) by (auto simp: tab_holds_def)
  have l: "length (e_data x) = length buf" using stats_bytes_facts(1) [OF st(1,2)] assms(2) by (simp add: x(3) marshal_size_eq)
  have "length (hash_murmur (key_image op)) = 16" by (simp add: hash_murmur_def)
  from plain_get [OF x(1) this x(2), of buf] assms(2) st(3) l obtain r s' where
    r: "ca_get (hash_murmur (key_image op)) buf (int (length buf)) s = Some ((0, Some r), s')" "g_buf r = stats_bytes st @ key_image op"
    by (auto simp: x(3))
  have "de_marshal_stats (g_buf r) op = Some (op\<lparr>td_comm_stats := st\<rparr>)"
    using stats_bytes_facts [OF st(1,2)] by (simp add: de_marshal_stats_def r(2) del: take_append drop_append)
  then show ?thesis using r(1) by blast
qed

lemma stats_add_nth:
  assumes "t < 6" and "t' < 6" and "length st = 6"
  shows "stats_add fadd t v init st ! t' = (if t' = t then cdb_comm_stat_add fadd (st ! t) v init else st ! t')"
  using assms by (simp add: stats_add_def nth_list_update)

lemma stats_fold_total:
  assumes "length st = 6" and "\<forall>c \<in> set cs. tc_type c < 6" and "t < 6"
  shows "cs_total (fold (\<lambda>c. stats_add fadd (tc_type c) (secs (tc_end c - tc_begin c)) False) cs st ! t) =
    cs_total (st ! t) + of_nat (length (filter (\<lambda>c. tc_type c = t) cs))"
  using assms(1,2)
proof (induction cs arbitrary: st)
  case (Cons c cs)
  have "length (stats_add fadd (tc_type c) (secs (tc_end c - tc_begin c)) False st) = 6" using Cons.prems(1) by (simp add: stats_add_def)
  then show ?case using Cons.IH [of "stats_add fadd (tc_type c) (secs (tc_end c - tc_begin c)) False st"] Cons.prems assms(3)
    by (simp add: stats_add_nth comm_stat_add_total)
qed simp

text \<open>
  C9. The counters of tables are exact: after any sequence of statements on tables that the cache does not know yet,
  with room for the entry, reading the entry back gives for each of the six types a total that is the number of
  statements of that type, modulo two to the 32.
\<close>

theorem tab_counts:
  assumes "plain_rep s es" and "lru_find (hash_murmur (key_image op)) es = None" and "marshal_size op < 2 ^ 31"
    and "lru_room (hm_geom (m_cache s)) es (replicate (marshal_size op) 0)" and "cs \<noteq> []" and "\<forall>c \<in> set cs. tc_type c < 6"
    and "length buf = marshal_size op"
  shows "\<exists>s' r s'' td. tab_run fadd secs junk op cs s = Some s' \<and>
    ca_get (hash_murmur (key_image op)) buf (int (length buf)) s' = Some ((0, Some r), s'') \<and> de_marshal_stats (g_buf r) op = Some td \<and>
    (\<forall>t < 6. cs_total (td_comm_stats td ! t) = of_nat (length (filter (\<lambda>c. tc_type c = t) cs)))"
proof -
  obtain c cs' where cs: "cs = c # cs'" using assms(5) by (cases cs) auto
  obtain s' where s': "tab_run fadd secs junk op cs s = Some s'" "tab_holds op s' (tab_runs_to fadd secs cs)"
    using tab_run_first [OF assms(1-6)] by blast
  have "cs_total (tab_runs_to fadd secs cs ! t) = of_nat (length (filter (\<lambda>c. tc_type c = t) cs))" if "t < 6" for t
    using stats_fold_total [of "stats_add fadd (tc_type c) (secs (tc_end c - tc_begin c)) True (replicate 6 stat_null)" cs' t] assms(6) that
    by (simp add: tab_runs_to_def cs stats_add_nth comm_stat_add_total stats_add_def stat_null_def stat_of_bytes_def)
  moreover from tab_holds_read [OF s'(2) assms(7)] obtain r s'' where
    "ca_get (hash_murmur (key_image op)) buf (int (length buf)) s' = Some ((0, Some r), s'')"
    "de_marshal_stats (g_buf r) op = Some (op\<lparr>td_comm_stats := tab_runs_to fadd secs cs\<rparr>)" by blast
  ultimately show ?thesis using s'(1)
    by (intro exI [of _ s'] exI [of _ r] exI [of _ s''] exI [of _ "op\<lparr>td_comm_stats := tab_runs_to fadd secs cs\<rparr>"]) simp
qed

definition demo_op :: CDBTabDml where
  "demo_op = \<lparr>td_names = [\<lparr>tn_db = [100], tn_table = [116]\<rparr>], td_result = 0, td_comm_stats = replicate 6 stat_zero\<rparr>"

definition demo_tab_calls :: "tab_call list" where
  "demo_tab_calls = [\<lparr>tc_type = 1, tc_begin = 3, tc_end = 8, tc_now = 9\<rparr>, \<lparr>tc_type = 2, tc_begin = 8, tc_end = 9, tc_now = 9\<rparr>,
     \<lparr>tc_type = 1, tc_begin = 9, tc_end = 11, tc_now = 12\<rparr>]"

lemma demo_tab_facts:
  "plain_rep conf_ca []" "marshal_size demo_op = 393" "lru_room (hm_geom (m_cache conf_ca)) [] (replicate (marshal_size demo_op) 0)"
  using conf_hm_facts by (simp_all add: plain_rep_def conf_ca_def CacheAccess_new_def marshal_size_def demo_op_def lru_room_def lru_used_def cost_def chunks_for_def)

theorem tab_counts_witness:
  "\<exists>s' r s'' td. tab_run (\<lambda>x y. x) (\<lambda>d. d) (\<lambda>_. 0) demo_op demo_tab_calls conf_ca = Some s' \<and>
    ca_get (hash_murmur (key_image demo_op)) (replicate 393 0) 393 s' = Some ((0, Some r), s'') \<and> de_marshal_stats (g_buf r) demo_op = Some td \<and>
    cs_total (td_comm_stats td ! 1) = 2 \<and> cs_total (td_comm_stats td ! 2) = 1 \<and> cs_total (td_comm_stats td ! 3) = 0"
proof -
  have c: "demo_tab_calls \<noteq> []" "\<forall>c \<in> set demo_tab_calls. tc_type c < 6" by (simp_all add: demo_tab_calls_def)
  have n: "lru_find (hash_murmur (key_image demo_op)) [] = None" by (simp add: lru_find_def)
  have b: "marshal_size demo_op < 2 ^ 31" "length (replicate 393 (0 :: byte)) = marshal_size demo_op" by (simp_all add: demo_tab_facts(2))
  from tab_counts [OF demo_tab_facts(1) n b(1) demo_tab_facts(3) c b(2), of "\<lambda>x y. x" "\<lambda>d. d" "\<lambda>_. 0"]
  obtain s' r s'' td where t: "tab_run (\<lambda>x y. x) (\<lambda>d. d) (\<lambda>_. 0) demo_op demo_tab_calls conf_ca = Some s'"
    "ca_get (hash_murmur (key_image demo_op)) (replicate 393 0) 393 s' = Some ((0, Some r), s'')" "de_marshal_stats (g_buf r) demo_op = Some td"
    "\<forall>t < 6. cs_total (td_comm_stats td ! t) = of_nat (length (filter (\<lambda>c. tc_type c = t) demo_tab_calls))" by auto
  have "cs_total (td_comm_stats td ! 1) = 2 \<and> cs_total (td_comm_stats td ! 2) = 1 \<and> cs_total (td_comm_stats td ! 3) = 0"
    using t(4) [rule_format, of 1] t(4) [rule_format, of 2] t(4) [rule_format, of 3] by (simp add: demo_tab_calls_def)
  then show ?thesis using t(1-3) by blast
qed

lemma comm_stat_add_min: "cs_time_min (cdb_comm_stat_add fadd cs v False) = (if dbl_less v (cs_time_min cs) then v else cs_time_min cs)"
  by (simp add: cdb_comm_stat_add_def Let_def split: option.split)

lemma stats_fold_min:
  assumes "length st = 6" and "\<forall>c \<in> set cs. tc_type c < 6 \<and> \<not> dbl_less (secs (tc_end c - tc_begin c)) 0" and "t < 6" and "cs_time_min (st ! t) = 0"
  shows "cs_time_min (fold (\<lambda>c. stats_add fadd (tc_type c) (secs (tc_end c - tc_begin c)) False) cs st ! t) = 0"
  using assms(1,2,4)
proof (induction cs arbitrary: st)
  case (Cons c cs)
  have "length (stats_add fadd (tc_type c) (secs (tc_end c - tc_begin c)) False st) = 6" using Cons.prems(1) by (simp add: stats_add_def)
  then show ?case using Cons.IH [of "stats_add fadd (tc_type c) (secs (tc_end c - tc_begin c)) False st"] Cons.prems assms(3)
    by (cases "t = tc_type c") (simp_all add: stats_add_nth comm_stat_add_min)
qed simp

text \<open>
  C34. The shortest time is lost for all types but the first: only the type of the first statement on the tables
  is initialised, the others start from zero bytes, so that their shortest time stays 0 whatever the times of
  their statements are, as long as none is negative.
\<close>

theorem tab_min_lost:
  assumes "plain_rep s es" and "lru_find (hash_murmur (key_image op)) es = None" and "marshal_size op < 2 ^ 31"
    and "lru_room (hm_geom (m_cache s)) es (replicate (marshal_size op) 0)" and "cs \<noteq> []" and "\<forall>c \<in> set cs. tc_type c < 6"
    and "\<forall>c \<in> set cs. \<not> dbl_less (secs (tc_end c - tc_begin c)) 0" and "length buf = marshal_size op"
  shows "\<exists>s' r s'' td. tab_run fadd secs junk op cs s = Some s' \<and>
    ca_get (hash_murmur (key_image op)) buf (int (length buf)) s' = Some ((0, Some r), s'') \<and> de_marshal_stats (g_buf r) op = Some td \<and>
    (\<forall>t < 6. t \<noteq> tc_type (hd cs) \<longrightarrow> cs_time_min (td_comm_stats td ! t) = 0)"
proof -
  obtain c cs' where cs: "cs = c # cs'" using assms(5) by (cases cs) auto
  obtain s' where s': "tab_run fadd secs junk op cs s = Some s'" "tab_holds op s' (tab_runs_to fadd secs cs)"
    using tab_run_first [OF assms(1-6)] by blast
  have "cs_time_min (tab_runs_to fadd secs cs ! t) = 0" if "t < 6" "t \<noteq> tc_type c" for t
    using stats_fold_min [of "stats_add fadd (tc_type c) (secs (tc_end c - tc_begin c)) True (replicate 6 stat_null)" cs' secs t fadd] assms(6,7) that
    by (simp add: tab_runs_to_def cs stats_add_nth) (simp add: stats_add_def stat_null_def stat_of_bytes_def)
  moreover from tab_holds_read [OF s'(2) assms(8)] obtain r s'' where
    "ca_get (hash_murmur (key_image op)) buf (int (length buf)) s' = Some ((0, Some r), s'')"
    "de_marshal_stats (g_buf r) op = Some (op\<lparr>td_comm_stats := tab_runs_to fadd secs cs\<rparr>)" by blast
  ultimately show ?thesis using s'(1) cs
    by (intro exI [of _ s'] exI [of _ r] exI [of _ s''] exI [of _ "op\<lparr>td_comm_stats := tab_runs_to fadd secs cs\<rparr>"]) simp
qed

theorem tab_min_lost_witness:
  "\<exists>s' r s'' td. tab_run (\<lambda>x y. x) (\<lambda>d. d) (\<lambda>_. 0) demo_op demo_tab_calls conf_ca = Some s' \<and>
    ca_get (hash_murmur (key_image demo_op)) (replicate 393 0) 393 s' = Some ((0, Some r), s'') \<and> de_marshal_stats (g_buf r) demo_op = Some td \<and>
    cs_time_min (td_comm_stats td ! 2) = 0"
proof -
  have c: "demo_tab_calls \<noteq> []" "\<forall>c \<in> set demo_tab_calls. tc_type c < 6" "\<forall>c \<in> set demo_tab_calls. \<not> dbl_less (tc_end c - tc_begin c) 0"
    by (simp_all add: demo_tab_calls_def dbl_less_def dbl_ord_def dbl_mag_def)
  have n: "lru_find (hash_murmur (key_image demo_op)) [] = None" by (simp add: lru_find_def)
  have b: "marshal_size demo_op < 2 ^ 31" "length (replicate 393 (0 :: byte)) = marshal_size demo_op" by (simp_all add: demo_tab_facts(2))
  from tab_min_lost [where secs = "\<lambda>d. d", OF demo_tab_facts(1) n b(1) demo_tab_facts(3) c b(2), of "\<lambda>x y. x" "\<lambda>_. 0"]
  obtain s' r s'' td where t: "tab_run (\<lambda>x y. x) (\<lambda>d. d) (\<lambda>_. 0) demo_op demo_tab_calls conf_ca = Some s'"
    "ca_get (hash_murmur (key_image demo_op)) (replicate 393 0) 393 s' = Some ((0, Some r), s'')" "de_marshal_stats (g_buf r) demo_op = Some td"
    "\<forall>t < 6. t \<noteq> tc_type (hd demo_tab_calls) \<longrightarrow> cs_time_min (td_comm_stats td ! t) = 0" by auto
  have "cs_time_min (td_comm_stats td ! 2) = 0" using t(4) [rule_format, of 2] by (simp add: demo_tab_calls_def)
  then show ?thesis using t(1-3) by blast
qed

end
