(* ===== verification/Comm.thy ===== *)
theory Comm
  imports Prelude
begin

unbundle bit_operations_syntax

text \<open>
  Strings and numbers (\<open>cdb/tfc_base_comm.h\<close>). A \<open>std::string\<close> is a list of characters that may hold the
  zero character; \<open>c_str\<close> is what a constructor sees that takes a pointer to the characters. The functions
  of the C library that the code calls (\<open>isdigit\<close>, \<open>isxdigit\<close>, \<open>toupper\<close>, \<open>tolower\<close>, \<open>sprintf\<close> with one
  number, \<open>strtoul\<close> on digits) are those of the C locale on a machine with 64-bit \<open>long\<close>. The calendar
  functions \<open>localtime\<close> and \<open>mktime\<close> are parameters. A conversion that throws returns the error to the left.
\<close>

abbreviation NUL :: char where
  "NUL \<equiv> CHR 0x00"

definition c_str :: "string \<Rightarrow> string" where
  "c_str s = takeWhile (\<lambda>c. c \<noteq> NUL) s"

datatype comm_error = comm_error string

definition char_code :: "char \<Rightarrow> nat" where
  "char_code c = of_char c"

definition isdigit :: "char \<Rightarrow> bool" where
  "isdigit c \<longleftrightarrow> 48 \<le> char_code c \<and> char_code c \<le> 57"

definition isxdigit :: "char \<Rightarrow> bool" where
  "isxdigit c \<longleftrightarrow> isdigit c \<or> (65 \<le> char_code c \<and> char_code c \<le> 70) \<or> (97 \<le> char_code c \<and> char_code c \<le> 102)"

definition toupper :: "char \<Rightarrow> char" where
  "toupper c = (if 97 \<le> char_code c \<and> char_code c \<le> 122 then char_of (char_code c - 32) else c)"

definition tolower :: "char \<Rightarrow> char" where
  "tolower c = (if 65 \<le> char_code c \<and> char_code c \<le> 90 then char_of (char_code c + 32) else c)"

definition digit_val :: "char \<Rightarrow> nat" where
  "digit_val c =
     (let n = char_code c in if n \<le> 57 then n - 48 else if n \<le> 70 then n - 55 else n - 87)"

definition digit_char :: "nat \<Rightarrow> char" where
  "digit_char d = (if d < 10 then char_of (48 + d) else char_of (87 + d))"

text \<open>The digits of a number, most significant first, as \<open>sprintf\<close> prints them.\<close>

function print_nat :: "nat \<Rightarrow> nat \<Rightarrow> string" where
  "print_nat b n = (if n < b \<or> b < 2 then [digit_char n] else print_nat b (n div b) @ [digit_char (n mod b)])"
  by pat_completeness auto

termination
  by (relation "measure snd") auto

declare print_nat.simps [simp del]

definition strtoul :: "nat \<Rightarrow> string \<Rightarrow> nat" where
  "strtoul b s = min (2 ^ 64 - 1) (foldl (\<lambda>v c. b * v + digit_val c) 0 s)"

section \<open>Tests, trimming and letters\<close>

definition is_digits :: "string \<Rightarrow> bool" where
  "is_digits s \<longleftrightarrow> (if length s = 0 then False else list_all isdigit s)"

definition is_xdigits :: "string \<Rightarrow> bool" where
  "is_xdigits s \<longleftrightarrow> (if length s = 0 then False else list_all isxdigit s)"

definition trim_left :: "string \<Rightarrow> string \<Rightarrow> string" where
  "trim_left s filt =
     (let p = length (takeWhile (\<lambda>c. c \<noteq> NUL \<and> c \<in> set filt) s)
      in take (length s - p) (c_str (drop p s)))"

definition trim_right :: "string \<Rightarrow> string \<Rightarrow> string" where
  "trim_right s filt =
     (if length s = 0 then []
      else let n = length (dropWhile (\<lambda>c. c \<in> set filt) (rev s)) in take n (c_str s))"

definition trim :: "string \<Rightarrow> string \<Rightarrow> string" where
  "trim s filt = trim_right (trim_left s filt) filt"

definition upper :: "string \<Rightarrow> string" where
  "upper s = map toupper s"

definition lower :: "string \<Rightarrow> string" where
  "lower s = map tolower s"

section \<open>Times\<close>

datatype TimeField = Year | Month | Day | Hour | Minute | Second

record 'r tm_date =
  tm_year :: int
  tm_mon :: int
  tm_rest :: 'r

text \<open>The value of an \<open>int\<close> expression; overflow is undefined.\<close>

definition int_val :: "int \<Rightarrow> int option" where
  "int_val v = (if - (2 ^ 31) \<le> v \<and> v < 2 ^ 31 then Some v else None)"

definition time_add ::
    "(int \<Rightarrow> 'r tm_date) \<Rightarrow> ('r tm_date \<Rightarrow> int) \<Rightarrow> int \<Rightarrow> TimeField \<Rightarrow> int \<Rightarrow> int option" where
  "time_add localtime mktime t f i =
     (case f of
        Second \<Rightarrow> Some (t + i)
      | Minute \<Rightarrow> do { a \<leftarrow> int_val (i * 60); Some (t + a) }
      | Hour \<Rightarrow> do { a \<leftarrow> int_val (i * 60); b \<leftarrow> int_val (a * 60); Some (t + b) }
      | Day \<Rightarrow> do { a \<leftarrow> int_val (i * 60); b \<leftarrow> int_val (a * 60); c \<leftarrow> int_val (b * 24); Some (t + c) }
      | Month \<Rightarrow> do {
          let curr = localtime t;
          m \<leftarrow> int_val (tm_mon curr - 1 + i);
          y \<leftarrow> int_val (tm_year curr + m sdiv 12);
          let curr = curr\<lparr>tm_year := y\<rparr>;
          let curr = curr\<lparr>tm_mon := m smod 12 + 1\<rparr>;
          Some (mktime curr)
        }
      | Year \<Rightarrow> do {
          let curr = localtime t;
          y \<leftarrow> int_val (tm_year curr + i);
          Some (mktime (curr\<lparr>tm_year := y\<rparr>))
        })"

section \<open>Numbers to strings\<close>

definition u2s :: "32 word \<Rightarrow> string" where
  "u2s u = print_nat 10 (unat u)"

definition u2sx :: "32 word \<Rightarrow> string" where
  "u2sx u = print_nat 16 (unat u)"

definition i2s :: "32 word \<Rightarrow> string" where
  "i2s i = (if sint i < 0 then CHR ''-'' # print_nat 10 (nat (- sint i)) else print_nat 10 (nat (sint i)))"

definition c2s :: "char \<Rightarrow> string" where
  "c2s c = (if c = NUL then [] else [c])"

section \<open>Strings to numbers\<close>

definition s2u :: "string \<Rightarrow> comm_error + 32 word" where
  "s2u s =
     (if length s = 0 then Inl (comm_error ''s2u: len is 0'')
      else if \<not> list_all isdigit s then Inl (comm_error (''s2u: not digits:'' @ s))
      else Inr (of_nat (strtoul 10 s)))"

definition s2u_default :: "string \<Rightarrow> 32 word \<Rightarrow> 32 word" where
  "s2u_default s defaultvalue =
     (if length s = 0 then defaultvalue
      else if \<not> list_all isdigit s then defaultvalue
      else of_nat (strtoul 10 s))"

definition sx2u_skip :: "string \<Rightarrow> nat" where
  "sx2u_skip s = (if take 2 s = ''0x'' then 2 else 0)"

definition sx2u :: "string \<Rightarrow> comm_error + 32 word" where
  "sx2u s =
     (let idx = sx2u_skip s; len = length s - idx
      in if len = 0 \<or> len > 8 then Inl (comm_error (''sx2u: length is invalid:'' @ u2s (of_nat len)))
         else if \<not> list_all isxdigit (drop idx s) then Inl (comm_error (''sx2u: not xdigit:'' @ s))
         else Inr (of_nat (strtoul 16 (drop idx s))))"

definition sx2u_default :: "string \<Rightarrow> 32 word \<Rightarrow> 32 word" where
  "sx2u_default s defaultvalue =
     (let idx = sx2u_skip s; len = length s - idx
      in if len = 0 \<or> len > 8 then defaultvalue
         else if \<not> list_all isxdigit (drop idx s) then defaultvalue
         else of_nat (strtoul 16 (drop idx s)))"

definition s2i :: "string \<Rightarrow> comm_error + 32 word" where
  "s2i s =
     (if take 1 s = ''-''
      then (case s2u (c_str (drop 1 s)) of Inl e \<Rightarrow> Inl e | Inr u \<Rightarrow> Inr (- 1 * u))
      else s2u s)"

definition s2i_default :: "string \<Rightarrow> 32 word \<Rightarrow> 32 word" where
  "s2i_default s defaultvalue =
     (let d = (if sint defaultvalue < 0 then - 1 * defaultvalue else defaultvalue)
      in if take 1 s = ''-'' then - 1 * s2u_default (c_str (drop 1 s)) d else s2u_default s d)"

definition s2c :: "string \<Rightarrow> char" where
  "s2c s = (if length s = 0 then NUL else s ! 0)"

definition s2c_default :: "string \<Rightarrow> char \<Rightarrow> char" where
  "s2c_default s defaultvalue = (if length s = 0 then defaultvalue else s ! 0)"

text \<open>The loop over the text \<open>p\<close>; \<open>room\<close> is the number of bytes that may still be stored.\<close>

fun s2b_loop :: "string \<Rightarrow> nat \<Rightarrow> string \<Rightarrow> comm_error + byte list" where
  "s2b_loop s room [] = Inr []"
| "s2b_loop s room [c] = Inl (comm_error (''s2b: format error:'' @ s))"
| "s2b_loop s room (c1 # c2 # p) =
     (if \<not> isxdigit c1 then Inl (comm_error (''s2b: format error:'' @ s))
      else if \<not> isxdigit c2 then Inl (comm_error (''s2b: format error:'' @ s))
      else let b = of_nat (strtoul 16 [c1, c2])
           in if room \<le> 1 then Inr [b]
              else case s2b_loop s (room - 1) (if take 1 p = '' '' then drop 1 p else p) of
                     Inl e \<Rightarrow> Inl e
                   | Inr bs \<Rightarrow> Inr (b # bs))"

definition s2b :: "string \<Rightarrow> nat \<Rightarrow> comm_error + byte list" where
  "s2b s maxlen = (if maxlen = 0 then Inr [] else if length s = 0 then Inr [] else s2b_loop s maxlen (c_str s))"

section \<open>Trimming\<close>

lemma c_str_id: "NUL \<notin> set s \<Longrightarrow> c_str s = s"
  unfolding c_str_def by (simp add: takeWhile_eq_all_conv) metis

lemma trim_left_dropWhile:
  assumes "NUL \<notin> set s"
  shows "trim_left s filt = dropWhile (\<lambda>c. c \<in> set filt) s"
proof -
  have "takeWhile (\<lambda>c. c \<noteq> NUL \<and> c \<in> set filt) s = takeWhile (\<lambda>c. c \<in> set filt) s"
    using assms by (intro takeWhile_cong) auto
  moreover have "NUL \<notin> set (drop k s)" for k using assms by (meson in_set_dropD)
  ultimately show ?thesis by (simp add: trim_left_def c_str_id dropWhile_eq_drop)
qed

lemma trim_right_dropWhile:
  assumes "NUL \<notin> set s"
  shows "trim_right s filt = rev (dropWhile (\<lambda>c. c \<in> set filt) (rev s))"
proof -
  define t where "t = takeWhile (\<lambda>c. c \<in> set filt) (rev s)"
  define d where "d = dropWhile (\<lambda>c. c \<in> set filt) (rev s)"
  have "s = rev d @ rev t" unfolding t_def d_def rev_append [symmetric] by simp
  then have "take (length d) s = rev d" by simp
  then show ?thesis using assms by (simp add: trim_right_def c_str_id d_def)
qed

lemma trim_left_split:
  assumes "NUL \<notin> set s"
  obtains l where "s = l @ trim_left s filt" and "set l \<subseteq> set filt"
    and "trim_left s filt = [] \<or> hd (trim_left s filt) \<notin> set filt"
proof
  show "s = takeWhile (\<lambda>c. c \<in> set filt) s @ trim_left s filt" by (simp add: trim_left_dropWhile [OF assms])
  show "set (takeWhile (\<lambda>c. c \<in> set filt) s) \<subseteq> set filt" by (auto dest: set_takeWhileD)
  show "trim_left s filt = [] \<or> hd (trim_left s filt) \<notin> set filt"
    using hd_dropWhile [of "\<lambda>c. c \<in> set filt" s] by (auto simp: trim_left_dropWhile [OF assms])
qed

lemma trim_right_split:
  assumes "NUL \<notin> set s"
  obtains r where "s = trim_right s filt @ r" and "set r \<subseteq> set filt"
    and "trim_right s filt = [] \<or> last (trim_right s filt) \<notin> set filt"
proof
  let ?P = "\<lambda>c. c \<in> set filt"
  show "s = trim_right s filt @ rev (takeWhile ?P (rev s))"
    unfolding trim_right_dropWhile [OF assms] rev_append [symmetric] by simp
  show "set (rev (takeWhile ?P (rev s))) \<subseteq> set filt" by (auto dest: set_takeWhileD)
  show "trim_right s filt = [] \<or> last (trim_right s filt) \<notin> set filt"
    using hd_dropWhile [of ?P "rev s"] by (auto simp: trim_right_dropWhile [OF assms] last_rev)
qed

text \<open>
  C26. \<open>trim\<close> cuts exactly the characters of the filter from both ends: the string is some filter
  characters, the result, and some filter characters, and the result neither begins nor ends with one.
  The string must not hold a zero character, at which the functions would cut it.
\<close>

theorem trim_cuts_ends:
  assumes "NUL \<notin> set s"
  shows "\<exists>l r. s = l @ trim s filt @ r \<and> set l \<subseteq> set filt \<and> set r \<subseteq> set filt \<and>
    (trim s filt = [] \<or> hd (trim s filt) \<notin> set filt \<and> last (trim s filt) \<notin> set filt)"
proof -
  obtain l where l: "s = l @ trim_left s filt" "set l \<subseteq> set filt"
    "trim_left s filt = [] \<or> hd (trim_left s filt) \<notin> set filt"
    using trim_left_split [OF assms] by metis
  define t where "t = trim_left s filt"
  have "NUL \<notin> set t" using assms l(1) unfolding t_def by (metis UnCI set_append)
  then obtain r where r: "t = trim_right t filt @ r" "set r \<subseteq> set filt"
    "trim_right t filt = [] \<or> last (trim_right t filt) \<notin> set filt"
    using trim_right_split by metis
  have "trim_right t filt = [] \<or> hd (trim_right t filt) = hd t"
    using r(1) by (metis hd_append2)
  then show ?thesis using l r unfolding trim_def t_def [symmetric] by (metis append_is_Nil_conv)
qed

theorem trim_cuts_ends_witness:
  "\<exists>l r. ''  a b ''  = l @ trim ''  a b '' '' '' @ r \<and> set l \<subseteq> set '' '' \<and> set r \<subseteq> set '' '' \<and>
    (trim ''  a b '' '' '' = [] \<or> hd (trim ''  a b '' '' '') \<notin> set '' '' \<and> last (trim ''  a b '' '' '') \<notin> set '' '')"
  by (rule trim_cuts_ends) simp

section \<open>Numbers and strings\<close>

lemma char_code_of [simp]: "n < 256 \<Longrightarrow> char_code (char_of n) = n"
  by (simp add: char_code_def)

lemma digit_char_simps:
  assumes "d < 16"
  shows "digit_val (digit_char d) = d" and "isxdigit (digit_char d)" and "d < 10 \<Longrightarrow> isdigit (digit_char d)"
  using assms by (auto simp: digit_val_def digit_char_def isdigit_def isxdigit_def Let_def)

lemma print_nat_value:
  assumes "2 \<le> b" and "b \<le> 16"
  shows "foldl (\<lambda>v c. b * v + digit_val c) 0 (print_nat b n) = n"
proof (induction n rule: less_induct)
  case (less n)
  show ?case
  proof (cases "n < b")
    case True
    then show ?thesis using assms(2) digit_char_simps(1) [of n] by (subst print_nat.simps) simp
  next
    case False
    have "n mod b < b" using assms(1) by (intro mod_less_divisor) simp
    then have "digit_val (digit_char (n mod b)) = n mod b" using assms(2) by (intro digit_char_simps(1)) simp
    moreover have "n div b < n" using False assms(1) by (intro div_less_dividend) auto
    ultimately show ?thesis using False assms(1) less.IH by (subst print_nat.simps) simp
  qed
qed

lemma print_nat_chars:
  assumes "2 \<le> b" and "\<And>d. d < b \<Longrightarrow> P (digit_char d)"
  shows "list_all P (print_nat b n)"
  using assms
proof (induction b n rule: print_nat.induct)
  case (1 b n)
  then show ?case by (subst print_nat.simps) auto
qed

lemma print_nat_length:
  assumes "2 \<le> b" and "n < b ^ Suc k"
  shows "length (print_nat b n) \<le> Suc k"
  using assms(2)
proof (induction k arbitrary: n)
  case (Suc k)
  then have "n div b < b ^ Suc k" by (simp add: less_mult_imp_div_less mult.commute)
  then show ?case using Suc.IH by (subst print_nat.simps) simp
qed (use assms(1) in \<open>subst print_nat.simps, simp\<close>)

lemma print_nat_nonempty [simp]: "print_nat b n \<noteq> []"
  by (subst print_nat.simps) simp

lemma print_decimal: "list_all isdigit (print_nat 10 n)"
  by (rule print_nat_chars) (simp_all add: digit_char_simps)

lemma print_hex: "list_all isxdigit (print_nat 16 n)"
  by (rule print_nat_chars) (simp_all add: digit_char_simps)

lemma s2u_print: "n < 2 ^ 32 \<Longrightarrow> s2u (print_nat 10 n) = Inr (of_nat n)"
  by (simp add: s2u_def print_decimal strtoul_def print_nat_value)

lemma not_digit [simp]: "\<not> isdigit NUL" "\<not> isdigit (CHR ''-'')" "\<not> isxdigit (CHR ''x'')"
  by (simp_all add: isdigit_def isxdigit_def char_code_def)

lemma c_str_decimal: "c_str (print_nat 10 n) = print_nat 10 n"
  using print_decimal [of n] by (intro c_str_id) (auto simp: list_all_iff)

lemma decimal_no_sign: "take 1 (print_nat 10 n) \<noteq> ''-''"
  using print_decimal [of n] by (cases "print_nat 10 n") auto

lemma hex_no_prefix: "sx2u_skip (print_nat 16 n) = 0"
proof -
  have "CHR ''x'' \<notin> set (print_nat 16 n)" using print_hex [of n] by (auto simp: list_all_iff)
  then have "take 2 (print_nat 16 n) \<noteq> ''0x''" by (metis in_set_takeD list.set_intros)
  then show ?thesis by (simp add: sx2u_skip_def)
qed

lemma sx2u_print:
  assumes "n < 2 ^ 32"
  shows "sx2u (print_nat 16 n) = Inr (of_nat n)" and "sx2u (''0x'' @ print_nat 16 n) = Inr (of_nat n)"
proof -
  have l: "length (print_nat 16 n) \<le> 8" using print_nat_length [of 16 n 7] assms by simp
  have v: "strtoul 16 (print_nat 16 n) = n" using assms by (simp add: strtoul_def print_nat_value)
  show "sx2u (print_nat 16 n) = Inr (of_nat n)" using l by (simp add: sx2u_def hex_no_prefix print_hex v Let_def)
  have "sx2u_skip (''0x'' @ print_nat 16 n) = 2" by (simp add: sx2u_skip_def numeral_2_eq_2)
  then show "sx2u (''0x'' @ print_nat 16 n) = Inr (of_nat n)"
    using l by (simp add: sx2u_def print_hex v Let_def numeral_2_eq_2 del: append_Cons)
qed

lemma s2i_i2s: "s2i (i2s i) = Inr i"
proof (cases "sint i < 0")
  case True
  have "- (2 ^ 31) \<le> sint i" using sint_greater_eq [of i] by simp
  then have n: "nat (- sint i) < 2 ^ 32" by simp
  have "of_nat (nat (- sint i)) = - i" using True by simp
  then show ?thesis using True s2u_print [OF n] by (simp add: i2s_def s2i_def c_str_decimal)
next
  case False
  have "sint i < 2 ^ 31" using sint_less [of i] by simp
  then have n: "nat (sint i) < 2 ^ 32" by simp
  then show ?thesis using False s2u_print [OF n] decimal_no_sign by (simp add: i2s_def s2i_def)
qed

text \<open>
  C25. Printing a number and reading it back gives the number, for every 32-bit value: unsigned decimal,
  unsigned hexadecimal with and without the prefix \<open>0x\<close>, and signed decimal, the least integer included.
\<close>

theorem number_roundtrip:
  "s2u (u2s u) = Inr u \<and> sx2u (u2sx u) = Inr u \<and> sx2u (''0x'' @ u2sx u) = Inr u \<and> s2i (i2s i) = Inr i"
proof -
  have u: "unat u < 2 ^ 32" using unsigned_less [of u, where ?'a = nat] by simp
  show ?thesis using s2u_print [OF u] sx2u_print [OF u] s2i_i2s by (simp add: u2s_def u2sx_def)
qed

text \<open>
  C37. The default of \<open>s2i\<close> loses its sign: for a text that is not a number the function returns the
  absolute value of the default, and for such a text after a minus sign its negation, so a negative default
  is not what comes back.
\<close>

theorem s2i_default_sign:
  assumes "\<not> is_digits s" and "NUL \<notin> set s" and "take 1 s \<noteq> ''-''"
  shows "s2i_default s d = (if sint d < 0 then - d else d) \<and> s2i_default (''-'' @ s) d = (if sint d < 0 then d else - d)"
  using assms by (auto simp: s2i_default_def s2u_default_def is_digits_def c_str_id Let_def)

theorem s2i_default_sign_witness: "s2i_default ''none'' (- 5) = 5 \<and> s2i_default ''-none'' 5 = - 5"
  using s2i_default_sign [of "''none''" "- 5"] s2i_default_sign [of "''none''" 5] by (simp add: is_digits_def isdigit_def char_code_def)

section \<open>Bytes in hexadecimal\<close>

text \<open>Bytes written with two digits each; the flag says whether a blank follows.\<close>

definition hex_byte :: "byte \<Rightarrow> string" where
  "hex_byte b = [digit_char (unat b div 16), digit_char (unat b mod 16)]"

definition hex_text :: "(byte \<times> bool) list \<Rightarrow> string" where
  "hex_text bs = concat (map (\<lambda>(b, blank). hex_byte b @ (if blank then '' '' else [])) bs)"

lemma hex_byte_value:
  "of_nat (strtoul 16 (hex_byte b)) = b" "list_all isxdigit (hex_byte b)"
proof -
  have u: "unat b < 256" using unsigned_less [of b, where ?'a = nat] by simp
  then have d: "unat b div 16 < 16" by (simp add: less_mult_imp_div_less)
  show "list_all isxdigit (hex_byte b)" using d by (simp add: hex_byte_def digit_char_simps)
  have "strtoul 16 (hex_byte b) = unat b" using d u by (simp add: strtoul_def hex_byte_def digit_char_simps)
  then show "of_nat (strtoul 16 (hex_byte b)) = b" by simp
qed

lemma hex_text_no_blank: "take 1 (hex_text bs) \<noteq> '' ''"
proof (cases bs)
  case (Cons a bs')
  have "\<not> isxdigit (CHR '' '')" by (simp add: isxdigit_def isdigit_def char_code_def)
  then show ?thesis using hex_byte_value(2) [of "fst a"] Cons by (auto simp: hex_text_def hex_byte_def split: prod.splits)
qed (simp add: hex_text_def)

lemma s2b_loop_hex:
  assumes "0 < room"
  shows "s2b_loop s room (hex_text bs) = Inr (take room (map fst bs))"
  using assms
proof (induction bs arbitrary: room)
  case (Cons a bs)
  obtain b blank where a: "a = (b, blank)" by (cases a)
  define rest where "rest = (if blank then '' '' else []) @ hex_text bs"
  have "hex_text (a # bs) = hex_byte b @ rest" by (simp add: hex_text_def a rest_def)
  moreover have "(if take 1 rest = '' '' then drop 1 rest else rest) = hex_text bs"
    using hex_text_no_blank [of bs] by (simp add: rest_def)
  ultimately show ?case using hex_byte_value [of b] Cons by (cases room) (auto simp: hex_byte_def a Let_def)
qed (simp add: hex_text_def)

lemma hex_text_chars: "NUL \<notin> set (hex_text bs)"
proof -
  have "\<not> isxdigit NUL" by (simp add: isxdigit_def char_code_def)
  then have "NUL \<notin> set (hex_byte b)" for b using hex_byte_value(2) [of b] by (auto simp: list_all_iff)
  then show ?thesis by (auto simp: hex_text_def)
qed

text \<open>
  C27. \<open>s2b\<close> reads back bytes written with two hexadecimal digits each, with or without blanks between
  them in any mixture, up to the room of the buffer.
\<close>

theorem s2b_reads_hex: "s2b (hex_text bs) maxlen = Inr (take maxlen (map fst bs))"
proof (cases "bs = []")
  case False
  then have "hex_text bs \<noteq> []" by (cases bs) (auto simp: hex_text_def hex_byte_def)
  then show ?thesis using s2b_loop_hex [of maxlen "hex_text bs" bs] by (simp add: s2b_def c_str_id [OF hex_text_chars])
qed (simp add: s2b_def hex_text_def)

section \<open>Adding to times\<close>

text \<open>
  C28. Adding months hands \<open>mktime\<close> the date that many months later, counted in months, whatever the signs,
  and keeps the other fields.
\<close>

theorem time_add_months:
  assumes "0 \<le> tm_mon (localtime t)" and "tm_mon (localtime t) < 12" and "\<bar>tm_year (localtime t)\<bar> < 2 ^ 30" and "\<bar>i\<bar> < 2 ^ 30"
  shows "\<exists>d. time_add localtime mktime t Month i = Some (mktime d) \<and>
    12 * tm_year d + tm_mon d = 12 * tm_year (localtime t) + tm_mon (localtime t) + i \<and> tm_rest d = tm_rest (localtime t)"
proof -
  define m where "m = tm_mon (localtime t) - 1 + i"
  define y where "y = tm_year (localtime t) + m sdiv 12"
  have mb: "\<bar>m\<bar> \<le> 2 ^ 30 + 12" using assms unfolding m_def by linarith
  then have m: "int_val m = Some m" by (simp add: int_val_def abs_le_iff)
  have div: "12 * (m sdiv 12) + m smod 12 = m" by (rule mult_sdiv_smod_eq)
  have "\<bar>m sdiv 12\<bar> \<le> 2 ^ 30"
    using mb by (auto simp: signed_divide_int_def abs_mult abs_sgn_eq)
  then have "- (2 ^ 31) \<le> y" "y < 2 ^ 31" using assms(3) by (auto simp: y_def abs_le_iff abs_less_iff)
  then have y: "int_val y = Some y" by (simp add: int_val_def)
  define d where "d = (localtime t)\<lparr>tm_year := y, tm_mon := m smod 12 + 1\<rparr>"
  have "time_add localtime mktime t Month i = Some (mktime d)"
    using m y by (simp add: time_add_def m_def y_def d_def Let_def)
  moreover have "12 * tm_year d + tm_mon d = 12 * tm_year (localtime t) + tm_mon (localtime t) + i"
    using div by (simp add: d_def y_def m_def)
  ultimately show ?thesis by (intro exI [of _ d]) (simp add: d_def)
qed

theorem time_add_months_witness:
  "\<exists>d :: int tm_date. time_add (\<lambda>_. \<lparr>tm_year = 126, tm_mon = 1, tm_rest = (16 :: int)\<rparr>) tm_rest 0 Month (- 14) = Some (tm_rest d) \<and>
    12 * tm_year d + tm_mon d = 12 * 126 + 1 + (- 14) \<and> tm_rest d = 16"
  using time_add_months [of "\<lambda>_. \<lparr>tm_year = 126, tm_mon = 1, tm_rest = (16 :: int)\<rparr>" 0 "- 14" tm_rest] by simp

text \<open>
  C36. Adding days multiplies in 32-bit integers: the result is the time that many days later exactly when
  there are at most 24855 of them, in either direction; beyond that the product overflows.
\<close>

theorem time_add_days:
  "time_add localtime mktime t Day i = (if \<bar>i\<bar> \<le> 24855 then Some (t + 86400 * i) else None)"
  by (auto simp: time_add_def int_val_def abs_le_iff not_le split: bind_splits)

end
