(* ===== verification/ConfigFile.thy ===== *)
theory ConfigFile
  imports Comm
begin

text \<open>
  The configuration file (\<open>cdb/tfc_base_config_file.cpp\<close>, interface in \<open>cdb/tfc_base_config.h\<close>): nested
  sections \<open><name>\<close> ... \<open></name>\<close> with pairs \<open>name = value\<close> and single words. The files of the machine are a
  parameter, a partial function from names to contents. A load that throws returns the error to the left;
  the object it leaves half filled is destroyed by the only caller and is not described. The maps of the
  class are HOL maps.

  The theorem at the end says that loading the text of a tree of sections gives, for each path and name,
  the last value the tree has there.
\<close>

datatype conf_load_error = conf_load_error string
datatype conf_not_find = conf_not_find string

record CFileConfig =
  cf_filename :: string
  cf_pairs :: "string \<rightharpoonup> (string \<rightharpoonup> string)"
  cf_paths :: "string \<rightharpoonup> string list"
  cf_domains :: "string \<rightharpoonup> string list"

definition CFileConfig_new :: CFileConfig where
  "CFileConfig_new = \<lparr>cf_filename = [], cf_pairs = Map.empty, cf_paths = Map.empty, cf_domains = Map.empty\<rparr>"

datatype EntryType = T_STARTPATH | T_STOPPATH | T_NULL | T_PAIR | T_DOMAIN | T_ERROR

abbreviation TAB :: char where
  "TAB \<equiv> CHR 0x09"

abbreviation NL :: char where
  "NL \<equiv> CHR 0x0A"

abbreviation CR :: char where
  "CR \<equiv> CHR 0x0D"

abbreviation BACKSLASH :: char where
  "BACKSLASH \<equiv> CHR 0x5C"

definition start_path :: "string \<Rightarrow> string" where
  "start_path s = take (length s - 2) (drop 1 (c_str s))"

definition stop_path :: "string \<Rightarrow> string" where
  "stop_path s = take (length s - 3) (drop 2 (c_str s))"

definition is_sep :: "char \<Rightarrow> bool" where
  "is_sep c \<longleftrightarrow> c = CHR ''='' \<or> c = TAB \<or> c = CHR '' ''"

definition decode_pair :: "string \<Rightarrow> conf_load_error + string \<times> string" where
  "decode_pair s =
     (let p = c_str s;
          n = length (takeWhile (\<lambda>c. \<not> is_sep c) p);
          find = n < length p
      in if \<not> find \<or> n = 0 then Inl (conf_load_error (''CFileConfig::Load:can not find name: '' @ s))
         else let name = take n p;
                  value = dropWhile is_sep (drop n p)
              in Inr (name, value))"

definition entry_type :: "string \<Rightarrow> EntryType" where
  "entry_type s =
     (if length s = 0 then T_NULL
      else if s ! 0 = CHR ''<''
      then (if last s = CHR ''>''
            then (if take 1 (drop 1 s) = ''/'' then T_STOPPATH else T_STARTPATH)
            else T_ERROR)
      else if CHR '' '' \<notin> set s \<and> TAB \<notin> set s \<and> CHR ''='' \<notin> set s then T_DOMAIN
      else T_PAIR)"

text \<open>Every backslash followed by \<open>n\<close> becomes a newline, from left to right.\<close>

fun newlines :: "string \<Rightarrow> string" where
  "newlines [] = []"
| "newlines [c] = [c]"
| "newlines (c # d # s) = (if c = BACKSLASH \<and> d = CHR ''n'' then NL # newlines s else c # newlines (d # s))"

definition trim_comment :: "string \<Rightarrow> string" where
  "trim_comment s = (if take 1 s = ''#'' then [] else newlines s)"

definition join_path :: "string list \<Rightarrow> string" where
  "join_path ps = concat (map (\<lambda>p. BACKSLASH # p) ps)"

definition conf_path :: "string list \<Rightarrow> conf_load_error + string" where
  "conf_path path =
     (if length path = 0 then Inl (conf_load_error ''CFileConfig::Load:must not into here'')
      else let s = join_path path in Inr (take (length s - 1) (drop 1 (c_str s))))"

definition parent_path :: "string list \<Rightarrow> conf_load_error + string" where
  "parent_path path =
     (if length path = 0 then Inl (conf_load_error ''CFileConfig::Load:must not into here'')
      else if length path = 1 then Inr []
      else let s = join_path (butlast path) in Inr (take (length s - 1) (drop 1 (c_str s))))"

definition push_at :: "string \<Rightarrow> string \<Rightarrow> (string \<rightharpoonup> string list) \<Rightarrow> string \<rightharpoonup> string list" where
  "push_at k v m = m(k \<mapsto> (case m k of None \<Rightarrow> [] | Some vs \<Rightarrow> vs) @ [v])"

definition put_pair :: "string \<Rightarrow> string \<Rightarrow> string \<Rightarrow> (string \<rightharpoonup> (string \<rightharpoonup> string)) \<Rightarrow> string \<rightharpoonup> (string \<rightharpoonup> string)" where
  "put_pair k n v m = m(k \<mapsto> (case m k of None \<Rightarrow> Map.empty | Some p \<Rightarrow> p)(n \<mapsto> v))"

text \<open>One turn of the loop over the lines.\<close>

definition load_line :: "string \<Rightarrow> string list \<times> CFileConfig \<Rightarrow> conf_load_error + string list \<times> CFileConfig" where
  "load_line sline st = (case st of (path_stack, c) \<Rightarrow>
     let sreal = trim_comment (trim_right (trim_left sline [CHR '' '', TAB]) [CHR '' '', TAB, CR, NL])
     in case entry_type sreal of
          T_STARTPATH \<Rightarrow>
            (let path_stack = path_stack @ [start_path sreal]
             in case parent_path path_stack of
                  Inl e \<Rightarrow> Inl e
                | Inr pp \<Rightarrow> Inr (path_stack, c\<lparr>cf_paths := push_at pp (start_path sreal) (cf_paths c)\<rparr>))
        | T_STOPPATH \<Rightarrow>
            (if path_stack = [] \<or> last path_stack \<noteq> stop_path sreal
             then Inl (conf_load_error (''CFileConfig::Load: path not match: '' @ stop_path sreal))
             else Inr (butlast path_stack, c))
        | T_NULL \<Rightarrow> Inr (path_stack, c)
        | T_PAIR \<Rightarrow>
            (if length path_stack = 0 then Inl (conf_load_error ''CFileConfig::Load: path is null'')
             else case decode_pair sreal of
                    Inl e \<Rightarrow> Inl e
                  | Inr (name, value) \<Rightarrow>
                      (case conf_path path_stack of
                         Inl e \<Rightarrow> Inl e
                       | Inr p \<Rightarrow> Inr (path_stack, c\<lparr>cf_pairs := put_pair p name value (cf_pairs c),
                                                   cf_domains := push_at p sreal (cf_domains c)\<rparr>)))
        | T_DOMAIN \<Rightarrow>
            (if length path_stack = 0 then Inl (conf_load_error ''CFileConfig::Load: path is null'')
             else case conf_path path_stack of
                    Inl e \<Rightarrow> Inl e
                  | Inr p \<Rightarrow> Inr (path_stack, c\<lparr>cf_domains := push_at p sreal (cf_domains c)\<rparr>))
        | T_ERROR \<Rightarrow> Inl (conf_load_error (''CFileConfig::Load: invalid:'' @ sreal)))"

primrec load_lines :: "string list \<Rightarrow> string list \<times> CFileConfig \<Rightarrow> conf_load_error + string list \<times> CFileConfig" where
  "load_lines [] st = Inr st"
| "load_lines (l # ls) st = (case load_line l st of Inl e \<Rightarrow> Inl e | Inr st' \<Rightarrow> load_lines ls st')"

text \<open>The lines \<open>getline\<close> gives for a text: the last one may lack its newline.\<close>

function getlines :: "string \<Rightarrow> string list" where
  "getlines s =
     (if s = [] then [] else takeWhile (\<lambda>c. c \<noteq> NL) s # getlines (drop 1 (dropWhile (\<lambda>c. c \<noteq> NL) s)))"
  by pat_completeness auto

termination
proof (relation "measure length")
  fix s :: string
  assume "s \<noteq> []"
  then show "(drop 1 (dropWhile (\<lambda>c. c \<noteq> NL) s), s) \<in> measure length"
    using length_dropWhile_le [of "\<lambda>c. c \<noteq> NL" s] by (cases s) (auto simp: less_Suc_eq_le)
qed simp

declare getlines.simps [simp del]

definition Load :: "(string \<rightharpoonup> string) \<Rightarrow> CFileConfig \<Rightarrow> conf_load_error + CFileConfig" where
  "Load files c =
     (if cf_filename c = [] then Inl (conf_load_error ''CFileConfig::Load: filename is null'')
      else case files (cf_filename c) of
             None \<Rightarrow> Inl (conf_load_error (''CFileConfig::Load: can not open '' @ cf_filename c))
           | Some text \<Rightarrow>
               (let c = c\<lparr>cf_pairs := Map.empty, cf_paths := Map.empty, cf_domains := Map.empty\<rparr>
                in case load_lines (getlines text) ([], c) of
                     Inl e \<Rightarrow> Inl e
                   | Inr (path_stack, c) \<Rightarrow>
                       (if length path_stack \<noteq> 0 then Inl (conf_load_error ''CFileConfig::Load: path havenot over'')
                        else Inr c)))"

definition conf_Init :: "(string \<rightharpoonup> string) \<Rightarrow> string \<Rightarrow> CFileConfig \<Rightarrow> conf_load_error + CFileConfig" where
  "conf_Init files filename c = Load files (c\<lparr>cf_filename := filename\<rparr>)"

section \<open>Lookups\<close>

text \<open>The position of the last backslash behind the first character, or the first character.\<close>

definition last_backslash :: "string \<Rightarrow> nat" where
  "last_backslash name = length name - 1 - length (takeWhile (\<lambda>c. c \<noteq> BACKSLASH) (rev (drop 1 name)))"

definition conf_get :: "CFileConfig \<Rightarrow> string \<Rightarrow> conf_not_find + string" where
  "conf_get c name =
     (if length name = 0 then Inl (conf_not_find ''CFileConfig::[] is not find'')
      else let p1 = length name - 1;
               p = last_backslash name
           in if p = 0 \<or> p = p1 then Inl (conf_not_find (''CFileConfig::[] path is null:'' @ name))
              else let path = take p (c_str name);
                       realname = take (p1 - p) (c_str (drop (p + 1) name))
                   in case cf_pairs c path of
                        None \<Rightarrow> Inl (conf_not_find (''CFileConfig::['' @ name @ ''] is not find''))
                      | Some ps \<Rightarrow>
                          (case ps realname of
                             None \<Rightarrow> Inl (conf_not_find (''CFileConfig::['' @ name @ ''] is not find''))
                           | Some v \<Rightarrow> Inr v))"

definition GetPairs :: "CFileConfig \<Rightarrow> string \<Rightarrow> string \<rightharpoonup> string" where
  "GetPairs c path = (case cf_pairs c path of None \<Rightarrow> Map.empty | Some ps \<Rightarrow> ps)"

definition GetDomains :: "CFileConfig \<Rightarrow> string \<Rightarrow> string list" where
  "GetDomains c path = (case cf_domains c path of None \<Rightarrow> [] | Some ds \<Rightarrow> ds)"

definition GetSubPath :: "CFileConfig \<Rightarrow> string \<Rightarrow> string list" where
  "GetSubPath c path = (case cf_paths c path of None \<Rightarrow> [] | Some ps \<Rightarrow> ps)"

section \<open>Trees of sections and their text\<close>

datatype conf_entry = EPair string string | EWord string | ESection string "conf_entry list"

definition indented :: "nat \<Rightarrow> string \<Rightarrow> string" where
  "indented d s = replicate d TAB @ s"

fun entry_lines :: "nat \<Rightarrow> conf_entry \<Rightarrow> string list" where
  "entry_lines d (EPair n v) = [indented d (n @ '' = '' @ v)]"
| "entry_lines d (EWord w) = [indented d w]"
| "entry_lines d (ESection s es) =
     [indented d (''<'' @ s @ ''>'')] @ concat (map (entry_lines (Suc d)) es) @ [indented d (''</'' @ s @ ''>'')]"

definition conf_text :: "conf_entry list \<Rightarrow> string" where
  "conf_text es = concat (map (\<lambda>l. l @ [NL]) (concat (map (entry_lines 0) es)))"

definition word_ok :: "string \<Rightarrow> bool" where
  "word_ok w \<longleftrightarrow> w \<noteq> [] \<and>
     list_all (\<lambda>c. c \<notin> set [NUL, TAB, NL, CR, CHR '' '', CHR ''='', BACKSLASH, CHR ''<'', CHR ''>'', CHR ''/'', CHR ''#'']) w"

definition value_ok :: "string \<Rightarrow> bool" where
  "value_ok v \<longleftrightarrow> v \<noteq> [] \<and> list_all (\<lambda>c. c \<notin> set [NUL, NL, BACKSLASH]) v \<and> \<not> is_sep (hd v) \<and>
     last v \<notin> set [CHR '' '', TAB, CR, NL]"

fun entry_ok :: "conf_entry \<Rightarrow> bool" where
  "entry_ok (EPair n v) \<longleftrightarrow> word_ok n \<and> value_ok v"
| "entry_ok (EWord w) \<longleftrightarrow> word_ok w"
| "entry_ok (ESection s es) \<longleftrightarrow> word_ok s \<and> list_all entry_ok es"

fun is_section :: "conf_entry \<Rightarrow> bool" where
  "is_section (ESection s es) \<longleftrightarrow> True"
| "is_section _ \<longleftrightarrow> False"

definition path_name :: "string list \<Rightarrow> string" where
  "path_name ps = drop 1 (join_path ps)"

fun put_entry :: "string list \<Rightarrow> conf_entry \<Rightarrow> CFileConfig \<Rightarrow> CFileConfig" where
  "put_entry st (EPair n v) c = c\<lparr>cf_pairs := put_pair (path_name st) n v (cf_pairs c),
     cf_domains := push_at (path_name st) (n @ '' = '' @ v) (cf_domains c)\<rparr>"
| "put_entry st (EWord w) c = c\<lparr>cf_domains := push_at (path_name st) w (cf_domains c)\<rparr>"
| "put_entry st (ESection s es) c =
     fold (put_entry (st @ [s])) es (c\<lparr>cf_paths := push_at (path_name st) s (cf_paths c)\<rparr>)"

lemma newlines_id: "BACKSLASH \<notin> set s \<Longrightarrow> newlines s = s"
  by (induction s rule: newlines.induct) auto

lemma trim_indented:
  assumes "s \<noteq> []" and "NUL \<notin> set s" and "hd s \<notin> set [CHR '' '', TAB]" and "last s \<notin> set [CHR '' '', TAB, CR, NL]"
  shows "trim_right (trim_left (indented d s) [CHR '' '', TAB]) [CHR '' '', TAB, CR, NL] = s"
proof -
  have "dropWhile (\<lambda>c. c \<in> set [CHR '' '', TAB]) (indented d s) = s"
    using assms(1,3) by (cases s) (simp_all add: indented_def dropWhile_append3)
  then have "trim_left (indented d s) [CHR '' '', TAB] = s"
    using assms(2) by (subst trim_left_dropWhile) (auto simp: indented_def)
  moreover have "dropWhile (\<lambda>c. c \<in> set [CHR '' '', TAB, CR, NL]) (rev s) = rev s"
    using assms(1,4) by (cases s rule: rev_cases) auto
  ultimately show ?thesis by (simp only: trim_right_dropWhile [OF assms(2)] rev_rev_ident)
qed

lemma load_line_eq:
  assumes "s \<noteq> []" and "NUL \<notin> set s" and "BACKSLASH \<notin> set s" and "hd s \<notin> set [CHR '' '', TAB, CHR ''#'']"
    and "last s \<notin> set [CHR '' '', TAB, CR, NL]"
  shows "trim_comment (trim_right (trim_left (indented d s) [CHR '' '', TAB]) [CHR '' '', TAB, CR, NL]) = s"
proof -
  have "take 1 s \<noteq> ''#''" using assms(1,4) by (cases s) auto
  then show ?thesis using assms by (simp add: trim_indented trim_comment_def newlines_id)
qed

lemma word_okD:
  assumes "word_ok w"
  shows "w \<noteq> []" and "c_str w = w" and "BACKSLASH \<notin> set w" and "NUL \<notin> set w"
    and "c \<in> set w \<Longrightarrow> c \<notin> set [NUL, TAB, NL, CR, CHR '' '', CHR ''='', BACKSLASH, CHR ''<'', CHR ''>'', CHR ''/'', CHR ''#'']"
  using assms by (auto simp: word_ok_def list_all_iff intro!: c_str_id)

lemma path_names:
  assumes "list_all word_ok st"
  shows "NUL \<notin> set (join_path st)" and "st \<noteq> [] \<Longrightarrow> conf_path st = Inr (path_name st)"
    and "parent_path (st @ [s]) = Inr (path_name st)"
proof -
  show n: "NUL \<notin> set (join_path st)"
    using assms word_okD(4) by (auto simp: join_path_def list_all_iff)
  show "st \<noteq> [] \<Longrightarrow> conf_path st = Inr (path_name st)"
    by (simp add: conf_path_def path_name_def c_str_id [OF n] Let_def)
  show "parent_path (st @ [s]) = Inr (path_name st)"
    by (simp add: parent_path_def path_name_def c_str_id [OF n] Let_def) (simp add: join_path_def)
qed

lemma load_section_lines:
  assumes "word_ok s" and "list_all word_ok st"
  shows "load_line (indented d (''<'' @ s @ ''>'')) (st, c) =
      Inr (st @ [s], c\<lparr>cf_paths := push_at (path_name st) s (cf_paths c)\<rparr>)"
    and "load_line (indented d (''</'' @ s @ ''>'')) (st @ [s], c) = Inr (st, c)"
proof -
  note w = word_okD [OF assms(1)]
  have "trim_comment (trim_right (trim_left (indented d (''<'' @ s @ ''>'')) [CHR '' '', TAB]) [CHR '' '', TAB, CR, NL]) = ''<'' @ s @ ''>''"
    using w by (intro load_line_eq) auto
  moreover have "hd s \<noteq> CHR ''/''" using w(1) w(5) [of "hd s"] by auto
  then have "entry_type (''<'' @ s @ ''>'') = T_STARTPATH" using w(1) by (cases s) (auto simp: entry_type_def)
  moreover have "start_path (''<'' @ s @ ''>'') = s" using w(4) by (simp add: start_path_def c_str_id)
  ultimately show "load_line (indented d (''<'' @ s @ ''>'')) (st, c) =
      Inr (st @ [s], c\<lparr>cf_paths := push_at (path_name st) s (cf_paths c)\<rparr>)"
    using path_names(3) [OF assms(2)] by (simp add: load_line_def Let_def del: append_Cons append_Nil)
  have "trim_comment (trim_right (trim_left (indented d (''</'' @ s @ ''>'')) [CHR '' '', TAB]) [CHR '' '', TAB, CR, NL]) = ''</'' @ s @ ''>''"
    using w by (intro load_line_eq) auto
  moreover have "entry_type (''</'' @ s @ ''>'') = T_STOPPATH" by (simp add: entry_type_def)
  moreover have "stop_path (''</'' @ s @ ''>'') = s" using w(4) by (simp add: stop_path_def c_str_id numeral_2_eq_2)
  ultimately show "load_line (indented d (''</'' @ s @ ''>'')) (st @ [s], c) = Inr (st, c)"
    by (simp add: load_line_def Let_def del: append_Cons append_Nil)
qed

lemma load_word_line:
  assumes "word_ok w" and "list_all word_ok st" and "st \<noteq> []"
  shows "load_line (indented d w) (st, c) = Inr (st, put_entry st (EWord w) c)"
proof -
  note w = word_okD [OF assms(1)]
  have "hd w \<in> set w" "last w \<in> set w" using w(1) by simp_all
  then have "trim_comment (trim_right (trim_left (indented d w) [CHR '' '', TAB]) [CHR '' '', TAB, CR, NL]) = w"
    using w by (intro load_line_eq) (auto dest: w(5))
  moreover have "entry_type w = T_DOMAIN"
    using w(1) w(5) by (auto simp: entry_type_def dest: nth_mem)
  ultimately show ?thesis using assms(3) path_names(2) [OF assms(2,3)] by (simp add: load_line_def Let_def)
qed

lemma load_pair_line:
  assumes "word_ok n" and "value_ok v" and "list_all word_ok st" and "st \<noteq> []"
  shows "load_line (indented d (n @ '' = '' @ v)) (st, c) = Inr (st, put_entry st (EPair n v) c)"
proof -
  note w = word_okD [OF assms(1)]
  have v: "v \<noteq> []" "NUL \<notin> set v" "BACKSLASH \<notin> set v" "\<not> is_sep (hd v)" "last v \<notin> set [CHR '' '', TAB, CR, NL]"
    using assms(2) by (auto simp: value_ok_def list_all_iff)
  define s where "s = n @ '' = '' @ v"
  have h: "hd n \<in> set n" "n ! 0 \<in> set n" using w(1) by simp_all
  have nul: "NUL \<notin> set s" using w(4) v(2) by (auto simp: s_def)
  have "trim_comment (trim_right (trim_left (indented d s) [CHR '' '', TAB]) [CHR '' '', TAB, CR, NL]) = s"
    using w v h(1) nul by (intro load_line_eq) (auto simp: s_def dest: w(5))
  moreover have "s ! 0 = n ! 0" using w(1) by (simp add: s_def nth_append)
  then have "entry_type s = T_PAIR" using h(2) w(5) by (auto simp: entry_type_def s_def)
  moreover have "takeWhile (\<lambda>c. \<not> is_sep c) s = n"
    using w(5) by (subst s_def, subst takeWhile_append2) (auto simp: is_sep_def)
  moreover have "dropWhile is_sep ('' = '' @ v) = v" using v(1,4) by (cases v) (auto simp: is_sep_def)
  then have "dropWhile is_sep (drop (length n) s) = v" by (simp add: s_def)
  ultimately have "decode_pair s = Inr (n, v)"
    using w(1) nul by (simp add: decode_pair_def c_str_id Let_def) (simp add: s_def)
  then show ?thesis
    using \<open>trim_comment _ = s\<close> \<open>entry_type s = T_PAIR\<close> assms(4) path_names(2) [OF assms(3,4)]
    by (simp add: load_line_def Let_def flip: s_def) (simp add: s_def)
qed

lemma load_lines_append:
  "load_lines (ls @ ls') st = (case load_lines ls st of Inl e \<Rightarrow> Inl e | Inr st' \<Rightarrow> load_lines ls' st')"
  by (induction ls arbitrary: st) (auto split: sum.splits)

lemma load_entries:
  assumes "\<And>e c. e \<in> set es \<Longrightarrow> load_lines (entry_lines d e) (st, c) = Inr (st, put_entry st e c)"
  shows "load_lines (concat (map (entry_lines d) es)) (st, c) = Inr (st, fold (put_entry st) es c)"
  using assms by (induction es arbitrary: c) (auto simp: load_lines_append)

lemma load_entry:
  assumes "entry_ok e" and "list_all word_ok st" and "st \<noteq> [] \<or> is_section e"
  shows "load_lines (entry_lines d e) (st, c) = Inr (st, put_entry st e c)"
  using assms
proof (induction e arbitrary: d st c)
  case (ESection s es)
  then have s: "word_ok s" "list_all word_ok st" by simp_all
  have "load_lines (entry_lines (Suc d) e) (st @ [s], c) = Inr (st @ [s], put_entry (st @ [s]) e c)"
    if "e \<in> set es" for e c
    using ESection.IH [OF that] ESection.prems that s by (auto simp: list_all_iff)
  note es = load_entries [of es "Suc d" "st @ [s]", OF this]
  show ?case using load_section_lines [OF s] es by (simp add: load_lines_append)
qed (auto simp: load_pair_line [simplified append_Cons append_Nil] load_word_line simp del: put_entry.simps)

lemma takeWhile_until:
  assumes "x \<notin> set l"
  shows "takeWhile (\<lambda>c. c \<noteq> x) (l @ x # r) = l" and "dropWhile (\<lambda>c. c \<noteq> x) (l @ x # r) = x # r"
    and "takeWhile (\<lambda>c. c \<noteq> x) l = l"
  using assms by (induction l) auto

lemma getlines_lines: "\<forall>l \<in> set ls. NL \<notin> set l \<Longrightarrow> getlines (concat (map (\<lambda>l. l @ [NL]) ls)) = ls"
proof (induction ls)
  case (Cons l ls)
  define rest where "rest = concat (map (\<lambda>l. l @ [NL]) ls)"
  have "NL \<notin> set l" using Cons.prems by simp
  note takeWhile_until(1,2) [OF this, of rest]
  then have "getlines (l @ NL # rest) = l # getlines rest" by (subst getlines.simps) simp
  then show ?case using Cons by (simp add: rest_def)
qed (simp add: getlines.simps)

lemma no_newline: "word_ok w \<Longrightarrow> NL \<notin> set w" "value_ok v \<Longrightarrow> NL \<notin> set v"
  by (auto simp: word_ok_def value_ok_def list_all_iff)

lemma entry_lines_no_newline:
  "entry_ok e \<Longrightarrow> l \<in> set (entry_lines d e) \<Longrightarrow> NL \<notin> set l"
proof (induction e arbitrary: d l)
  case (ESection s es)
  then show ?case by (auto simp: indented_def list_all_iff no_newline)
qed (auto simp: indented_def no_newline)

lemma join_path_head:
  assumes "word_ok w"
  shows "takeWhile (\<lambda>c. c \<noteq> BACKSLASH) (w @ join_path ps) = w"
  using takeWhile_until(1,3) [OF word_okD(3) [OF assms]] by (cases ps) (simp_all add: join_path_def)

lemma join_path_inj:
  "list_all word_ok p \<Longrightarrow> list_all word_ok q \<Longrightarrow> join_path p = join_path q \<Longrightarrow> p = q"
proof (induction p arbitrary: q)
  case (Cons w p)
  then obtain w' q' where q: "q = w' # q'" by (cases q) (auto simp: join_path_def)
  have eq: "w @ join_path p = w' @ join_path q'" using Cons.prems(3) by (simp add: q join_path_def)
  then have "w = w'" using join_path_head [of w p] join_path_head [of w' q'] Cons.prems q by simp
  then show ?case using eq Cons by (simp add: q)
qed (auto simp: join_path_def)

lemma path_name_simps [simp]: "path_name [] = []" "path_name (w # ps) = w @ join_path ps"
  by (simp_all add: path_name_def join_path_def)

lemma path_name_inj:
  assumes "list_all word_ok p" and "list_all word_ok q" and "path_name p = path_name q"
  shows "p = q"
proof (cases "p = [] \<or> q = []")
  case True
  then show ?thesis using assms word_okD(1) by (cases p; cases q) auto
next
  case False
  then have "join_path p = join_path q" using assms(3) by (cases p; cases q) (simp_all add: join_path_def)
  then show ?thesis by (rule join_path_inj [OF assms(1,2)])
qed

section \<open>What a loaded file says\<close>

text \<open>The pairs of a tree with their paths, in the order of the text.\<close>

fun pairs_of :: "string list \<Rightarrow> conf_entry \<Rightarrow> ((string list \<times> string) \<times> string) list" where
  "pairs_of st (EPair n v) = [((st, n), v)]"
| "pairs_of st (EWord w) = []"
| "pairs_of st (ESection s es) = concat (map (pairs_of (st @ [s])) es)"

definition value_at :: "conf_entry list \<Rightarrow> string list \<Rightarrow> string \<Rightarrow> string option" where
  "value_at es path name = map_of (rev (concat (map (pairs_of []) es))) (path, name)"

definition pair_at :: "CFileConfig \<Rightarrow> string list \<Rightarrow> string \<Rightarrow> string option" where
  "pair_at c path name = (case cf_pairs c (path_name path) of None \<Rightarrow> None | Some ps \<Rightarrow> ps name)"

lemma put_entries_pairs:
  assumes "\<And>e c. e \<in> set es \<Longrightarrow> pair_at (put_entry st e c) p n =
    (case map_of (rev (pairs_of st e)) (p, n) of None \<Rightarrow> pair_at c p n | Some v \<Rightarrow> Some v)"
  shows "pair_at (fold (put_entry st) es c) p n =
    (case map_of (rev (concat (map (pairs_of st) es))) (p, n) of None \<Rightarrow> pair_at c p n | Some v \<Rightarrow> Some v)"
  using assms
proof (induction es arbitrary: c)
  case (Cons e es)
  have "pair_at (fold (put_entry st) es (put_entry st e c)) p n =
    (case map_of (rev (concat (map (pairs_of st) es))) (p, n) of None \<Rightarrow> pair_at (put_entry st e c) p n | Some v \<Rightarrow> Some v)"
    using Cons.IH [of "put_entry st e c"] Cons.prems by simp
  moreover have "pair_at (put_entry st e c) p n =
    (case map_of (rev (pairs_of st e)) (p, n) of None \<Rightarrow> pair_at c p n | Some v \<Rightarrow> Some v)" by (rule Cons.prems) simp
  ultimately show ?case
    by (simp only: fold_simps list.map concat.simps rev_append map_of_append map_add_def) (simp split: option.split)
qed simp

lemma put_entry_pairs:
  assumes "entry_ok e" and "list_all word_ok st" and "list_all word_ok p"
  shows "pair_at (put_entry st e c) p n = (case map_of (rev (pairs_of st e)) (p, n) of None \<Rightarrow> pair_at c p n | Some v \<Rightarrow> Some v)"
  using assms
proof (induction e arbitrary: st c)
  case (EPair n' v)
  then have "path_name p = path_name st \<longleftrightarrow> p = st" using path_name_inj [of p st] by auto
  then show ?case by (simp add: pair_at_def put_pair_def split: option.split)
next
  case (ESection s es)
  have "pair_at (put_entry (st @ [s]) e c) p n =
      (case map_of (rev (pairs_of (st @ [s]) e)) (p, n) of None \<Rightarrow> pair_at c p n | Some v \<Rightarrow> Some v)"
    if "e \<in> set es" for e c
    using ESection.IH [OF that, of "st @ [s]" c] ESection.prems that by (simp add: list_all_iff)
  note put_entries_pairs [of es "st @ [s]" p n "c\<lparr>cf_paths := push_at (path_name st) s (cf_paths c)\<rparr>", OF this]
  moreover have "pair_at (c\<lparr>cf_paths := m\<rparr>) p n = pair_at c p n" for m by (simp add: pair_at_def)
  ultimately show ?case by (simp split: option.split)
qed (simp add: pair_at_def)

lemma put_tree_pairs:
  assumes "list_all entry_ok es" and "list_all word_ok p" and "cf_pairs c = Map.empty"
  shows "pair_at (fold (put_entry []) es c) p n = value_at es p n"
proof -
  have "pair_at (fold (put_entry []) es c) p n =
    (case map_of (rev (concat (map (pairs_of []) es))) (p, n) of None \<Rightarrow> pair_at c p n | Some v \<Rightarrow> Some v)"
    using assms(1,2) by (intro put_entries_pairs put_entry_pairs) (simp_all add: list_all_iff)
  moreover have "pair_at c p n = None" using assms(3) by (simp add: pair_at_def)
  ultimately show ?thesis by (simp add: value_at_def split: option.split)
qed

lemma conf_get_pair_at:
  assumes "path \<noteq> []" and "list_all word_ok path" and "word_ok name"
  shows "conf_get c (path_name path @ BACKSLASH # name) =
    (case pair_at c path name of
       None \<Rightarrow> Inl (conf_not_find (''CFileConfig::['' @ (path_name path @ BACKSLASH # name) @ ''] is not find''))
     | Some v \<Rightarrow> Inr v)"
proof -
  define k where "k = path_name path @ BACKSLASH # name"
  have ne: "path_name path \<noteq> []" "name \<noteq> []" using assms word_okD(1) by (cases path; simp)+
  have "NUL \<notin> set (path_name path)"
    using path_names(1) [OF assms(2)] in_set_dropD unfolding path_name_def by metis
  then have nul: "NUL \<notin> set k" "NUL \<notin> set name" using word_okD(4) [OF assms(3)] by (auto simp: k_def)
  have "BACKSLASH \<notin> set (rev name)" using word_okD(3) [OF assms(3)] by simp
  then have "takeWhile (\<lambda>c. c \<noteq> BACKSLASH) (rev (drop 1 k)) = rev name"
    using takeWhile_until(1) [of BACKSLASH "rev name"] ne(1) by (cases "path_name path") (simp_all add: k_def)
  then have "last_backslash k = length (path_name path)" by (simp add: last_backslash_def k_def)
  then show ?thesis unfolding k_def [symmetric] using ne nul
    by (simp add: conf_get_def c_str_id Let_def pair_at_def) (simp add: k_def c_str_id split: option.split)
qed

lemma conf_Init_lines:
  assumes "filename \<noteq> []" and "files filename = Some text"
  shows "conf_Init files filename CFileConfig_new =
    (case load_lines (getlines text) ([], CFileConfig_new\<lparr>cf_filename := filename\<rparr>) of
       Inl e \<Rightarrow> Inl e
     | Inr (st, c) \<Rightarrow> if st \<noteq> [] then Inl (conf_load_error ''CFileConfig::Load: path havenot over'') else Inr c)"
  using assms by (simp add: conf_Init_def Load_def CFileConfig_new_def split: sum.split)

lemma load_tree_lookup:
  assumes "list_all entry_ok es" and "list_all is_section es" and "filename \<noteq> []"
    and "files filename = Some (conf_text es)"
  shows "\<exists>c. conf_Init files filename CFileConfig_new = Inr c \<and>
    (\<forall>path name. path \<noteq> [] \<longrightarrow> list_all word_ok path \<longrightarrow> word_ok name \<longrightarrow>
       conf_get c (path_name path @ BACKSLASH # name) =
         (case value_at es path name of
            None \<Rightarrow> Inl (conf_not_find (''CFileConfig::['' @ (path_name path @ BACKSLASH # name) @ ''] is not find''))
          | Some v \<Rightarrow> Inr v))"
proof -
  define c0 where "c0 = CFileConfig_new\<lparr>cf_filename := filename\<rparr>"
  have empty: "cf_pairs c0 = Map.empty" by (simp add: c0_def CFileConfig_new_def)
  have "getlines (conf_text es) = concat (map (entry_lines 0) es)"
    unfolding conf_text_def using assms(1) entry_lines_no_newline by (intro getlines_lines) (fastforce simp: list_all_iff)
  moreover have "load_lines (concat (map (entry_lines 0) es)) ([], c0) = Inr ([], fold (put_entry []) es c0)"
    using load_entry [of _ "[]" 0] assms(1,2) by (intro load_entries) (auto simp: list_all_iff)
  ultimately have "conf_Init files filename CFileConfig_new = Inr (fold (put_entry []) es c0)"
    by (simp add: conf_Init_lines [where files = files, OF assms(3,4)] flip: c0_def)
  then show ?thesis using conf_get_pair_at put_tree_pairs [OF assms(1) _ empty] by auto
qed

text \<open>
  C6. Loading the text of a tree of sections succeeds, and looking up a path and a name in the result gives
  the last value the tree has for them, or the error that says that there is none. Names must be words;
  values may hold blanks and separators inside.
\<close>

theorem load_tree:
  assumes "list_all entry_ok es" and "list_all is_section es" and "filename \<noteq> []"
    and "files filename = Some (conf_text es)"
  shows "\<exists>c. conf_Init files filename CFileConfig_new = Inr c \<and>
    (\<forall>path name. path \<noteq> [] \<longrightarrow> list_all word_ok path \<longrightarrow> word_ok name \<longrightarrow>
       conf_get c (path_name path @ BACKSLASH # name) =
         (case value_at es path name of
            None \<Rightarrow> Inl (conf_not_find (''CFileConfig::['' @ (path_name path @ BACKSLASH # name) @ ''] is not find''))
          | Some v \<Rightarrow> Inr v))"
  using assms by (rule load_tree_lookup)

theorem load_tree_witness:
  "\<exists>c. conf_Init [''cdb.conf'' \<mapsto> conf_text [ESection ''root'' [ESection ''shm'' [EPair ''shm_num'' ''2 or 3'']]]] ''cdb.conf'' CFileConfig_new = Inr c \<and>
     conf_get c (path_name [''root'', ''shm''] @ BACKSLASH # ''shm_num'') = Inr ''2 or 3''"
proof -
  let ?es = "[ESection ''root'' [ESection ''shm'' [EPair ''shm_num'' ''2 or 3'']]]"
  have ok: "list_all entry_ok ?es" "list_all is_section ?es" by (simp_all add: word_ok_def value_ok_def is_sep_def)
  have v: "value_at ?es [''root'', ''shm''] ''shm_num'' = Some ''2 or 3''" by (simp add: value_at_def)
  have w: "[''root'', ''shm''] \<noteq> []" "list_all word_ok [''root'', ''shm'']" "word_ok ''shm_num''" by (simp_all add: word_ok_def)
  have f: "''cdb.conf'' \<noteq> []" "[''cdb.conf'' \<mapsto> conf_text ?es] ''cdb.conf'' = Some (conf_text ?es)" by simp_all
  note load_tree [where files = "[''cdb.conf'' \<mapsto> conf_text ?es]", OF ok f]
  then show ?thesis
  proof (elim exE conjE)
    fix c
    assume c: "conf_Init [''cdb.conf'' \<mapsto> conf_text ?es] ''cdb.conf'' CFileConfig_new = Inr c"
    assume "\<forall>path name. path \<noteq> [] \<longrightarrow> list_all word_ok path \<longrightarrow> word_ok name \<longrightarrow>
       conf_get c (path_name path @ BACKSLASH # name) =
         (case value_at ?es path name of
            None \<Rightarrow> Inl (conf_not_find (''CFileConfig::['' @ (path_name path @ BACKSLASH # name) @ ''] is not find''))
          | Some v \<Rightarrow> Inr v)"
    from this [rule_format, OF w] c show ?thesis unfolding v by (intro exI [of _ c]) (simp only: option.case simp_thms)
  qed
qed

section \<open>What a load refuses\<close>

definition lines_text :: "string list \<Rightarrow> string" where
  "lines_text ls = concat (map (\<lambda>l. l @ [NL]) ls)"

lemma load_open_section:
  assumes "word_ok s" and "list_all entry_ok es"
  shows "load_lines (indented d (''<'' @ s @ ''>'') # concat (map (entry_lines d') es)) ([], c) =
    Inr ([s], fold (put_entry [s]) es (c\<lparr>cf_paths := push_at [] s (cf_paths c)\<rparr>))"
proof -
  have "load_lines (concat (map (entry_lines d') es)) ([s], c) = Inr ([s], fold (put_entry [s]) es c)" for c
    using load_entry [of _ "[s]" d'] assms by (intro load_entries) (auto simp: list_all_iff)
  then show ?thesis using load_section_lines(1) [OF assms(1), of "[]"] by simp
qed

lemma load_wrong_stop:
  assumes "word_ok t" and "st = [] \<or> last st \<noteq> t"
  shows "load_line (indented d (''</'' @ t @ ''>'')) (st, c) =
    Inl (conf_load_error (''CFileConfig::Load: path not match: '' @ t))"
proof -
  have "trim_comment (trim_right (trim_left (indented d (''</'' @ t @ ''>'')) [CHR '' '', TAB]) [CHR '' '', TAB, CR, NL]) = ''</'' @ t @ ''>''"
    using word_okD [OF assms(1)] by (intro load_line_eq) auto
  moreover have "entry_type (''</'' @ t @ ''>'') = T_STOPPATH" by (simp add: entry_type_def)
  moreover have "stop_path (''</'' @ t @ ''>'') = t"
    using word_okD(4) [OF assms(1)] by (simp add: stop_path_def c_str_id numeral_2_eq_2)
  ultimately show ?thesis using assms(2) by (simp add: load_line_def Let_def del: append_Cons append_Nil)
qed

definition start_tag :: "string \<Rightarrow> string" where
  "start_tag s = ''<'' @ s @ ''>''"

definition stop_tag :: "string \<Rightarrow> string" where
  "stop_tag s = ''</'' @ s @ ''>''"

lemma load_unbalanced_lines:
  assumes "word_ok s" and "word_ok t" and "s \<noteq> t" and "list_all entry_ok es"
  shows "\<exists>c'. load_lines (start_tag s # concat (map (entry_lines 1) es)) ([], c) = Inr ([s], c')"
    and "load_lines (start_tag s # concat (map (entry_lines 1) es) @ [stop_tag t]) ([], c) =
      Inl (conf_load_error (''CFileConfig::Load: path not match: '' @ t))"
proof -
  have i: "indented 0 l = l" for l by (simp add: indented_def)
  note o = load_open_section [OF assms(1,4), of 0 1, folded start_tag_def, unfolded i]
  note e = load_wrong_stop [OF assms(2), of "[s]" 0, folded stop_tag_def, unfolded i]
  show "\<exists>c'. load_lines (start_tag s # concat (map (entry_lines 1) es)) ([], c) = Inr ([s], c')" using o by blast
  show "load_lines (start_tag s # concat (map (entry_lines 1) es) @ [stop_tag t]) ([], c) =
      Inl (conf_load_error (''CFileConfig::Load: path not match: '' @ t))"
    using assms(3) unfolding append_Cons [symmetric] load_lines_append o by (simp add: e)
qed

lemma getlines_unbalanced:
  assumes "word_ok s" and "word_ok t" and "list_all entry_ok es"
  shows "getlines (lines_text (start_tag s # concat (map (entry_lines 1) es))) = start_tag s # concat (map (entry_lines 1) es)"
    and "getlines (lines_text (start_tag s # concat (map (entry_lines 1) es) @ [stop_tag t])) =
      start_tag s # concat (map (entry_lines 1) es) @ [stop_tag t]"
proof -
  have "NL \<notin> set l" if "l \<in> set (start_tag s # concat (map (entry_lines 1) es) @ [stop_tag t])" for l
    using that assms no_newline(1) entry_lines_no_newline by (fastforce simp: start_tag_def stop_tag_def list_all_iff)
  then show "getlines (lines_text (start_tag s # concat (map (entry_lines 1) es))) = start_tag s # concat (map (entry_lines 1) es)"
    "getlines (lines_text (start_tag s # concat (map (entry_lines 1) es) @ [stop_tag t])) =
      start_tag s # concat (map (entry_lines 1) es) @ [stop_tag t]"
    unfolding lines_text_def by (intro getlines_lines; simp)+
qed

text \<open>
  C19. A load refuses sections that do not match: when the text ends inside a section, and when a section
  is closed under another name, the call fails with the error for that case.
\<close>

theorem load_unbalanced:
  assumes "word_ok s" and "word_ok t" and "s \<noteq> t" and "list_all entry_ok es" and "filename \<noteq> []"
  shows "conf_Init [filename \<mapsto> lines_text (start_tag s # concat (map (entry_lines 1) es))] filename CFileConfig_new =
      Inl (conf_load_error ''CFileConfig::Load: path havenot over'') \<and>
    conf_Init [filename \<mapsto> lines_text (start_tag s # concat (map (entry_lines 1) es) @ [stop_tag t])] filename CFileConfig_new =
      Inl (conf_load_error (''CFileConfig::Load: path not match: '' @ t))"
proof -
  have init: "conf_Init [filename \<mapsto> tx] filename CFileConfig_new =
    (case load_lines (getlines tx) ([], CFileConfig_new\<lparr>cf_filename := filename\<rparr>) of
       Inl e \<Rightarrow> Inl e
     | Inr (st, c) \<Rightarrow> if st \<noteq> [] then Inl (conf_load_error ''CFileConfig::Load: path havenot over'') else Inr c)" for tx
    using assms(5) by (intro conf_Init_lines) simp_all
  obtain c' where "load_lines (start_tag s # concat (map (entry_lines 1) es)) ([], CFileConfig_new\<lparr>cf_filename := filename\<rparr>) = Inr ([s], c')"
    using load_unbalanced_lines(1) [OF assms(1-4)] by blast
  then show ?thesis
    unfolding init getlines_unbalanced [OF assms(1,2,4)] load_unbalanced_lines(2) [OF assms(1-4)] by simp
qed

theorem load_unbalanced_witness:
  "conf_Init [''c'' \<mapsto> lines_text [start_tag ''a'']] ''c'' CFileConfig_new = Inl (conf_load_error ''CFileConfig::Load: path havenot over'') \<and>
   conf_Init [''c'' \<mapsto> lines_text [start_tag ''a'', stop_tag ''b'']] ''c'' CFileConfig_new =
     Inl (conf_load_error ''CFileConfig::Load: path not match: b'')"
proof -
  have "word_ok ''a''" "word_ok ''b''" "''a'' \<noteq> ''b''" "list_all entry_ok []" "''c'' \<noteq> []" by (simp_all add: word_ok_def)
  from load_unbalanced [OF this] show ?thesis by simp
qed

end
