(* ===== verification/ShmMgr.thy ===== *)
theory ShmMgr
  imports ConfigFile Stats
begin

unbundle bit_operations_syntax

text \<open>
  The shared memories of the statistics and their pairs (\<open>cdb/cdb_shm_mgr.cpp\<close>, first half of \<open>cdb/cdb.cpp\<close>).
  An object \<open>CDBShm\<close> is made by \<open>reg\<close> and lives in a list; a pointer to it is its position, \<open>None\<close> is the pointer to
  \<open>wrong_shm\<close>. The content of the data part of a memory is what the hash map of the cache opened on it sees,
  the meta part is a list of bytes. What the operating system answers (\<open>shmget\<close>, \<open>shmat\<close>, \<open>ftok\<close>, whether a file
  can be opened, the time, whether a thread starts) is the parameter \<open>env\<close>. \<open>None\<close> is undefined behaviour or an
  exception that nobody catches. Messages are not modelled.
\<close>

definition CDB_FINE :: int where "CDB_FINE = 0"
definition CDB_SHM_INIT_SHMID_FILE_FAILED :: int where "CDB_SHM_INIT_SHMID_FILE_FAILED = 7001"
definition CDB_SHM_INIT_REG_ERROR :: int where "CDB_SHM_INIT_REG_ERROR = 7002"
definition CDB_SHM_INIT_CA_OPEN_ERROR :: int where "CDB_SHM_INIT_CA_OPEN_ERROR = 7003"
definition CDB_SHM_PAIR_MAP_OPEN_FAILED :: int where "CDB_SHM_PAIR_MAP_OPEN_FAILED = 7006"
definition CDB_SHM_INIT_SWITCH_THREAD_FAIL :: int where "CDB_SHM_INIT_SWITCH_THREAD_FAIL = 7007"
definition CDB_SHM_INIT_CONF_ERROR :: int where "CDB_SHM_INIT_CONF_ERROR = 7008"

definition CDB_SHM_META_MAX :: int where "CDB_SHM_META_MAX = 4096"

record CDBShm =
  sh_name :: string
  sh_key :: int
  sh_size :: int
  sh_id :: int
  sh_addr :: int
  sh_new :: bool
  sh_ca :: "CacheAccess option"
  sh_lock :: "nat option"
  sh_data_addr :: int
  sh_data_size :: int
  sh_meta_addr :: int
  sh_mem :: CHashMap
  sh_meta :: "byte list"

record CDBShmConf =
  sc_name :: string
  sc_id :: int
  sc_size :: int
  sc_node_total :: int
  sc_bucket_size :: int
  sc_n_chunks :: int
  sc_chunk_size :: int

record CDBShmPairConf =
  pc_name :: string
  pc_shm_name1 :: string
  pc_shm_name2 :: string
  pc_conf_index :: int
  pc_map_file :: string

type_synonym shm_ref = "nat option"

record CDBShmPair =
  sp_last_switch_time :: "int \<times> int"
  sp_current :: shm_ref
  sp_standby :: shm_ref
  sp_shm_conf :: CDBShmConf
  sp_pair_conf :: CDBShmPairConf

text \<open>\<open>sm_locks\<close>: for each mutex of the array whether it is initialised.\<close>

record CDBShmMgr =
  sm_shm_map :: "string \<rightharpoonup> nat"
  sm_objs :: "CDBShm list"
  sm_locks :: "bool list"

record shm_env =
  env_shmget :: "int \<Rightarrow> int \<Rightarrow> bool \<Rightarrow> int"
  env_shmat :: "int \<Rightarrow> int"
  env_ftok :: "string \<Rightarrow> int \<Rightarrow> int"
  env_mem :: "int \<Rightarrow> CHashMap"
  env_meta :: "int \<Rightarrow> byte list"
  env_raw :: "int \<Rightarrow> byte"
  env_files :: "string \<rightharpoonup> string"
  env_can_write :: "string \<Rightarrow> bool"
  env_timeofday :: "int \<times> int"
  env_now :: int
  env_buff :: "byte list"
  env_fs :: FileSys
  env_thread :: int
  env_junk :: int

definition zero_hm :: CHashMap where
  "zero_hm = \<lparr>m_node_total = 0, m_bucket_size = 0, m_used_node_num = 0, m_used_bucket_num = 0, m_add_head = 0,
     m_add_tail = 0, m_node_free_list = 0, m_bucket = [], m_hash_node = (\<lambda>_. init_node_value), m_node_pool_tail = 0,
     m_allocator = \<lparr>m_chunk_total = 0, m_chunk_size = 0, m_free_total = 0, m_free_list = 0,
       m_chunk_nodes = (\<lambda>_. \<lparr>m_next = 0, m_data = []\<rparr>), m_pool_tail = 0\<rparr>\<rparr>"

definition new_cache :: "shm_env \<Rightarrow> CHashMap \<Rightarrow> CacheAccess" where
  "new_cache env mem = CacheAccess_new (env_now env) mem 0 (env_buff env) (env_fs env)"

section \<open>The manager\<close>

definition CDBShmMgr_new :: CDBShmMgr where
  "CDBShmMgr_new = \<lparr>sm_shm_map = Map.empty, sm_objs = [], sm_locks = []\<rparr>"

definition wrong_shm :: CDBShm where
  "wrong_shm = \<lparr>sh_name = [], sh_key = 0, sh_size = 0, sh_id = 0, sh_addr = 0, sh_new = False, sh_ca = None, sh_lock = None,
     sh_data_addr = 0, sh_data_size = 0, sh_meta_addr = 0, sh_mem = zero_hm, sh_meta = []\<rparr>"

definition mgr_init :: "nat \<Rightarrow> CDBShmMgr \<Rightarrow> int \<times> CDBShmMgr" where
  "mgr_init shm_conf_size m = (CDB_FINE, m\<lparr>sm_locks := replicate shm_conf_size True\<rparr>)"

definition mgr_attach :: "CDBShmMgr \<Rightarrow> int \<times> CDBShmMgr" where
  "mgr_attach m = (CDB_FINE, m)"

definition mgr_get :: "CDBShmMgr \<Rightarrow> string \<Rightarrow> shm_ref" where
  "mgr_get m c = sm_shm_map m (c_str c)"

definition deref :: "CDBShmMgr \<Rightarrow> shm_ref \<Rightarrow> CDBShm" where
  "deref m r = (case r of None \<Rightarrow> wrong_shm | Some i \<Rightarrow> sm_objs m ! i)"

definition set_obj :: "nat \<Rightarrow> CDBShm \<Rightarrow> CDBShmMgr \<Rightarrow> CDBShmMgr" where
  "set_obj i s m = m\<lparr>sm_objs := (sm_objs m)[i := s]\<rparr>"

definition mgr_reg :: "shm_env \<Rightarrow> string \<Rightarrow> int \<Rightarrow> int \<Rightarrow> bool \<Rightarrow> CDBShmMgr \<Rightarrow> bool \<times> CDBShmMgr" where
  "mgr_reg env name key sz has_meta m =
     (let ns_size = (if has_meta then sz + CDB_SHM_META_MAX else sz);
          id1 = env_shmget env key ns_size False;
          isnew = id1 < 0;
          id = (if isnew then env_shmget env key ns_size True else id1)
      in if id < 0 then (False, m)
         else let p = env_shmat env id
              in if p = -1 then (False, m)
                 else let ns = \<lparr>sh_name = c_str name, sh_key = key, sh_size = ns_size, sh_id = id, sh_addr = p, sh_new = isnew,
                            sh_ca = None, sh_lock = None,
                            sh_data_addr = (if has_meta then p + CDB_SHM_META_MAX else p), sh_data_size = sz,
                            sh_meta_addr = (if has_meta then p else 0),
                            sh_mem = (if isnew then zero_hm else env_mem env key),
                            sh_meta = (if isnew then replicate (nat CDB_SHM_META_MAX) 0 else env_meta env key)\<rparr>
                      in (True, m\<lparr>sm_objs := sm_objs m @ [ns],
                               sm_shm_map := (sm_shm_map m)(c_str name \<mapsto> length (sm_objs m))\<rparr>))"

text \<open>The addresses that are handed to \<open>shmdt\<close>.\<close>

definition detach_all :: "CDBShmMgr \<Rightarrow> int set" where
  "detach_all m = {a. \<exists>i \<in> ran (sm_shm_map m). a = sh_addr (sm_objs m ! i) \<and> a \<noteq> 0}"

definition get_lock :: "nat \<Rightarrow> nat" where
  "get_lock i = i"

definition destroy_all_lock :: "CDBShmMgr \<Rightarrow> CDBShmMgr" where
  "destroy_all_lock m = m\<lparr>sm_locks := map (\<lambda>_. False) (sm_locks m)\<rparr>"

text \<open>Making the cache of a memory and opening it, as \<open>cdb_init_shm_mgr\<close> and \<open>cdb_attach_shm_mgr\<close> do.\<close>

definition open_cache :: "shm_env \<Rightarrow> CDBShmConf \<Rightarrow> bool \<Rightarrow> CDBShm \<Rightarrow> (int \<times> CDBShm) option" where
  "open_cache env c inited s = do {
     (ret, ca) \<leftarrow> ca_open (env_raw env) (sh_data_size s) inited (sc_node_total c) (sc_bucket_size c) (sc_n_chunks c)
       (sc_chunk_size c) (new_cache env (sh_mem s));
     Some (ret, s\<lparr>sh_ca := Some ca\<rparr>)
   }"

section \<open>Pairs\<close>

definition get_current :: "CDBShmPair \<Rightarrow> shm_ref" where
  "get_current p = sp_current p"

definition switch_shm :: "shm_env \<Rightarrow> CDBShmPair \<Rightarrow> CDBShmMgr \<Rightarrow> (CDBShmPair \<times> CDBShmMgr) option" where
  "switch_shm env p m =
     (case (sp_standby p, sp_current p) of
        (Some sb, Some cu) \<Rightarrow> do {
          (_, s) \<leftarrow> open_cache env (sp_shm_conf p) True ((sm_objs m ! sb)\<lparr>sh_mem := zero_hm\<rparr>);
          if sh_lock (sm_objs m ! cu) = None \<or> sh_lock s = None then None
          else Some (p\<lparr>sp_current := Some sb, sp_standby := Some cu\<rparr>, set_obj sb s m)
        }
      | _ \<Rightarrow> None)"

definition string_bytes :: "string \<Rightarrow> byte list" where
  "string_bytes s = map (\<lambda>c. of_nat (char_code c)) s"

definition meta_image :: "CDBShmPair \<Rightarrow> bool \<Rightarrow> string \<Rightarrow> string \<Rightarrow> byte list" where
  "meta_image p is_current name dir_path =
     le_bytes 8 (fst (sp_last_switch_time p)) @ le_bytes 8 (snd (sp_last_switch_time p)) @
     [if is_current then 1 else 0] @
     le_bytes 8 (int (length name)) @ string_bytes name @
     le_bytes 8 (int (length dir_path)) @ string_bytes dir_path"

text \<open>The writes are not bounded by the code; past the meta part they would run into the data: \<open>None\<close>.\<close>

definition flush_pair_meta_data :: "string \<Rightarrow> CDBShmPair \<Rightarrow> CDBShmMgr \<Rightarrow> (int \<times> CDBShmMgr) option" where
  "flush_pair_meta_data dir_path p m =
     (case (sp_current p, sp_standby p) of
        (Some cu, Some sb) \<Rightarrow> do {
          let cs = sm_objs m ! cu;
          let ci = meta_image p True (sh_name cs) dir_path;
          cmeta \<leftarrow> memcpy (sh_meta cs) 0 ci 0 (int (length ci));
          let m1 = set_obj cu (cs\<lparr>sh_meta := cmeta\<rparr>) m;
          let ss = sm_objs m1 ! sb;
          let si = meta_image p False (sh_name ss) dir_path;
          smeta \<leftarrow> memcpy (sh_meta ss) 0 si 0 (int (length si));
          Some (CDB_FINE, set_obj sb (ss\<lparr>sh_meta := smeta\<rparr>) m1)
        }
      | _ \<Rightarrow> None)"

definition print_int :: "int \<Rightarrow> string" where
  "print_int i = (if i < 0 then CHR ''-'' # print_nat 10 (nat (- i)) else print_nat 10 (nat i))"

definition flush_pair_map_file ::
    "shm_env \<Rightarrow> string \<Rightarrow> CDBShmPair \<Rightarrow> CDBShmMgr \<Rightarrow> (string \<rightharpoonup> string) \<Rightarrow> int \<times> (string \<rightharpoonup> string)" where
  "flush_pair_map_file env dir_path p m files =
     (let path = dir_path @ ''/'' @ pc_map_file (sp_pair_conf p);
          cu = deref m (sp_current p);
          sb = deref m (sp_standby p)
      in if \<not> env_can_write env path then (CDB_SHM_PAIR_MAP_OPEN_FAILED, files)
         else (CDB_FINE, files(path \<mapsto>
           ''last_switch_time: '' @ print_int (fst (sp_last_switch_time p)) @ '' '' @ print_int (snd (sp_last_switch_time p)) @ '' '' @
           ''current: '' @ sh_name cu @ '' '' @ print_int (sh_key cu) @ '' '' @
           ''standby: '' @ sh_name sb @ '' '' @ print_int (sh_key sb) @ '' '' @ [NL])))"

definition flush_pair_info ::
    "shm_env \<Rightarrow> string \<Rightarrow> CDBShmPair \<Rightarrow> CDBShmMgr \<Rightarrow> (string \<rightharpoonup> string) \<Rightarrow> (int \<times> CDBShmMgr \<times> (string \<rightharpoonup> string)) option" where
  "flush_pair_info env dir_path p m files = do {
     (ret, m') \<leftarrow> flush_pair_meta_data dir_path p m;
     if ret \<noteq> CDB_FINE then Some (ret, m', files)
     else let (ret, files') = flush_pair_map_file env dir_path p m' files
          in if ret \<noteq> CDB_FINE then Some (ret, m', files') else Some (CDB_FINE, m', files')
   }"

section \<open>The configuration\<close>

definition MB :: int where "MB = 1024 * 1024"

definition shm_conf :: "string \<Rightarrow> int \<Rightarrow> int \<Rightarrow> int \<Rightarrow> int \<Rightarrow> int \<Rightarrow> int \<Rightarrow> CDBShmConf" where
  "shm_conf name idn sz nt bs nc cs = \<lparr>sc_name = name, sc_id = idn, sc_size = sz, sc_node_total = nt, sc_bucket_size = bs,
     sc_n_chunks = nc, sc_chunk_size = cs\<rparr>"

definition cdb_shm_conf_array :: "CDBShmConf list" where
  "cdb_shm_conf_array =
    [shm_conf ''cdb_ins_dml_1'' 1 (1 * MB) 4096 4096 4096 128,
     shm_conf ''cdb_ins_dml_2'' 2 (1 * MB) 4096 4096 4096 128,
     shm_conf ''cdb_ins_conn_1'' 3 (1 * MB) 4096 4096 4096 128,
     shm_conf ''cdb_ins_conn_2'' 4 (1 * MB) 4096 4096 4096 128,
     shm_conf ''cdb_ins_client_dml_1'' 5 (1 * MB) 4096 4096 4096 128,
     shm_conf ''cdb_ins_client_dml_2'' 6 (1 * MB) 4096 4096 4096 128,
     shm_conf ''cdb_tab_dml_1'' 7 (1 * MB) 1024 1024 1024 512,
     shm_conf ''cdb_tab_dml_2'' 8 (1 * MB) 1024 1024 1024 512]"

definition pair_conf :: "string \<Rightarrow> string \<Rightarrow> string \<Rightarrow> int \<Rightarrow> string \<Rightarrow> CDBShmPairConf" where
  "pair_conf name n1 n2 i f = \<lparr>pc_name = name, pc_shm_name1 = n1, pc_shm_name2 = n2, pc_conf_index = i, pc_map_file = f\<rparr>"

definition cdb_shm_pair_conf_array :: "CDBShmPairConf list" where
  "cdb_shm_pair_conf_array =
    [pair_conf ''cdb_ins_dml'' ''cdb_ins_dml_1'' ''cdb_ins_dml_2'' 0 ''cdb_ins_dml_map.txt'',
     pair_conf ''cdb_ins_conn'' ''cdb_ins_conn_1'' ''cdb_ins_conn_2'' 2 ''cdb_ins_conn_map.txt'',
     pair_conf ''cdb_ins_client_dml'' ''cdb_ins_client_dml_1'' ''cdb_ins_client_dml_2'' 4 ''cdb_ins_client_dml_map.txt'',
     pair_conf ''cdb_tab_dml'' ''cdb_tab_dml_1'' ''cdb_tab_dml_2'' 6 ''cdb_tab_dml_map.txt'']"

text \<open>
  Reading a number with \<open>>>\<close>: blanks, a sign and digits; without digits, and for a number out of range, the
  variable keeps what it held, the parameter \<open>junk\<close>.
\<close>

definition read_number :: "string \<Rightarrow> int option" where
  "read_number s =
     (let s1 = dropWhile (\<lambda>c. c \<in> set [CHR '' '', TAB, NL, CR]) s;
          neg = (take 1 s1 = ''-'');
          s2 = (if neg \<or> take 1 s1 = ''+'' then drop 1 s1 else s1);
          ds = takeWhile isdigit s2;
          v = int (foldl (\<lambda>v c. 10 * v + digit_val c) 0 ds)
      in if ds = [] then None else Some (if neg then - v else v))"

definition from_str_int :: "int \<Rightarrow> string \<Rightarrow> int" where
  "from_str_int junk s =
     (case read_number s of None \<Rightarrow> junk | Some v \<Rightarrow> if - (2 ^ 31) \<le> v \<and> v < 2 ^ 31 then v else junk)"

definition from_str_unsigned :: "int \<Rightarrow> string \<Rightarrow> int" where
  "from_str_unsigned junk s =
     (case read_number s of None \<Rightarrow> junk | Some v \<Rightarrow> if \<bar>v\<bar> < 2 ^ 32 then v mod 2 ^ 32 else junk)"

definition conf_value :: "CFileConfig \<Rightarrow> string \<Rightarrow> string option" where
  "conf_value cfc k = (case conf_get cfc k of Inl _ \<Rightarrow> None | Inr v \<Rightarrow> Some v)"

text \<open>The body of the loop over the memories, for the memory number \<open>i + 1\<close>.\<close>

definition read_shm_conf :: "int \<Rightarrow> CFileConfig \<Rightarrow> nat \<Rightarrow> CDBShmConf option" where
  "read_shm_conf junk cfc i = do {
     let prefix = ''root'' @ [BACKSLASH] @ ''shm'' @ [BACKSLASH] @ ''shm'' @ print_nat 10 (i + 1) @ [BACKSLASH];
     name \<leftarrow> conf_value cfc (prefix @ ''name'');
     idn \<leftarrow> conf_value cfc (prefix @ ''id'');
     sz \<leftarrow> conf_value cfc (prefix @ ''size'');
     nt \<leftarrow> conf_value cfc (prefix @ ''node_total'');
     bs \<leftarrow> conf_value cfc (prefix @ ''bucket_size'');
     nc \<leftarrow> conf_value cfc (prefix @ ''n_chunks'');
     cs \<leftarrow> conf_value cfc (prefix @ ''chunk_size'');
     Some (shm_conf name (from_str_int junk idn) (from_str_unsigned junk sz) (from_str_int junk nt) (from_str_int junk bs)
       (from_str_int junk nc) (from_str_int junk cs))
   }"

fun read_shm_confs :: "int \<Rightarrow> CFileConfig \<Rightarrow> nat list \<Rightarrow> CDBShmConf list option" where
  "read_shm_confs junk cfc [] = Some []"
| "read_shm_confs junk cfc (i # is) = do { c \<leftarrow> read_shm_conf junk cfc i; cs \<leftarrow> read_shm_confs junk cfc is; Some (c # cs) }"

text \<open>The loop over the pairs stops at a pair that names an unknown memory: the flag is \<open>False\<close> then.\<close>

fun read_pair_confs :: "int \<Rightarrow> CFileConfig \<Rightarrow> string set \<Rightarrow> nat list \<Rightarrow> CDBShmPairConf list \<Rightarrow> (bool \<times> CDBShmPairConf list) option" where
  "read_pair_confs junk cfc names [] ps = Some (True, ps)"
| "read_pair_confs junk cfc names (i # is) ps = do {
     let prefix = ''root'' @ [BACKSLASH] @ ''shm_pair'' @ [BACKSLASH] @ ''pair'' @ print_nat 10 (i + 1) @ [BACKSLASH];
     name \<leftarrow> conf_value cfc (prefix @ ''name'');
     n1 \<leftarrow> conf_value cfc (prefix @ ''shm_name1'');
     n2 \<leftarrow> conf_value cfc (prefix @ ''shm_name2'');
     let p = (ps ! i)\<lparr>pc_name := name, pc_shm_name1 := n1, pc_shm_name2 := n2\<rparr>;
     if n1 \<notin> names \<or> n2 \<notin> names then Some (False, ps[i := p])
     else do {
       ci \<leftarrow> conf_value cfc (prefix @ ''conf_index'');
       mf \<leftarrow> conf_value cfc (prefix @ ''map_file'');
       read_pair_confs junk cfc names is (ps[i := p\<lparr>pc_conf_index := from_str_int junk ci, pc_map_file := mf\<rparr>])
     }
   }"

record cdb_state =
  g_errno :: int
  g_2nd_errno :: int
  g_data_path :: string
  g_shm_conf :: "CDBShmConf list"
  g_pair_conf :: "CDBShmPairConf list"
  g_names :: "string set"
  g_mgr :: CDBShmMgr
  g_pairs :: "(string \<times> CDBShmPair) list"
  g_files :: "string \<rightharpoonup> string"

definition cdb_start :: "(string \<rightharpoonup> string) \<Rightarrow> cdb_state" where
  "cdb_start files = \<lparr>g_errno = CDB_FINE, g_2nd_errno = 0, g_data_path = [], g_shm_conf = cdb_shm_conf_array,
     g_pair_conf = cdb_shm_pair_conf_array, g_names = {}, g_mgr = CDBShmMgr_new, g_pairs = [], g_files = files\<rparr>"

definition cdb_init_config_file :: "shm_env \<Rightarrow> string \<Rightarrow> cdb_state \<Rightarrow> (bool \<times> cdb_state) option" where
  "cdb_init_config_file env config_file g =
     (case conf_Init (g_files g) config_file CFileConfig_new of
        Inl _ \<Rightarrow> Some (True, g)
      | Inr cfc \<Rightarrow> do {
          sn \<leftarrow> conf_value cfc (''root'' @ [BACKSLASH] @ ''shm'' @ [BACKSLASH] @ ''shm_num'');
          if int (length (g_shm_conf g)) \<noteq> from_str_int (env_junk env) sn then Some (False, g)
          else do {
            pn \<leftarrow> conf_value cfc (''root'' @ [BACKSLASH] @ ''shm_pair'' @ [BACKSLASH] @ ''pair_num'');
            if int (length (g_pair_conf g)) \<noteq> from_str_int (env_junk env) pn then Some (False, g)
            else do {
              cs \<leftarrow> read_shm_confs (env_junk env) cfc [0..<length (g_shm_conf g)];
              let g = g\<lparr>g_shm_conf := cs, g_names := g_names g \<union> set (map sc_name cs)\<rparr>;
              (ok, ps) \<leftarrow> read_pair_confs (env_junk env) cfc (g_names g) [0..<length (g_pair_conf g)] (g_pair_conf g);
              Some (ok, g\<lparr>g_pair_conf := ps\<rparr>)
            }
          }
        })"

text \<open>
  The ratio of two integers below two to the 53 as a \<open>double\<close> is greater than \<open>1.0\<close> exactly if the first integer is
  greater; the branch for a ratio below 0.8 only prints.
\<close>

definition cdb_check_shm_conf :: "CDBShmConf \<Rightarrow> bool" where
  "cdb_check_shm_conf c =
     (let need_shm_size = get_total_pool_size (sc_node_total c) (sc_bucket_size c) (sc_n_chunks c) (sc_chunk_size c)
      in if need_shm_size > sc_size c then False else True)"

section \<open>Starting, attaching, switching\<close>

text \<open>One turn of the loop over the memories: \<open>Inl\<close> is an early return with \<open>false\<close>, \<open>of_path\<close> is the file of keys.\<close>

definition append_file :: "string \<Rightarrow> string \<Rightarrow> cdb_state \<Rightarrow> cdb_state" where
  "append_file f t g = g\<lparr>g_files := (g_files g)(f \<mapsto> (case g_files g f of None \<Rightarrow> [] | Some c \<Rightarrow> c) @ t)\<rparr>"

definition init_shm :: "shm_env \<Rightarrow> string \<Rightarrow> string \<Rightarrow> nat \<Rightarrow> CDBShmConf \<Rightarrow> cdb_state \<Rightarrow> (cdb_state + cdb_state) option" where
  "init_shm env path of_path i c g =
     (let k = env_ftok env path (sc_id c)
      in case mgr_reg env (sc_name c) k (sc_size c) True (g_mgr g) of
           (False, m) \<Rightarrow> Some (Inl (g\<lparr>g_mgr := m, g_errno := CDB_SHM_INIT_REG_ERROR\<rparr>))
         | (True, m) \<Rightarrow>
             (case mgr_get m (sc_name c) of
                None \<Rightarrow> None
              | Some j \<Rightarrow> do {
                  (ret, s) \<leftarrow> open_cache env c (sh_new (sm_objs m ! j)) (sm_objs m ! j);
                  if ret \<noteq> 0
                  then Some (Inl (g\<lparr>g_mgr := set_obj j s m, g_errno := CDB_SHM_INIT_CA_OPEN_ERROR, g_2nd_errno := ret\<rparr>))
                  else do {
                    let s' = s\<lparr>sh_lock := Some (get_lock i)\<rparr>;
                    let line = sh_name s' @ '' '' @ print_int (sh_key s') @ '' (lock '' @ print_nat 10 i @ '')'' @ [NL];
                    Some (Inr (append_file of_path line (g\<lparr>g_mgr := set_obj j s' m\<rparr>)))
                  }
                }))"

fun init_shms :: "shm_env \<Rightarrow> string \<Rightarrow> string \<Rightarrow> nat \<Rightarrow> CDBShmConf list \<Rightarrow> cdb_state \<Rightarrow> (cdb_state + cdb_state) option" where
  "init_shms env path of_path i [] g = Some (Inr g)"
| "init_shms env path of_path i (c # cs) g =
     (case init_shm env path of_path i c g of
        None \<Rightarrow> None
      | Some (Inl g') \<Rightarrow> Some (Inl g')
      | Some (Inr g') \<Rightarrow> init_shms env path of_path (i + 1) cs g')"

text \<open>The map of pairs is ordered by name, which is the order in which the switch thread visits it.\<close>

fun str_less :: "string \<Rightarrow> string \<Rightarrow> bool" where
  "str_less _ [] = False"
| "str_less [] (d # t) = True"
| "str_less (c # s) (d # t) = (char_code c < char_code d \<or> c = d \<and> str_less s t)"

fun put_pair_map :: "string \<Rightarrow> CDBShmPair \<Rightarrow> (string \<times> CDBShmPair) list \<Rightarrow> (string \<times> CDBShmPair) list" where
  "put_pair_map k p [] = [(k, p)]"
| "put_pair_map k p ((k', p') # ps) =
     (if k = k' then (k, p) # ps
      else if str_less k k' then (k, p) # (k', p') # ps
      else (k', p') # put_pair_map k p ps)"

definition init_pair :: "shm_env \<Rightarrow> CDBShmPairConf \<Rightarrow> cdb_state \<Rightarrow> (cdb_state + cdb_state) option" where
  "init_pair env c g =
     (if pc_conf_index c < 0 \<or> nat (pc_conf_index c) \<ge> length (g_shm_conf g) then None
      else do {
        let nsp = \<lparr>sp_last_switch_time = env_timeofday env, sp_current = mgr_get (g_mgr g) (pc_shm_name1 c),
                   sp_standby = mgr_get (g_mgr g) (pc_shm_name2 c), sp_shm_conf = g_shm_conf g ! nat (pc_conf_index c),
                   sp_pair_conf = c\<rparr>;
        let g = g\<lparr>g_pairs := put_pair_map (pc_name c) nsp (g_pairs g)\<rparr>;
        (ret, m, files) \<leftarrow> flush_pair_info env (g_data_path g) nsp (g_mgr g) (g_files g);
        let g = g\<lparr>g_mgr := m, g_files := files\<rparr>;
        if ret \<noteq> 0 then Some (Inl (g\<lparr>g_errno := ret\<rparr>)) else Some (Inr g)
      })"

fun init_pairs :: "shm_env \<Rightarrow> CDBShmPairConf list \<Rightarrow> cdb_state \<Rightarrow> (cdb_state + cdb_state) option" where
  "init_pairs env [] g = Some (Inr g)"
| "init_pairs env (c # cs) g =
     (case init_pair env c g of
        None \<Rightarrow> None
      | Some (Inl g') \<Rightarrow> Some (Inl g')
      | Some (Inr g') \<Rightarrow> init_pairs env cs g')"

definition cdb_init_shm_mgr :: "shm_env \<Rightarrow> string \<Rightarrow> cdb_state \<Rightarrow> (bool \<times> cdb_state) option" where
  "cdb_init_shm_mgr env mysqld_data_path g = do {
     let g = g\<lparr>g_data_path := mysqld_data_path\<rparr>;
     (ok, g) \<leftarrow> cdb_init_config_file env (g_data_path g @ ''/cdb.conf'') g;
     if \<not> ok then Some (False, g)
     else if \<not> list_all cdb_check_shm_conf (g_shm_conf g) then Some (False, g\<lparr>g_errno := CDB_SHM_INIT_CONF_ERROR\<rparr>)
     else do {
       let shmid_file_path = g_data_path g @ ''/cdb_shm_id.txt'';
       if \<not> env_can_write env shmid_file_path then Some (False, g\<lparr>g_errno := CDB_SHM_INIT_SHMID_FILE_FAILED\<rparr>)
       else do {
         let g = g\<lparr>g_files := (g_files g)(shmid_file_path \<mapsto> [])\<rparr>;
         let (e, m) = mgr_init (length (g_shm_conf g)) (g_mgr g);
         let g = g\<lparr>g_errno := e, g_mgr := m\<rparr>;
         if e \<noteq> CDB_FINE then Some (False, g)
         else do {
           r \<leftarrow> init_shms env mysqld_data_path shmid_file_path 0 (g_shm_conf g) g;
           case r of
             Inl g \<Rightarrow> Some (False, g)
           | Inr g \<Rightarrow> do {
               r \<leftarrow> init_pairs env (g_pair_conf g) g;
               case r of
                 Inl g \<Rightarrow> Some (False, g)
               | Inr g \<Rightarrow>
                   if env_thread env \<noteq> 0
                   then Some (False, g\<lparr>g_errno := CDB_SHM_INIT_SWITCH_THREAD_FAIL, g_2nd_errno := env_thread env\<rparr>)
                   else Some (True, g)
             }
         }
       }
     }
   }"

definition cdb_shutdown_shm_mgr :: "cdb_state \<Rightarrow> bool \<times> cdb_state" where
  "cdb_shutdown_shm_mgr g = (True, g\<lparr>g_mgr := destroy_all_lock (g_mgr g)\<rparr>)"

definition attach_shm :: "shm_env \<Rightarrow> string \<Rightarrow> CDBShmConf \<Rightarrow> cdb_state \<Rightarrow> (cdb_state + cdb_state) option" where
  "attach_shm env path c g =
     (let k = env_ftok env path (sc_id c)
      in case mgr_reg env (sc_name c) k (sc_size c) True (g_mgr g) of
           (False, m) \<Rightarrow> Some (Inl (g\<lparr>g_mgr := m, g_errno := CDB_SHM_INIT_REG_ERROR\<rparr>))
         | (True, m) \<Rightarrow>
             (case mgr_get m (sc_name c) of
                None \<Rightarrow> None
              | Some j \<Rightarrow> do {
                  (ret, s) \<leftarrow> open_cache env c (sh_new (sm_objs m ! j)) (sm_objs m ! j);
                  let g = g\<lparr>g_mgr := set_obj j s m\<rparr>;
                  if ret \<noteq> 0 then Some (Inl (g\<lparr>g_errno := CDB_SHM_INIT_CA_OPEN_ERROR, g_2nd_errno := ret\<rparr>))
                  else Some (Inr g)
                }))"

fun attach_shms :: "shm_env \<Rightarrow> string \<Rightarrow> CDBShmConf list \<Rightarrow> cdb_state \<Rightarrow> (cdb_state + cdb_state) option" where
  "attach_shms env path [] g = Some (Inr g)"
| "attach_shms env path (c # cs) g =
     (case attach_shm env path c g of
        None \<Rightarrow> None
      | Some (Inl g') \<Rightarrow> Some (Inl g')
      | Some (Inr g') \<Rightarrow> attach_shms env path cs g')"

definition cdb_attach_shm_mgr :: "shm_env \<Rightarrow> string \<Rightarrow> cdb_state \<Rightarrow> (bool \<times> cdb_state) option" where
  "cdb_attach_shm_mgr env mysqld_data_path g = do {
     let (e, m) = mgr_attach (g_mgr g);
     let g = g\<lparr>g_errno := e, g_mgr := m\<rparr>;
     if e \<noteq> CDB_FINE then Some (False, g)
     else do {
       r \<leftarrow> attach_shms env mysqld_data_path (g_shm_conf g) g;
       case r of Inl g \<Rightarrow> Some (False, g) | Inr g \<Rightarrow> Some (True, g)
     }
   }"

text \<open>One round of the endless loop of the switch thread; a failed flush is only reported.\<close>

definition switch_pair :: "shm_env \<Rightarrow> string \<times> CDBShmPair \<Rightarrow> cdb_state \<Rightarrow> cdb_state option" where
  "switch_pair env kp g = (case kp of (k, p) \<Rightarrow> do {
     (p', m) \<leftarrow> switch_shm env p (g_mgr g);
     (_, m', files) \<leftarrow> flush_pair_info env (g_data_path g) p' m (g_files g);
     Some (g\<lparr>g_pairs := put_pair_map k p' (g_pairs g), g_mgr := m', g_files := files\<rparr>)
   })"

fun switch_pairs :: "shm_env \<Rightarrow> (string \<times> CDBShmPair) list \<Rightarrow> cdb_state \<Rightarrow> cdb_state option" where
  "switch_pairs env [] g = Some g"
| "switch_pairs env (kp # kps) g = do { g' \<leftarrow> switch_pair env kp g; switch_pairs env kps g' }"

definition switch_round :: "shm_env \<Rightarrow> cdb_state \<Rightarrow> cdb_state option" where
  "switch_round env g = switch_pairs env (g_pairs g) g"

section \<open>The sample file\<close>

text \<open>The file \<open>cdb/cdb.conf\<close>.\<close>

definition sample_conf :: string where
  "sample_conf = lines_text [
     indented 0 ''<root>'',
     indented 1 ''<shm>'',
     indented 2 ''shm_num = 2'',
     indented 2 ''<shm1>'',
     indented 3 ''name = cdb_ins_dml_1'',
     indented 3 ''id = 1'',
     indented 3 ''size = 8388608'',
     indented 3 ''node_total = 1024'',
     indented 3 ''bucket_size = 1024'',
     indented 3 ''n_chunks = 1024'',
     indented 3 ''chunk_size = 512'',
     indented 2 ''</shm1>'',
     indented 2 ''<shm2>'',
     indented 3 ''name = cdb_ins_dml_2'',
     indented 3 ''id = 2'',
     indented 3 ''size = 8388608'',
     indented 3 ''node_total = 1024'',
     indented 3 ''bucket_size = 1024'',
     indented 3 ''n_chunks = 1024'',
     indented 3 ''chunk_size = 512'',
     indented 2 ''</shm2>'',
     indented 1 ''</shm>'',
     indented 1 ''<shm_pair>'',
     indented 2 ''pair_num = 1'',
     indented 2 ''<pair1>'',
     indented 3 ''name = cdb_ins_dml'',
     indented 3 ''shm_name1 = cdb_ins_dml_1'',
     indented 3 ''shm_name2 = cdb_ins_dml_2'',
     indented 3 ''conf_index = 0'',
     indented 3 ''map_file = cdb_ins_dml_map.txt'',
     indented 2 ''</pair1>'',
     indented 1 ''</shm_pair>'',
     indented 0 ''</root>'']"

definition sample_tree :: "conf_entry list" where
  "sample_tree = [
     ESection ''root'' [ESection ''shm'' [EPair ''shm_num'' ''2'', ESection ''shm1'' [EPair ''name'' ''cdb_ins_dml_1'',
     EPair ''id'' ''1'', EPair ''size'' ''8388608'', EPair ''node_total'' ''1024'', EPair ''bucket_size'' ''1024'', EPair
     ''n_chunks'' ''1024'', EPair ''chunk_size'' ''512''], ESection ''shm2'' [EPair ''name'' ''cdb_ins_dml_2'', EPair
     ''id'' ''2'', EPair ''size'' ''8388608'', EPair ''node_total'' ''1024'', EPair ''bucket_size'' ''1024'', EPair
     ''n_chunks'' ''1024'', EPair ''chunk_size'' ''512'']], ESection ''shm_pair'' [EPair ''pair_num'' ''1'', ESection
     ''pair1'' [EPair ''name'' ''cdb_ins_dml'', EPair ''shm_name1'' ''cdb_ins_dml_1'', EPair ''shm_name2''
     ''cdb_ins_dml_2'', EPair ''conf_index'' ''0'', EPair ''map_file'' ''cdb_ins_dml_map.txt'']]]]"

lemma sample_conf_text: "sample_conf = conf_text sample_tree"
  by (simp add: sample_conf_def sample_tree_def lines_text_def conf_text_def numeral_2_eq_2 numeral_3_eq_3)

text \<open>
  C31. The sample file \<open>cdb.conf\<close> is refused: it is read without error, but it says that there are two
  memories while the program has eight, so the start of the manager returns \<open>false\<close>.
\<close>

theorem sample_conf_refused:
  assumes "g_files g = [path @ ''/cdb.conf'' \<mapsto> sample_conf]" and "g_shm_conf g = cdb_shm_conf_array"
  shows "map_option fst (cdb_init_shm_mgr env path g) = Some False"
proof -
  define f where "f = path @ ''/cdb.conf''"
  have ok: "list_all entry_ok sample_tree" "list_all is_section sample_tree" "f \<noteq> []"
    by (simp_all add: sample_tree_def word_ok_def value_ok_def is_sep_def f_def)
  have w: "[''root'', ''shm''] \<noteq> []" "list_all word_ok [''root'', ''shm'']" "word_ok ''shm_num''" by (simp_all add: word_ok_def)
  have v: "value_at sample_tree [''root'', ''shm''] ''shm_num'' = Some ''2''"
    by (simp add: value_at_def sample_tree_def)
  have k: "''root'' @ [BACKSLASH] @ ''shm'' @ [BACKSLASH] @ ''shm_num'' = path_name [''root'', ''shm''] @ BACKSLASH # ''shm_num''"
    by (simp add: join_path_def)
  have files: "g_files g f = Some (conf_text sample_tree)" using assms(1) by (simp add: f_def sample_conf_text)
  obtain c where c: "conf_Init (g_files g) f CFileConfig_new = Inr c" "conf_value c (path_name [''root'', ''shm''] @ BACKSLASH # ''shm_num'') = Some ''2''"
  proof -
    from load_tree_lookup [where files = "g_files g", OF ok files]
    show thesis
    proof (elim exE conjE)
      fix c
      assume c: "conf_Init (g_files g) f CFileConfig_new = Inr c" and
        "\<forall>path name. path \<noteq> [] \<longrightarrow> list_all word_ok path \<longrightarrow> word_ok name \<longrightarrow>
          conf_get c (path_name path @ BACKSLASH # name) =
            (case value_at sample_tree path name of
               None \<Rightarrow> Inl (conf_not_find (''CFileConfig::['' @ (path_name path @ BACKSLASH # name) @ ''] is not find''))
             | Some v \<Rightarrow> Inr v)"
      from this(2) [rule_format, OF w] show thesis unfolding v by (intro that [OF c]) (simp only: conf_value_def option.case sum.case)
    qed
  qed
  have "from_str_int (env_junk env) ''2'' = 2"
    by (simp add: from_str_int_def read_number_def isdigit_def digit_val_def char_code_def Let_def)
  then have "cdb_init_config_file env f (g\<lparr>g_data_path := path\<rparr>) = Some (False, g\<lparr>g_data_path := path\<rparr>)"
    using c(2) assms(2) by (simp add: cdb_init_config_file_def c(1) k del: path_name_simps append_Cons append_Nil)
      (simp add: cdb_shm_conf_array_def)
  then show ?thesis by (simp add: cdb_init_shm_mgr_def flip: f_def)
qed

theorem sample_conf_refused_witness:
  "\<forall>env. map_option fst (cdb_init_shm_mgr env ''/data'' (cdb_start [''/data'' @ ''/cdb.conf'' \<mapsto> sample_conf])) = Some False"
  using sample_conf_refused [of "cdb_start [''/data'' @ ''/cdb.conf'' \<mapsto> sample_conf]" "''/data''"] by (simp add: cdb_start_def)

section \<open>Opening and switching\<close>

definition conf_geom_ok :: "CDBShmConf \<Rightarrow> bool" where
  "conf_geom_ok c \<longleftrightarrow> 0 < sc_bucket_size c \<and> 0 \<le> sc_node_total c \<and>
     hash_head_size + sc_bucket_size c * 4 + sc_node_total c * 64 < 2 ^ 31 \<and> 0 < sc_chunk_size c \<and> 0 \<le> sc_n_chunks c"

definition conf_geom :: "CDBShmConf \<Rightarrow> geometry" where
  "conf_geom c = ((sc_node_total c, sc_bucket_size c), sc_n_chunks c, sc_chunk_size c)"

definition conf_cap :: "CDBShmConf \<Rightarrow> nat" where
  "conf_cap c = nat (min (sc_node_total c) (sc_n_chunks c div chunks_for (sc_chunk_size c) 72))"

lemma conf_cap_geom: "conf_cap c = nat (min (fst (fst (conf_geom c))) (fst (snd (conf_geom c)) div chunks_for (snd (snd (conf_geom c))) 72))"
  by (simp add: conf_cap_def conf_geom_def)

text \<open>A memory with an open, empty cache of the configured capacity.\<close>

definition opened :: "CDBShmConf \<Rightarrow> CDBShm \<Rightarrow> bool" where
  "opened c s \<longleftrightarrow> (\<exists>ca. sh_ca s = Some ca \<and> store_rep 72 ca Map.empty \<and> store_cap 72 ca = conf_cap c \<and>
     hm_geom (m_cache ca) = conf_geom c)"

lemma open_cache_new:
  assumes "conf_geom_ok c" and "cdb_check_shm_conf c" and "sh_data_size s = sc_size c"
  shows "\<exists>ca. open_cache env c True s = Some (0, s\<lparr>sh_ca := Some ca\<rparr>) \<and> opened c (s\<lparr>sh_ca := Some ca\<rparr>)"
proof -
  define ca0 where "ca0 = new_cache env (sh_mem s)"
  have g: "0 < sc_bucket_size c" "0 \<le> sc_node_total c" "hash_head_size + sc_bucket_size c * 4 + sc_node_total c * 64 < 2 ^ 31"
    "0 < sc_chunk_size c" "0 \<le> sc_n_chunks c" using assms(1) by (simp_all add: conf_geom_ok_def)
  obtain h where h: "hash_open (env_raw env) True (sc_node_total c) (sc_bucket_size c) (sc_n_chunks c) (sc_chunk_size c) (m_cache ca0) = Some (0, h)"
    "hm_ok h [] (\<lambda>_. undefined)" "m_node_total h = sc_node_total c" "m_bucket_size h = sc_bucket_size c" "m_chunk_total (m_allocator h) = sc_n_chunks c" "m_chunk_size (m_allocator h) = sc_chunk_size c"
    using hash_open_init [OF g, where V = "\<lambda>_. undefined"] by blast
  define ca where "ca = ca0\<lparr>m_cacheinit := True, m_mem_size := sh_data_size s, m_cache := h\<rparr>"
  have "open_cache env c True s = Some (0, s\<lparr>sh_ca := Some ca\<rparr>)"
    using assms(2,3) h(1) by (simp add: open_cache_def ca_open_def cdb_check_shm_conf_def Let_def ca_def ca0_def split: if_splits)
  moreover have "values_of [] = Map.empty" by (simp add: values_of_def lru_find_def fun_eq_iff)
  then have "store_rep 72 ca Map.empty" using h(2)
    by (auto simp: store_rep_def ca_def ca0_def new_cache_def CacheAccess_new_def cache_rep_def intro!: exI [of _ "[]"])
  moreover have "store_cap 72 ca = conf_cap c" "hm_geom (m_cache ca) = conf_geom c"
    using h(3-6) by (simp_all add: store_cap_def conf_cap_def conf_geom_def ca_def hm_geom_def al_geom_def)
  ultimately show ?thesis by (auto simp: opened_def)
qed

definition pair_ok :: "CDBShmMgr \<Rightarrow> CDBShmPair \<Rightarrow> bool" where
  "pair_ok m p \<longleftrightarrow> (\<exists>cu sb. sp_current p = Some cu \<and> sp_standby p = Some sb \<and> cu \<noteq> sb \<and>
     cu < length (sm_objs m) \<and> sb < length (sm_objs m) \<and>
     (\<forall>i \<in> {cu, sb}. sh_lock (sm_objs m ! i) \<noteq> None \<and> sh_data_size (sm_objs m ! i) = sc_size (sp_shm_conf p) \<and>
        length (sh_meta (sm_objs m ! i)) = nat CDB_SHM_META_MAX)) \<and>
     conf_geom_ok (sp_shm_conf p) \<and> cdb_check_shm_conf (sp_shm_conf p)"

text \<open>
  C17. Switching a pair keeps its invariant, exchanges current and standby, starts the new current memory with
  an empty cache of full capacity, and leaves the old current memory, which is the new standby, as it was.
  The recorded time of the last switch does not change.
\<close>

theorem switch_shm_spec:
  assumes "pair_ok m p"
  shows "\<exists>p' m'. switch_shm env p m = Some (p', m') \<and> pair_ok m' p' \<and>
    sp_current p' = sp_standby p \<and> sp_standby p' = sp_current p \<and>
    opened (sp_shm_conf p) (deref m' (sp_current p')) \<and> deref m' (sp_standby p') = deref m (sp_current p) \<and>
    sp_last_switch_time p' = sp_last_switch_time p"
proof -
  obtain cu sb where p: "sp_current p = Some cu" "sp_standby p = Some sb" "cu \<noteq> sb" "cu < length (sm_objs m)" "sb < length (sm_objs m)"
    "\<forall>i \<in> {cu, sb}. sh_lock (sm_objs m ! i) \<noteq> None \<and> sh_data_size (sm_objs m ! i) = sc_size (sp_shm_conf p) \<and>
        length (sh_meta (sm_objs m ! i)) = nat CDB_SHM_META_MAX"
    and c: "conf_geom_ok (sp_shm_conf p)" "cdb_check_shm_conf (sp_shm_conf p)" using assms by (auto simp: pair_ok_def)
  define s where "s = (sm_objs m ! sb)\<lparr>sh_mem := zero_hm\<rparr>"
  have "sh_data_size s = sc_size (sp_shm_conf p)" using p(6) by (simp add: s_def)
  from open_cache_new [OF c this, of env] obtain ca where
    ca: "open_cache env (sp_shm_conf p) True s = Some (0, s\<lparr>sh_ca := Some ca\<rparr>)" "opened (sp_shm_conf p) (s\<lparr>sh_ca := Some ca\<rparr>)" by blast
  define p' m' where "p' = p\<lparr>sp_current := Some sb, sp_standby := Some cu\<rparr>" and "m' = set_obj sb (s\<lparr>sh_ca := Some ca\<rparr>) m"
  have "switch_shm env p m = Some (p', m')"
    using p ca(1) by (simp add: switch_shm_def p'_def m'_def flip: s_def) (simp add: s_def)
  moreover have "pair_ok m' p'" using p c by (auto simp: pair_ok_def p'_def m'_def set_obj_def s_def)
  moreover have "opened (sp_shm_conf p) (deref m' (sp_current p'))" "deref m' (sp_standby p') = deref m (sp_current p)"
    using p ca(2) by (simp_all add: deref_def p'_def m'_def set_obj_def)
  ultimately show ?thesis using p by (auto simp: p'_def)
qed

lemmas shm_geometry = conf_geom_ok_def cdb_check_shm_conf_def get_total_pool_size_def hash_get_pool_size_def
  chunk_get_pool_size_def get_chunk_size_def hash_head_size_def chunk_head_size_def shm_conf_def MB_def CDB_SHM_META_MAX_def c_int_def

definition demo_shm :: "string \<Rightarrow> nat \<Rightarrow> CDBShm" where
  "demo_shm name l = wrong_shm\<lparr>sh_name := name, sh_lock := Some l, sh_data_size := MB, sh_meta := replicate 4096 0\<rparr>"

definition demo_mgr :: CDBShmMgr where
  "demo_mgr = \<lparr>sm_shm_map = [''a'' \<mapsto> 0, ''b'' \<mapsto> 1], sm_objs = [demo_shm ''a'' 0, demo_shm ''b'' 1], sm_locks = [True, True]\<rparr>"

definition demo_pair :: CDBShmPair where
  "demo_pair = \<lparr>sp_last_switch_time = (5, 0), sp_current = Some 0, sp_standby = Some 1,
     sp_shm_conf = shm_conf ''a'' 1 MB 1024 1024 1024 512, sp_pair_conf = pair_conf ''p'' ''a'' ''b'' 0 ''f''\<rparr>"

theorem switch_shm_spec_witness:
  "\<forall>env. \<exists>p' m'. switch_shm env demo_pair demo_mgr = Some (p', m') \<and> pair_ok m' p' \<and>
    sp_current p' = Some 1 \<and> sp_standby p' = Some 0 \<and> opened (sp_shm_conf demo_pair) (deref m' (sp_current p')) \<and>
    deref m' (sp_standby p') = demo_shm ''a'' 0 \<and> sp_last_switch_time p' = (5, 0)"
proof -
  have "pair_ok demo_mgr demo_pair"
    by (simp add: pair_ok_def demo_mgr_def demo_pair_def demo_shm_def wrong_shm_def shm_geometry)
  from switch_shm_spec [OF this] show ?thesis
    by (auto simp: demo_mgr_def demo_pair_def deref_def)
qed

section \<open>Starting\<close>

text \<open>A system that creates every memory, writes every file and starts the thread.\<close>

definition fresh_env :: "shm_env \<Rightarrow> bool" where
  "fresh_env env \<longleftrightarrow> (\<forall>k n. env_shmget env k n False < 0 \<and> 0 \<le> env_shmget env k n True) \<and>
     (\<forall>i. env_shmat env i \<noteq> -1) \<and> (\<forall>f. env_can_write env f) \<and> env_thread env = 0"

definition mem_init :: "CDBShmConf \<Rightarrow> nat \<Rightarrow> CDBShm \<Rightarrow> bool" where
  "mem_init c i s \<longleftrightarrow> sh_name s = sc_name c \<and> sh_data_size s = sc_size c \<and> length (sh_meta s) = nat CDB_SHM_META_MAX \<and>
     sh_lock s = Some i \<and> opened c s"

definition conf_ok :: "CDBShmConf \<Rightarrow> bool" where
  "conf_ok c \<longleftrightarrow> conf_geom_ok c \<and> cdb_check_shm_conf c \<and> NUL \<notin> set (sc_name c)"

lemma init_shm_fresh:
  assumes "fresh_env env" and "conf_ok c"
  shows "\<exists>m files s. init_shm env path f i c g = Some (Inr (g\<lparr>g_mgr := m, g_files := files\<rparr>)) \<and>
    sm_objs m = sm_objs (g_mgr g) @ [s] \<and> mem_init c i s \<and>
    sm_shm_map m = (sm_shm_map (g_mgr g))(sc_name c \<mapsto> length (sm_objs (g_mgr g)))"
proof -
  have c: "conf_geom_ok c" "cdb_check_shm_conf c" "c_str (sc_name c) = sc_name c" using assms(2) c_str_id by (auto simp: conf_ok_def)
  define k where "k = env_ftok env path (sc_id c)"
  obtain m0 s0 where r: "mgr_reg env (sc_name c) k (sc_size c) True (g_mgr g) = (True, m0)" "sm_objs m0 = sm_objs (g_mgr g) @ [s0]"
    "sm_shm_map m0 = (sm_shm_map (g_mgr g))(sc_name c \<mapsto> length (sm_objs (g_mgr g)))" "sh_new s0" "sh_name s0 = sc_name c"
    "sh_data_size s0 = sc_size c" "length (sh_meta s0) = nat CDB_SHM_META_MAX"
    using assms(1) c(3) by (simp add: mgr_reg_def fresh_env_def Let_def not_less)
  obtain ca where ca: "open_cache env c True s0 = Some (0, s0\<lparr>sh_ca := Some ca\<rparr>)" "opened c (s0\<lparr>sh_ca := Some ca\<rparr>)"
    using open_cache_new [OF c(1,2) r(6)] by blast
  define s where "s = s0\<lparr>sh_ca := Some ca, sh_lock := Some i\<rparr>"
  have "mem_init c i s" using r ca(2) by (simp add: mem_init_def s_def opened_def)
  moreover have "\<exists>files. init_shm env path f i c g =
      Some (Inr (g\<lparr>g_mgr := set_obj (length (sm_objs (g_mgr g))) s m0, g_files := files\<rparr>))"
    using r ca(1) c(3) by (simp add: init_shm_def mgr_get_def append_file_def s_def get_lock_def Let_def flip: k_def) (rule exI, rule refl)
  moreover have "sm_objs (set_obj (length (sm_objs (g_mgr g))) s m0) = sm_objs (g_mgr g) @ [s]"
    "sm_shm_map (set_obj (length (sm_objs (g_mgr g))) s m0) = sm_shm_map m0" using r(2) by (simp_all add: set_obj_def)
  ultimately show ?thesis unfolding r(3) by blast
qed

text \<open>The objects stand for the configured memories, in order, and are found by name.\<close>

definition mgr_holds :: "(CDBShmConf \<Rightarrow> nat \<Rightarrow> CDBShm \<Rightarrow> bool) \<Rightarrow> CDBShmConf list \<Rightarrow> CDBShmMgr \<Rightarrow> bool" where
  "mgr_holds P cs m \<longleftrightarrow> length (sm_objs m) = length cs \<and>
     (\<forall>j < length cs. P (cs ! j) j (sm_objs m ! j) \<and> sm_shm_map m (sc_name (cs ! j)) = Some j)"

abbreviation mgr_ok :: "CDBShmConf list \<Rightarrow> CDBShmMgr \<Rightarrow> bool" where
  "mgr_ok \<equiv> mgr_holds mem_init"

lemma mgr_holds_snoc:
  assumes "mgr_holds P cs m" and "sm_objs m' = sm_objs m @ [s]" and "P c (length cs) s"
    and "sm_shm_map m' = (sm_shm_map m)(sc_name c \<mapsto> length (sm_objs m))" and "sc_name c \<notin> sc_name ` set cs"
  shows "mgr_holds P (cs @ [c]) m'"
proof -
  have l: "length (sm_objs m) = length cs" using assms(1) by (simp add: mgr_holds_def)
  have "P ((cs @ [c]) ! j) j (sm_objs m' ! j) \<and> sm_shm_map m' (sc_name ((cs @ [c]) ! j)) = Some j"
    if "j < length (cs @ [c])" for j
  proof (cases "j = length cs")
    case False
    then have j: "j < length cs" using that by simp
    then have "sc_name (cs ! j) \<noteq> sc_name c" using assms(5) by (metis imageI nth_mem)
    then show ?thesis using assms(1,2,4) j l by (simp add: mgr_holds_def nth_append)
  qed (use assms(2,3,4) l in \<open>simp add: nth_append\<close>)
  then show ?thesis using assms(2) l by (simp add: mgr_holds_def)
qed

lemma init_shms_fresh:
  assumes "fresh_env env" and "list_all conf_ok cs'" and "distinct (map sc_name (cs @ cs'))" and "mgr_ok cs (g_mgr g)"
  shows "\<exists>m files. init_shms env path f (length cs) cs' g = Some (Inr (g\<lparr>g_mgr := m, g_files := files\<rparr>)) \<and> mgr_ok (cs @ cs') m"
  using assms(2-4)
proof (induction cs' arbitrary: cs g)
  case Nil
  then show ?case by (intro exI [of _ "g_mgr g"] exI [of _ "g_files g"]) simp
next
  case (Cons c cs')
  have c: "conf_ok c" using Cons.prems(1) by simp
  from init_shm_fresh [OF assms(1) c, of path f "length cs" g] obtain m files s where
    m: "init_shm env path f (length cs) c g = Some (Inr (g\<lparr>g_mgr := m, g_files := files\<rparr>))"
    "sm_objs m = sm_objs (g_mgr g) @ [s]" "mem_init c (length cs) s"
    "sm_shm_map m = (sm_shm_map (g_mgr g))(sc_name c \<mapsto> length (sm_objs (g_mgr g)))" by blast
  have "mgr_ok (cs @ [c]) m" using mgr_holds_snoc [OF Cons.prems(3) m(2-4)] Cons.prems(2) by auto
  then have "\<exists>m' files'. init_shms env path f (length (cs @ [c])) cs' (g\<lparr>g_mgr := m, g_files := files\<rparr>) =
      Some (Inr (g\<lparr>g_mgr := m, g_files := files, g_mgr := m', g_files := files'\<rparr>)) \<and> mgr_ok ((cs @ [c]) @ cs') m'"
    using Cons.IH [of "cs @ [c]" "g\<lparr>g_mgr := m, g_files := files\<rparr>"] Cons.prems by simp
  then show ?case using m(1) by auto
qed

text \<open>The meta part takes the image of a pair when name and directory are short enough, and nothing else changes.\<close>

definition meta_need :: "string \<Rightarrow> string \<Rightarrow> nat" where
  "meta_need name dir_path = 33 + length name + length dir_path"

lemma length_meta_image: "length (meta_image p b name dir_path) = meta_need name dir_path"
  by (simp add: meta_image_def meta_need_def string_bytes_def)

text \<open>What names a memory in the map file.\<close>

definition shm_ident :: "CDBShm \<Rightarrow> string \<times> int" where
  "shm_ident s = (sh_name s, sh_key s)"

definition mgr_live :: "CDBShmConf list \<Rightarrow> CDBShmMgr \<Rightarrow> bool" where
  "mgr_live cs m \<longleftrightarrow> length (sm_objs m) = length cs \<and>
     (\<forall>j < length cs. sh_name (sm_objs m ! j) = sc_name (cs ! j) \<and> sh_data_size (sm_objs m ! j) = sc_size (cs ! j) \<and>
        length (sh_meta (sm_objs m ! j)) = nat CDB_SHM_META_MAX \<and> sh_lock (sm_objs m ! j) = Some j \<and>
        sm_shm_map m (sc_name (cs ! j)) = Some j)"

lemma mgr_ok_iff: "mgr_ok cs m \<longleftrightarrow> mgr_live cs m \<and> (\<forall>j < length cs. opened (cs ! j) (sm_objs m ! j))"
  by (auto simp: mgr_holds_def mgr_live_def mem_init_def)

lemma flush_meta_live:
  assumes "mgr_live cs m" and "sp_current p = Some a" and "sp_standby p = Some b" and "a \<noteq> b" and "a < length cs" and "b < length cs"
    and "meta_need (sc_name (cs ! a)) dp \<le> 4096" and "meta_need (sc_name (cs ! b)) dp \<le> 4096"
  shows "\<exists>m'. flush_pair_meta_data dp p m = Some (CDB_FINE, m') \<and> mgr_live cs m' \<and>
    (\<forall>i < length cs. sh_ca (sm_objs m' ! i) = sh_ca (sm_objs m ! i)) \<and> (\<forall>i. i \<noteq> a \<and> i \<noteq> b \<longrightarrow> sm_objs m' ! i = sm_objs m ! i) \<and>
    (\<forall>i. shm_ident (sm_objs m' ! i) = shm_ident (sm_objs m ! i))"
proof -
  define f where "f i x = set_obj i ((sm_objs m ! i)\<lparr>sh_meta := x @ drop (length x) (sh_meta (sm_objs m ! i))\<rparr>)" for i x
  define m' where "m' = f b (meta_image p False (sc_name (cs ! b)) dp) (f a (meta_image p True (sc_name (cs ! a)) dp) m)"
  have n: "length (sm_objs m) = length cs" "\<And>j. j < length cs \<Longrightarrow> sh_name (sm_objs m ! j) = sc_name (cs ! j)"
    "\<And>j. j < length cs \<Longrightarrow> length (sh_meta (sm_objs m ! j)) = 4096" using assms(1) by (auto simp: mgr_live_def CDB_SHM_META_MAX_def)
  have "flush_pair_meta_data dp p m = Some (CDB_FINE, m')"
    using assms(2-8) n by (simp add: flush_pair_meta_data_def memcpy_def length_meta_image m'_def f_def set_obj_def Let_def)
  moreover have "mgr_live cs m'"
    using assms(1,4-8) n by (auto simp: mgr_live_def m'_def f_def set_obj_def nth_list_update length_meta_image CDB_SHM_META_MAX_def)
  moreover have "\<forall>i < length cs. sh_ca (sm_objs m' ! i) = sh_ca (sm_objs m ! i)" "\<forall>i. i \<noteq> a \<and> i \<noteq> b \<longrightarrow> sm_objs m' ! i = sm_objs m ! i"
    "\<forall>i. shm_ident (sm_objs m' ! i) = shm_ident (sm_objs m ! i)"
    using n(1) assms(5,6) by (auto simp: m'_def f_def set_obj_def nth_list_update shm_ident_def)
  ultimately show ?thesis by blast
qed

lemma flush_meta_ok:
  assumes "mgr_ok cs m" and "sp_current p = Some a" and "sp_standby p = Some b" and "a \<noteq> b" and "a < length cs" and "b < length cs"
    and "meta_need (sc_name (cs ! a)) dp \<le> 4096" and "meta_need (sc_name (cs ! b)) dp \<le> 4096"
  shows "\<exists>m'. flush_pair_meta_data dp p m = Some (CDB_FINE, m') \<and> mgr_ok cs m'"
  using flush_meta_live [OF _ assms(2-8), of m] assms(1) by (auto simp: mgr_ok_iff opened_def)

text \<open>A pair of the configuration: two different memories of the size that the referenced geometry has.\<close>

definition pair_conf_ok :: "CDBShmConf list \<Rightarrow> string \<Rightarrow> CDBShmPairConf \<Rightarrow> bool" where
  "pair_conf_ok cs dp c \<longleftrightarrow> (\<exists>a < length cs. \<exists>b < length cs. a \<noteq> b \<and> pc_shm_name1 c = sc_name (cs ! a) \<and> pc_shm_name2 c = sc_name (cs ! b) \<and>
     0 \<le> pc_conf_index c \<and> nat (pc_conf_index c) < length cs \<and>
     conf_geom (cs ! a) = conf_geom (cs ! nat (pc_conf_index c)) \<and> conf_geom (cs ! b) = conf_geom (cs ! nat (pc_conf_index c)) \<and>
     sc_size (cs ! a) = sc_size (cs ! nat (pc_conf_index c)) \<and> sc_size (cs ! b) = sc_size (cs ! nat (pc_conf_index c)) \<and>
     meta_need (sc_name (cs ! a)) dp \<le> 4096 \<and> meta_need (sc_name (cs ! b)) dp \<le> 4096)"

text \<open>A pair ready for use: switchable, and both caches open and empty.\<close>

definition pair_ready :: "CDBShmConf list \<Rightarrow> CDBShmPair \<Rightarrow> bool" where
  "pair_ready cs p \<longleftrightarrow> (\<exists>a < length cs. \<exists>b < length cs. a \<noteq> b \<and> sp_current p = Some a \<and> sp_standby p = Some b \<and>
     sp_shm_conf p \<in> set cs \<and> conf_geom (cs ! a) = conf_geom (sp_shm_conf p) \<and> conf_geom (cs ! b) = conf_geom (sp_shm_conf p) \<and>
     sc_size (cs ! a) = sc_size (sp_shm_conf p) \<and> sc_size (cs ! b) = sc_size (sp_shm_conf p))"

lemma pair_ready_ok:
  assumes "mgr_ok cs m" and "list_all conf_ok cs" and "pair_ready cs p"
  shows "pair_ok m p" and "opened (sp_shm_conf p) (deref m (sp_current p))" and "opened (sp_shm_conf p) (deref m (sp_standby p))"
proof -
  obtain a b where p: "a < length cs" "b < length cs" "a \<noteq> b" "sp_current p = Some a" "sp_standby p = Some b" "sp_shm_conf p \<in> set cs"
    "conf_geom (cs ! a) = conf_geom (sp_shm_conf p)" "conf_geom (cs ! b) = conf_geom (sp_shm_conf p)"
    "sc_size (cs ! a) = sc_size (sp_shm_conf p)" "sc_size (cs ! b) = sc_size (sp_shm_conf p)" using assms(3) by (auto simp: pair_ready_def)
  have m: "length (sm_objs m) = length cs" "mem_init (cs ! a) a (sm_objs m ! a)" "mem_init (cs ! b) b (sm_objs m ! b)"
    using assms(1) p(1,2) by (auto simp: mgr_holds_def)
  have "conf_ok (sp_shm_conf p)" using assms(2) p(6) by (simp add: list_all_iff)
  then show "pair_ok m p" using p m by (simp add: pair_ok_def conf_ok_def mem_init_def)
  show "opened (sp_shm_conf p) (deref m (sp_current p))" "opened (sp_shm_conf p) (deref m (sp_standby p))"
    using p m by (simp_all add: deref_def mem_init_def opened_def conf_cap_geom)
qed

text \<open>The pair that the start makes: memories are numbered in the order of the configuration.\<close>

definition pair_start :: "shm_env \<Rightarrow> CDBShmConf list \<Rightarrow> CDBShmPairConf \<Rightarrow> CDBShmPair" where
  "pair_start env cs c = (let index = map_of (zip (map sc_name cs) [0..<length cs])
     in \<lparr>sp_last_switch_time = env_timeofday env, sp_current = index (pc_shm_name1 c), sp_standby = index (pc_shm_name2 c),
          sp_shm_conf = cs ! nat (pc_conf_index c), sp_pair_conf = c\<rparr>)"

lemma init_pair_fresh:
  assumes "fresh_env env" and "mgr_ok (g_shm_conf g) (g_mgr g)" and "list_all conf_ok (g_shm_conf g)"
    and "pair_conf_ok (g_shm_conf g) (g_data_path g) c" and "distinct (map sc_name (g_shm_conf g))" and "p = pair_start env (g_shm_conf g) c"
  shows "\<exists>m files. init_pair env c g = Some (Inr (g\<lparr>g_pairs := put_pair_map (pc_name c) p (g_pairs g), g_mgr := m, g_files := files\<rparr>)) \<and>
    mgr_ok (g_shm_conf g) m \<and> pair_ready (g_shm_conf g) p"
proof -
  define cs k where "cs = g_shm_conf g" and "k = cs ! nat (pc_conf_index c)"
  from assms(4) obtain a b where c: "a < length cs" "b < length cs" "a \<noteq> b" "pc_shm_name1 c = sc_name (cs ! a)" "pc_shm_name2 c = sc_name (cs ! b)"
    "0 \<le> pc_conf_index c" "nat (pc_conf_index c) < length cs" "conf_geom (cs ! a) = conf_geom k" "conf_geom (cs ! b) = conf_geom k"
    "sc_size (cs ! a) = sc_size k" "sc_size (cs ! b) = sc_size k"
    "meta_need (sc_name (cs ! a)) (g_data_path g) \<le> 4096" "meta_need (sc_name (cs ! b)) (g_data_path g) \<le> 4096"
    unfolding pair_conf_ok_def cs_def [symmetric] k_def [symmetric] by blast
  have "map_of (zip (map sc_name cs) [0..<length cs]) (sc_name (cs ! j)) = Some j" if "j < length cs" for j
    using map_of_zip_nth [of "map sc_name cs" "[0..<length cs]" j] assms(5) that by (simp add: cs_def)
  then have p_def: "p = \<lparr>sp_last_switch_time = env_timeofday env, sp_current = Some a, sp_standby = Some b, sp_shm_conf = k, sp_pair_conf = c\<rparr>"
    using c by (simp add: assms(6) pair_start_def k_def Let_def flip: cs_def)
  have "mgr_get (g_mgr g) (sc_name (cs ! j)) = Some j" if "j < length cs" for j
    using assms(2,3) that c_str_id by (auto simp: mgr_get_def mgr_holds_def list_all_length conf_ok_def simp flip: cs_def)
  then have get: "mgr_get (g_mgr g) (pc_shm_name1 c) = Some a" "mgr_get (g_mgr g) (pc_shm_name2 c) = Some b" using c by simp_all
  have "pair_ready cs p" using c unfolding pair_ready_def p_def k_def by (auto intro!: exI [of _ a] exI [of _ b])
  moreover obtain m' where m': "flush_pair_meta_data (g_data_path g) p (g_mgr g) = Some (CDB_FINE, m')" "mgr_ok cs m'"
    using flush_meta_ok [OF assms(2) _ _ c(3), of p] c unfolding cs_def by (auto simp: p_def)
  moreover have "\<exists>files. init_pair env c g = Some (Inr (g\<lparr>g_pairs := put_pair_map (pc_name c) p (g_pairs g), g_mgr := m', g_files := files\<rparr>))"
    using c(6,7) get m'(1) assms(1)
    by (simp add: init_pair_def flush_pair_info_def flush_pair_map_file_def fresh_env_def CDB_FINE_def Let_def flip: cs_def k_def p_def)
      (rule exI, rule refl)
  ultimately show ?thesis unfolding cs_def by blast
qed

lemma put_pair_map_set: "set (put_pair_map k p ps) \<subseteq> insert (k, p) (set ps)"
  by (induction k p ps rule: put_pair_map.induct) auto

lemma init_pairs_fresh:
  assumes "fresh_env env" and "list_all conf_ok (g_shm_conf g)" and "distinct (map sc_name (g_shm_conf g))" and "mgr_ok (g_shm_conf g) (g_mgr g)"
    and "list_all (pair_conf_ok (g_shm_conf g) (g_data_path g)) pcs" and "\<forall>kp \<in> set (g_pairs g). pair_ready (g_shm_conf g) (snd kp)"
    and "ps = fold (\<lambda>c. put_pair_map (pc_name c) (pair_start env (g_shm_conf g) c)) pcs (g_pairs g)"
  shows "\<exists>m files. init_pairs env pcs g = Some (Inr (g\<lparr>g_pairs := ps, g_mgr := m, g_files := files\<rparr>)) \<and>
    mgr_ok (g_shm_conf g) m \<and> (\<forall>kp \<in> set ps. pair_ready (g_shm_conf g) (snd kp))"
  using assms(2-)
proof (induction pcs arbitrary: g)
  case Nil
  then show ?case by (intro exI [of _ "g_mgr g"] exI [of _ "g_files g"]) simp
next
  case (Cons c pcs)
  define p where "p = pair_start env (g_shm_conf g) c"
  obtain m files where 1: "init_pair env c g = Some (Inr (g\<lparr>g_pairs := put_pair_map (pc_name c) p (g_pairs g), g_mgr := m, g_files := files\<rparr>))"
    "mgr_ok (g_shm_conf g) m" "pair_ready (g_shm_conf g) p" using init_pair_fresh [OF assms(1), of g c p] Cons.prems p_def by auto
  define g' where "g' = g\<lparr>g_pairs := put_pair_map (pc_name c) p (g_pairs g), g_mgr := m, g_files := files\<rparr>"
  have "\<forall>kp \<in> set (g_pairs g'). pair_ready (g_shm_conf g') (snd kp)"
    using put_pair_map_set [of "pc_name c" p "g_pairs g"] 1(3) Cons.prems(5) by (auto simp: g'_def)
  then obtain m' files' where 2: "init_pairs env pcs g' = Some (Inr (g'\<lparr>g_pairs := ps, g_mgr := m', g_files := files'\<rparr>))"
    "mgr_ok (g_shm_conf g') m'" "\<forall>kp \<in> set ps. pair_ready (g_shm_conf g') (snd kp)"
    using Cons.IH [of g'] Cons.prems 1(2) by (auto simp: g'_def p_def)
  have "init_pairs env (c # pcs) g = Some (Inr (g\<lparr>g_pairs := ps, g_mgr := m', g_files := files'\<rparr>))"
    using 1(1) 2(1) by (simp add: g'_def)
  then show ?case using 2(2,3) by (auto simp: g'_def)
qed

lemma default_confs_ok: "list_all conf_ok cdb_shm_conf_array" "distinct (map sc_name cdb_shm_conf_array)"
  by (simp_all add: cdb_shm_conf_array_def conf_ok_def shm_geometry)

lemma pair_conf_okI:
  assumes "a < length cs" and "b < length cs" and "a \<noteq> b" and "cs ! a = shm_conf n1 i1 sz nt bs nc ck"
    and "cs ! b = shm_conf n2 i2 sz nt bs nc ck" and "meta_need n1 dp \<le> 4096" and "meta_need n2 dp \<le> 4096"
  shows "pair_conf_ok cs dp (pair_conf name n1 n2 (int a) f)"
  unfolding pair_conf_ok_def
  by (rule exI [of _ a], rule conjI [OF assms(1)], rule exI [of _ b])
    (use assms in \<open>simp add: pair_conf_def shm_conf_def conf_geom_def\<close>)

lemma default_pairs_ok:
  assumes "length path \<le> 4043"
  shows "list_all (pair_conf_ok cdb_shm_conf_array path) cdb_shm_pair_conf_array"
proof -
  note d = cdb_shm_conf_array_def meta_need_def
  have "pair_conf_ok cdb_shm_conf_array path (pair_conf ''cdb_ins_dml'' ''cdb_ins_dml_1'' ''cdb_ins_dml_2'' (int 0) ''cdb_ins_dml_map.txt'')"
    by (rule pair_conf_okI [where b = 1]) (use assms in \<open>simp_all add: d\<close>)
  moreover have "pair_conf_ok cdb_shm_conf_array path (pair_conf ''cdb_ins_conn'' ''cdb_ins_conn_1'' ''cdb_ins_conn_2'' (int 2) ''cdb_ins_conn_map.txt'')"
    by (rule pair_conf_okI [where b = 3]) (use assms in \<open>simp_all add: d\<close>)
  moreover have "pair_conf_ok cdb_shm_conf_array path
      (pair_conf ''cdb_ins_client_dml'' ''cdb_ins_client_dml_1'' ''cdb_ins_client_dml_2'' (int 4) ''cdb_ins_client_dml_map.txt'')"
    by (rule pair_conf_okI [where b = 5]) (use assms in \<open>simp_all add: d\<close>)
  moreover have "pair_conf_ok cdb_shm_conf_array path (pair_conf ''cdb_tab_dml'' ''cdb_tab_dml_1'' ''cdb_tab_dml_2'' (int 6) ''cdb_tab_dml_map.txt'')"
    by (rule pair_conf_okI [where b = 7]) (use assms in \<open>simp_all add: d\<close>)
  ultimately show ?thesis by (simp add: cdb_shm_pair_conf_array_def)
qed

text \<open>The four pairs of the built-in configuration, in the order of their names.\<close>

definition default_pairs :: "shm_env \<Rightarrow> (string \<times> CDBShmPair) list" where
  "default_pairs env = map (\<lambda>i. (pc_name (cdb_shm_pair_conf_array ! i), pair_start env cdb_shm_conf_array (cdb_shm_pair_conf_array ! i))) [2, 1, 0, 3]"

lemma default_pairs_order:
  "fold (\<lambda>c. put_pair_map (pc_name c) (pair_start env cdb_shm_conf_array c)) cdb_shm_pair_conf_array [] = default_pairs env"
  by (simp add: default_pairs_def cdb_shm_pair_conf_array_def pair_conf_def char_code_def)

lemma start_full:
  assumes "fresh_env env" and "files (path @ ''/cdb.conf'') = None" and "length path \<le> 4043"
  shows "\<exists>g. cdb_init_shm_mgr env path (cdb_start files) = Some (True, g) \<and> g_errno g = CDB_FINE \<and> g_shm_conf g = cdb_shm_conf_array \<and>
    g_data_path g = path \<and> g_pairs g = default_pairs env \<and> mgr_ok cdb_shm_conf_array (g_mgr g) \<and>
    (\<forall>kp \<in> set (default_pairs env). pair_ready cdb_shm_conf_array (snd kp))"
proof -
  define f where "f = path @ ''/cdb_shm_id.txt''"
  define m0 where "m0 = CDBShmMgr_new\<lparr>sm_locks := replicate (length cdb_shm_conf_array) True\<rparr>"
  define g0 where "g0 = (cdb_start files)\<lparr>g_data_path := path, g_files := files(f \<mapsto> []), g_mgr := m0\<rparr>"
  have e: "fresh_env env" "env_can_write env f" "env_thread env = 0" using assms(1) by (simp_all add: fresh_env_def)
  have g0: "g_shm_conf g0 = cdb_shm_conf_array" "g_pair_conf g0 = cdb_shm_pair_conf_array" "g_pairs g0 = []" "g_data_path g0 = path"
    "g_errno g0 = CDB_FINE" "g_mgr g0 = m0"
    by (simp_all add: g0_def cdb_start_def)
  have "mgr_ok [] (g_mgr g0)" by (simp add: g0 m0_def CDBShmMgr_new_def mgr_holds_def)
  from init_shms_fresh [OF e(1) default_confs_ok(1), of "[]" g0 path f] this default_confs_ok(2) obtain m1 files1 where
    1: "init_shms env path f 0 cdb_shm_conf_array g0 = Some (Inr (g0\<lparr>g_mgr := m1, g_files := files1\<rparr>))" "mgr_ok cdb_shm_conf_array m1" by auto
  define g1 where "g1 = g0\<lparr>g_mgr := m1, g_files := files1\<rparr>"
  have g1: "g_pairs g1 = []" "g_pair_conf g1 = cdb_shm_pair_conf_array" "g_shm_conf g1 = cdb_shm_conf_array" "g_errno g1 = CDB_FINE"
    "g_data_path g1 = path" "g_mgr g1 = m1" by (simp_all add: g1_def g0)
  obtain m2 files2 where
    2: "init_pairs env cdb_shm_pair_conf_array g1 = Some (Inr (g1\<lparr>g_pairs := default_pairs env, g_mgr := m2, g_files := files2\<rparr>))"
    "mgr_ok cdb_shm_conf_array m2" "\<forall>kp \<in> set (default_pairs env). pair_ready cdb_shm_conf_array (snd kp)"
    using init_pairs_fresh [OF e(1), of g1 cdb_shm_pair_conf_array "default_pairs env"] default_confs_ok default_pairs_ok [OF assms(3)] 1(2)
    by (auto simp: g1 default_pairs_order)
  have "list_all cdb_check_shm_conf cdb_shm_conf_array" using default_confs_ok(1) by (simp add: list_all_iff conf_ok_def)
  then have "cdb_init_shm_mgr env path (cdb_start files) = Some (True, g1\<lparr>g_pairs := default_pairs env, g_mgr := m2, g_files := files2\<rparr>)"
    using assms(2) e 1(1) 2(1) unfolding g1_def
    by (simp add: cdb_init_shm_mgr_def cdb_init_config_file_def conf_Init_def Load_def cdb_start_def mgr_init_def Let_def
        g0_def m0_def CDB_FINE_def flip: f_def)
  then show ?thesis using 2(2,3) g1 by auto
qed

text \<open>
  C7. Starting without a configuration file, on a system where no memory exists yet and nothing fails, returns
  \<open>true\<close> without an error number. The four pairs of the built-in configuration exist, each can be switched, and
  both memories of each pair have an open, empty cache of the configured capacity.
\<close>

theorem start_default:
  assumes "fresh_env env" and "files (path @ ''/cdb.conf'') = None" and "length path \<le> 4043"
  shows "\<exists>g. cdb_init_shm_mgr env path (cdb_start files) = Some (True, g) \<and> g_errno g = CDB_FINE \<and>
    fst ` set (g_pairs g) = {''cdb_ins_dml'', ''cdb_ins_conn'', ''cdb_ins_client_dml'', ''cdb_tab_dml''} \<and>
    (\<forall>kp \<in> set (g_pairs g). pair_ok (g_mgr g) (snd kp) \<and> opened (sp_shm_conf (snd kp)) (deref (g_mgr g) (sp_current (snd kp))) \<and>
       opened (sp_shm_conf (snd kp)) (deref (g_mgr g) (sp_standby (snd kp))))"
proof -
  obtain g where g: "cdb_init_shm_mgr env path (cdb_start files) = Some (True, g)" "g_errno g = CDB_FINE" "g_pairs g = default_pairs env"
    "mgr_ok cdb_shm_conf_array (g_mgr g)" "\<forall>kp \<in> set (default_pairs env). pair_ready cdb_shm_conf_array (snd kp)"
    using start_full [of env files path] assms by blast
  have "fst ` set (default_pairs env) = {''cdb_ins_dml'', ''cdb_ins_conn'', ''cdb_ins_client_dml'', ''cdb_tab_dml''}"
    by (auto simp: default_pairs_def cdb_shm_pair_conf_array_def pair_conf_def)
  then show ?thesis using g pair_ready_ok [OF g(4) default_confs_ok(1)] by auto
qed

definition demo_env :: shm_env where
  "demo_env = \<lparr>env_shmget = (\<lambda>k n create. if create then \<bar>k\<bar> else -1), env_shmat = (\<lambda>_. 4096), env_ftok = (\<lambda>_ i. i),
     env_mem = (\<lambda>_. zero_hm), env_meta = (\<lambda>_. []), env_raw = (\<lambda>_. 0), env_files = Map.empty, env_can_write = (\<lambda>_. True),
     env_timeofday = (100, 0), env_now = 100, env_buff = [], env_fs = demo_fs, env_thread = 0, env_junk = 0\<rparr>"

theorem start_default_witness:
  "\<exists>g. cdb_init_shm_mgr demo_env ''/data'' (cdb_start Map.empty) = Some (True, g) \<and> g_errno g = CDB_FINE \<and>
    fst ` set (g_pairs g) = {''cdb_ins_dml'', ''cdb_ins_conn'', ''cdb_ins_client_dml'', ''cdb_tab_dml''} \<and>
    (\<forall>kp \<in> set (g_pairs g). pair_ok (g_mgr g) (snd kp) \<and> opened (sp_shm_conf (snd kp)) (deref (g_mgr g) (sp_current (snd kp))) \<and>
       opened (sp_shm_conf (snd kp)) (deref (g_mgr g) (sp_standby (snd kp))))"
  by (rule start_default) (simp_all add: fresh_env_def demo_env_def)

section \<open>Rounds\<close>

text \<open>The text of the map file and its path.\<close>

definition map_text :: "int \<times> int \<Rightarrow> string \<times> int \<Rightarrow> string \<times> int \<Rightarrow> string" where
  "map_text t cu sb = ''last_switch_time: '' @ print_int (fst t) @ '' '' @ print_int (snd t) @ '' '' @
     ''current: '' @ fst cu @ '' '' @ print_int (snd cu) @ '' '' @
     ''standby: '' @ fst sb @ '' '' @ print_int (snd sb) @ '' '' @ [NL]"

definition swapped_text :: "CDBShmMgr \<Rightarrow> CDBShmPair \<Rightarrow> string" where
  "swapped_text m p = map_text (sp_last_switch_time p) (shm_ident (deref m (sp_standby p))) (shm_ident (deref m (sp_current p)))"

definition map_path :: "string \<Rightarrow> CDBShmPair \<Rightarrow> string" where
  "map_path dp p = dp @ ''/'' @ pc_map_file (sp_pair_conf p)"

definition pair_swap :: "CDBShmPair \<Rightarrow> CDBShmPair" where
  "pair_swap p = p\<lparr>sp_current := sp_standby p, sp_standby := sp_current p\<rparr>"

definition pair_objs :: "CDBShmPair \<Rightarrow> nat list" where
  "pair_objs p = [the (sp_current p), the (sp_standby p)]"

text \<open>The state between rounds: memories live, pairs ordered by name and without a common memory, room for the meta data.\<close>

definition round_ok :: "cdb_state \<Rightarrow> bool" where
  "round_ok g \<longleftrightarrow> mgr_live (g_shm_conf g) (g_mgr g) \<and> list_all conf_ok (g_shm_conf g) \<and>
     (\<forall>c \<in> set (g_shm_conf g). meta_need (sc_name c) (g_data_path g) \<le> 4096) \<and>
     (\<forall>kp \<in> set (g_pairs g). pair_ready (g_shm_conf g) (snd kp)) \<and>
     sorted_wrt str_less (map fst (g_pairs g)) \<and> distinct (concat (map (pair_objs \<circ> snd) (g_pairs g)))"

lemma str_less_irrefl [simp]: "\<not> str_less s s"
  by (induction s) auto

lemma str_less_asym: "str_less s t \<Longrightarrow> \<not> str_less t s"
  by (induction s t rule: str_less.induct) auto

lemma put_pair_map_replace:
  assumes "sorted_wrt str_less (map fst (xs @ (k, p) # ys))"
  shows "put_pair_map k p' (xs @ (k, p) # ys) = xs @ (k, p') # ys"
  using assms by (induction xs) (auto dest: str_less_asym)

lemma switch_pair_live:
  assumes "mgr_live cs (g_mgr g)" and "list_all conf_ok cs" and "\<forall>c \<in> set cs. meta_need (sc_name c) (g_data_path g) \<le> 4096" and "pair_ready cs p"
  shows "\<exists>m files. switch_pair env (k, p) g =
      Some (g\<lparr>g_pairs := put_pair_map k (pair_swap p) (g_pairs g), g_mgr := m, g_files := files\<rparr>) \<and> mgr_live cs m \<and>
    opened (sp_shm_conf p) (deref m (sp_standby p)) \<and> sh_ca (deref m (sp_current p)) = sh_ca (deref (g_mgr g) (sp_current p)) \<and>
    (\<forall>i. i \<notin> set (pair_objs p) \<longrightarrow> sm_objs m ! i = sm_objs (g_mgr g) ! i) \<and> (\<forall>i. shm_ident (sm_objs m ! i) = shm_ident (sm_objs (g_mgr g) ! i)) \<and>
    (env_can_write env (map_path (g_data_path g) p) \<longrightarrow>
       files = (g_files g)(map_path (g_data_path g) p \<mapsto> swapped_text (g_mgr g) p))"
proof -
  define m where "m = g_mgr g"
  obtain a b where p: "a < length cs" "b < length cs" "a \<noteq> b" "sp_current p = Some a" "sp_standby p = Some b" "sp_shm_conf p \<in> set cs"
    "sc_size (cs ! b) = sc_size (sp_shm_conf p)" using assms(4) by (auto simp: pair_ready_def)
  have c: "conf_geom_ok (sp_shm_conf p)" "cdb_check_shm_conf (sp_shm_conf p)" using assms(2) p(6) by (auto simp: list_all_iff conf_ok_def)
  have l: "length (sm_objs m) = length cs" "sh_lock (sm_objs m ! a) \<noteq> None" "sh_lock (sm_objs m ! b) \<noteq> None"
    "sh_data_size (sm_objs m ! b) = sc_size (sp_shm_conf p)" using assms(1) p by (auto simp: mgr_live_def m_def)
  define s where "s = (sm_objs m ! b)\<lparr>sh_mem := zero_hm\<rparr>"
  from open_cache_new [OF c, of s env] l(4) obtain ca where
    ca: "open_cache env (sp_shm_conf p) True s = Some (0, s\<lparr>sh_ca := Some ca\<rparr>)" "opened (sp_shm_conf p) (s\<lparr>sh_ca := Some ca\<rparr>)" by (auto simp: s_def)
  define m1 where "m1 = set_obj b (s\<lparr>sh_ca := Some ca\<rparr>) m"
  have sw: "switch_shm env p m = Some (pair_swap p, m1)"
    using p l ca(1) by (simp add: switch_shm_def m1_def pair_swap_def flip: s_def) (simp add: s_def)
  have "mgr_live cs m1" using assms(1) p(2) by (auto simp: mgr_live_def m1_def s_def set_obj_def nth_list_update simp flip: m_def)
  then obtain m2 where m2: "flush_pair_meta_data (g_data_path g) (pair_swap p) m1 = Some (CDB_FINE, m2)" "mgr_live cs m2"
    "\<forall>i < length cs. sh_ca (sm_objs m2 ! i) = sh_ca (sm_objs m1 ! i)" "\<forall>i. i \<noteq> b \<and> i \<noteq> a \<longrightarrow> sm_objs m2 ! i = sm_objs m1 ! i"
    "\<forall>i. shm_ident (sm_objs m2 ! i) = shm_ident (sm_objs m1 ! i)"
    using flush_meta_live [of cs m1 "pair_swap p" b a "g_data_path g"] p assms(3) by (auto simp: pair_swap_def)
  have obj: "sm_objs m1 ! i = (if i = b then s\<lparr>sh_ca := Some ca\<rparr> else sm_objs m ! i)" for i
    using p(2) l(1) by (simp add: m1_def set_obj_def)
  then have ident: "shm_ident (sm_objs m2 ! i) = shm_ident (sm_objs m ! i)" for i using m2(5) by (simp add: shm_ident_def s_def)
  define files where "files = snd (flush_pair_map_file env (g_data_path g) (pair_swap p) m2 (g_files g))"
  have "switch_pair env (k, p) g = Some (g\<lparr>g_pairs := put_pair_map k (pair_swap p) (g_pairs g), g_mgr := m2, g_files := files\<rparr>)"
    using sw m2(1) by (simp add: switch_pair_def flush_pair_info_def CDB_FINE_def m_def files_def split: prod.split)
  moreover have "files = (g_files g)(map_path (g_data_path g) p \<mapsto> swapped_text m p)" if "env_can_write env (map_path (g_data_path g) p)"
    using that ident [of a] ident [of b] p(4,5)
    by (simp add: files_def flush_pair_map_file_def map_path_def pair_swap_def swapped_text_def map_text_def deref_def shm_ident_def Let_def)
  ultimately show ?thesis using m2(2-4) p(1-5) ca(2) ident obj
    by (intro exI [of _ m2] exI [of _ files]) (auto simp: deref_def pair_objs_def opened_def simp flip: m_def)
qed

definition swapped :: "CDBShmMgr \<Rightarrow> CDBShmMgr \<Rightarrow> CDBShmPair \<Rightarrow> bool" where
  "swapped m m' p \<longleftrightarrow> opened (sp_shm_conf p) (deref m' (sp_standby p)) \<and> sh_ca (deref m' (sp_current p)) = sh_ca (deref m (sp_current p))"

lemma swapped_cong:
  assumes "pair_ready cs p" and "\<forall>i \<in> set (pair_objs p). sm_objs m1 ! i = sm_objs m2 ! i"
  shows "swapped m m1 p = swapped m m2 p" and "swapped m1 m p = swapped m2 m p"
  using assms by (auto simp: swapped_def pair_ready_def pair_objs_def deref_def)

text \<open>The map files of the pairs have been written, and no other file.\<close>

definition files_swapped :: "shm_env \<Rightarrow> string \<Rightarrow> CDBShmMgr \<Rightarrow> CDBShmPair list \<Rightarrow> (string \<rightharpoonup> string) \<Rightarrow> (string \<rightharpoonup> string) \<Rightarrow> bool" where
  "files_swapped env dp m ps files files' \<longleftrightarrow> ((\<forall>f. env_can_write env f) \<and> distinct (map (map_path dp) ps) \<longrightarrow>
     (\<forall>p \<in> set ps. files' (map_path dp p) = Some (swapped_text m p)) \<and> (\<forall>f. f \<notin> map_path dp ` set ps \<longrightarrow> files' f = files f))"

lemma swapped_text_cong: "(\<And>i. shm_ident (sm_objs m ! i) = shm_ident (sm_objs m' ! i)) \<Longrightarrow> swapped_text m p = swapped_text m' p"
  by (auto simp: swapped_text_def deref_def split: option.split)

lemma files_swapped_Cons:
  assumes "env_can_write env (map_path dp p) \<longrightarrow> files1 = files(map_path dp p \<mapsto> swapped_text m p)" and "files_swapped env dp m' ps files1 files'"
    and "\<And>i. shm_ident (sm_objs m' ! i) = shm_ident (sm_objs m ! i)"
  shows "files_swapped env dp m (p # ps) files files'"
  using assms(1,2) swapped_text_cong [of m' m, OF assms(3)] by (auto simp: files_swapped_def)

lemma switch_pairs_live:
  assumes "list_all conf_ok cs" and "mgr_live cs (g_mgr g)" and "\<forall>c \<in> set cs. meta_need (sc_name c) (g_data_path g) \<le> 4096"
    and "\<forall>kp \<in> set ys. pair_ready cs (snd kp)" and "g_pairs g = xs @ ys" and "sorted_wrt str_less (map fst (xs @ ys))"
    and "distinct (concat (map (pair_objs \<circ> snd) ys))"
  shows "\<exists>m files. switch_pairs env ys g = Some (g\<lparr>g_pairs := xs @ map (apsnd pair_swap) ys, g_mgr := m, g_files := files\<rparr>) \<and> mgr_live cs m \<and>
    (\<forall>kp \<in> set ys. swapped (g_mgr g) m (snd kp)) \<and>
    (\<forall>i. i \<notin> set (concat (map (pair_objs \<circ> snd) ys)) \<longrightarrow> sm_objs m ! i = sm_objs (g_mgr g) ! i) \<and>
    (\<forall>i. shm_ident (sm_objs m ! i) = shm_ident (sm_objs (g_mgr g) ! i)) \<and>
    files_swapped env (g_data_path g) (g_mgr g) (map snd ys) (g_files g) files"
  using assms(2-)
proof (induction ys arbitrary: g xs)
  case Nil
  then show ?case by (intro exI [of _ "g_mgr g"] exI [of _ "g_files g"]) (simp add: files_swapped_def)
next
  case (Cons kp ys)
  obtain k p where kp: "kp = (k, p)" by force
  have ready: "pair_ready cs p" using Cons.prems(3) kp by simp
  from switch_pair_live [OF Cons.prems(1) assms(1) Cons.prems(2) ready, of env k] obtain m files where
    1: "switch_pair env (k, p) g = Some (g\<lparr>g_pairs := put_pair_map k (pair_swap p) (g_pairs g), g_mgr := m, g_files := files\<rparr>)"
    "mgr_live cs m" "swapped (g_mgr g) m p" "\<forall>i. i \<notin> set (pair_objs p) \<longrightarrow> sm_objs m ! i = sm_objs (g_mgr g) ! i"
    "\<forall>i. shm_ident (sm_objs m ! i) = shm_ident (sm_objs (g_mgr g) ! i)"
    "env_can_write env (map_path (g_data_path g) p) \<longrightarrow> files = (g_files g)(map_path (g_data_path g) p \<mapsto> swapped_text (g_mgr g) p)"
    unfolding swapped_def by blast
  define g' where "g' = g\<lparr>g_pairs := (xs @ [(k, pair_swap p)]) @ ys, g_mgr := m, g_files := files\<rparr>"
  have g': "switch_pair env kp g = Some g'"
    using 1(1) put_pair_map_replace [of xs k p ys "pair_swap p"] Cons.prems(4,5) by (simp add: kp g'_def)
  have "\<exists>m' files. switch_pairs env ys g' = Some (g'\<lparr>g_pairs := (xs @ [(k, pair_swap p)]) @ map (apsnd pair_swap) ys, g_mgr := m', g_files := files\<rparr>) \<and>
      mgr_live cs m' \<and> (\<forall>kp \<in> set ys. swapped (g_mgr g') m' (snd kp)) \<and>
      (\<forall>i. i \<notin> set (concat (map (pair_objs \<circ> snd) ys)) \<longrightarrow> sm_objs m' ! i = sm_objs (g_mgr g') ! i) \<and>
      (\<forall>i. shm_ident (sm_objs m' ! i) = shm_ident (sm_objs (g_mgr g') ! i)) \<and>
      files_swapped env (g_data_path g') (g_mgr g') (map snd ys) (g_files g') files"
    by (rule Cons.IH) (use Cons.prems 1(2) kp in \<open>simp_all add: g'_def\<close>)
  then obtain m' files' where 2: "switch_pairs env ys g' = Some (g\<lparr>g_pairs := xs @ map (apsnd pair_swap) (kp # ys), g_mgr := m', g_files := files'\<rparr>)"
    "mgr_live cs m'" "\<forall>kp \<in> set ys. swapped m m' (snd kp)"
    "\<forall>i. i \<notin> set (concat (map (pair_objs \<circ> snd) ys)) \<longrightarrow> sm_objs m' ! i = sm_objs m ! i"
    "\<forall>i. shm_ident (sm_objs m' ! i) = shm_ident (sm_objs m ! i)" "files_swapped env (g_data_path g) m (map snd ys) files files'"
    by (auto simp: g'_def kp)
  have dj: "set (pair_objs p) \<inter> set (concat (map (pair_objs \<circ> snd) ys)) = {}" using Cons.prems(6) by (simp add: kp)
  have "files_swapped env (g_data_path g) (g_mgr g) (map snd (kp # ys)) (g_files g) files'"
    using files_swapped_Cons [OF 1(6) 2(6)] 1(5) by (simp add: kp)
  moreover have "swapped (g_mgr g) m' p" using 1(3) 2(4) dj swapped_cong(1) [OF ready, of m' m] by blast
  moreover have "swapped (g_mgr g) m' (snd q)" if "q \<in> set ys" for q
  proof -
    have "pair_ready cs (snd q)" "swapped m m' (snd q)" using Cons.prems(3) 2(3) that by auto
    moreover have "\<forall>i \<in> set (pair_objs (snd q)). sm_objs m ! i = sm_objs (g_mgr g) ! i" using 1(4) dj that by auto
    ultimately show ?thesis using swapped_cong(2) by blast
  qed
  moreover have "\<forall>i. i \<notin> set (concat (map (pair_objs \<circ> snd) (kp # ys))) \<longrightarrow> sm_objs m' ! i = sm_objs (g_mgr g) ! i"
    using 1(4) 2(4) by (auto simp: kp)
  ultimately show ?case using g' 2(1,2,5) 1(5) by (intro exI [of _ m'] exI [of _ files']) (auto simp: kp)
qed

lemma switch_round_full:
  assumes "round_ok g"
  shows "\<exists>g'. switch_round env g = Some g' \<and> round_ok g' \<and> g_pairs g' = map (apsnd pair_swap) (g_pairs g) \<and>
    g_shm_conf g' = g_shm_conf g \<and> g_data_path g' = g_data_path g \<and> (\<forall>kp \<in> set (g_pairs g). swapped (g_mgr g) (g_mgr g') (snd kp)) \<and>
    (\<forall>i. i \<notin> set (concat (map (pair_objs \<circ> snd) (g_pairs g))) \<longrightarrow> sm_objs (g_mgr g') ! i = sm_objs (g_mgr g) ! i) \<and>
    files_swapped env (g_data_path g) (g_mgr g) (map snd (g_pairs g)) (g_files g) (g_files g')"
proof -
  have g: "mgr_live (g_shm_conf g) (g_mgr g)" "list_all conf_ok (g_shm_conf g)" "\<forall>c \<in> set (g_shm_conf g). meta_need (sc_name c) (g_data_path g) \<le> 4096"
    "\<forall>kp \<in> set (g_pairs g). pair_ready (g_shm_conf g) (snd kp)" "sorted_wrt str_less (map fst (g_pairs g))"
    "distinct (concat (map (pair_objs \<circ> snd) (g_pairs g)))" using assms by (auto simp: round_ok_def)
  from switch_pairs_live [OF g(2,1,3,4), of "[]" env] g(5,6) obtain m files where
    1: "switch_round env g = Some (g\<lparr>g_pairs := map (apsnd pair_swap) (g_pairs g), g_mgr := m, g_files := files\<rparr>)"
    "mgr_live (g_shm_conf g) m" "\<forall>kp \<in> set (g_pairs g). swapped (g_mgr g) m (snd kp)"
    "\<forall>i. i \<notin> set (concat (map (pair_objs \<circ> snd) (g_pairs g))) \<longrightarrow> sm_objs m ! i = sm_objs (g_mgr g) ! i"
    "files_swapped env (g_data_path g) (g_mgr g) (map snd (g_pairs g)) (g_files g) files" by (auto simp: switch_round_def)
  have r: "\<forall>kp \<in> set (g_pairs g). pair_ready (g_shm_conf g) (pair_swap (snd kp))"
    using g(4) by (fastforce simp: pair_ready_def pair_swap_def)
  have d: "distinct (concat (map (pair_objs \<circ> pair_swap \<circ> snd) ps)) = distinct (concat (map (pair_objs \<circ> snd) ps))"
    "set (concat (map (pair_objs \<circ> pair_swap \<circ> snd) ps)) = set (concat (map (pair_objs \<circ> snd) ps))" for ps :: "(string \<times> CDBShmPair) list"
    by (induction ps) (auto simp: pair_objs_def pair_swap_def)
  have "round_ok (g\<lparr>g_pairs := map (apsnd pair_swap) (g_pairs g), g_mgr := m, g_files := files\<rparr>)"
    using g 1(2) r d(1) [of "g_pairs g"] by (auto simp: round_ok_def comp_def)
  then show ?thesis using 1 by (intro exI [of _ "g\<lparr>g_pairs := map (apsnd pair_swap) (g_pairs g), g_mgr := m, g_files := files\<rparr>"]) simp
qed

text \<open>
  C5. A round of the switch thread ends, exchanges current and standby of every pair and keeps the state in
  order for the next round; every new current memory has an empty cache of full capacity and every new standby
  memory keeps the cache it had as current memory.
\<close>

theorem switch_round_spec:
  assumes "round_ok g"
  shows "\<exists>g'. switch_round env g = Some g' \<and> round_ok g' \<and> g_pairs g' = map (apsnd pair_swap) (g_pairs g) \<and>
    (\<forall>kp \<in> set (g_pairs g). opened (sp_shm_conf (snd kp)) (deref (g_mgr g') (sp_standby (snd kp))) \<and>
       sh_ca (deref (g_mgr g') (sp_current (snd kp))) = sh_ca (deref (g_mgr g) (sp_current (snd kp))))"
  using switch_round_full [OF assms, of env] unfolding swapped_def by blast

definition demo_state :: cdb_state where
  "demo_state = (cdb_start Map.empty)\<lparr>g_data_path := ''/data'', g_mgr := demo_mgr, g_pairs := [(''p'', demo_pair)],
     g_shm_conf := [shm_conf ''a'' 1 MB 1024 1024 1024 512, shm_conf ''b'' 2 MB 1024 1024 1024 512]\<rparr>"

theorem switch_round_spec_witness:
  "\<exists>g'. switch_round demo_env demo_state = Some g' \<and> round_ok g' \<and> g_pairs g' = [(''p'', pair_swap demo_pair)] \<and>
    opened (sp_shm_conf demo_pair) (deref (g_mgr g') (Some 1)) \<and> sh_ca (deref (g_mgr g') (Some 0)) = None"
proof -
  have "round_ok demo_state"
    by (auto simp: round_ok_def mgr_live_def demo_state_def demo_mgr_def demo_shm_def demo_pair_def pair_objs_def pair_ready_def conf_ok_def
        meta_need_def wrong_shm_def conf_geom_def less_Suc_eq shm_geometry intro!: exI [of _ 0] exI [of _ 1])
  from switch_round_spec [OF this, of demo_env] show ?thesis
    by (auto simp: demo_state_def demo_pair_def deref_def demo_mgr_def demo_shm_def wrong_shm_def)
qed

end
