(* ===== verification/Server.thy ===== *)
theory Server
  imports TabDml ShmMgr
begin

unbundle bit_operations_syntax

text \<open>
  The running server: the state that the start of the module makes, the rounds of the switch thread, and the
  functions of the server that count statements and connections.
\<close>

section \<open>Counting in the server\<close>

text \<open>
  What the counting functions need from outside: the arithmetic of \<open>double\<close>, the contents of uninitialised
  variables and of fresh memory, and the time.
\<close>

record stat_par =
  par_fadd :: "double \<Rightarrow> double \<Rightarrow> double"
  par_secs :: "64 word \<Rightarrow> double"
  par_garbage :: "byte list"
  par_junk :: "nat \<Rightarrow> byte"
  par_stat :: CDBCommStat
  par_now :: int
  par_ip :: "32 word"

record cdb_opts =
  opt_cdb_stat_ins_dml :: int
  opt_cdb_stat_ins_conn :: int
  opt_cdb_stat_client_dml :: int
  opt_cdb_stat_table_dml :: int

text \<open>
  A counting function works on the cache of the current memory of a pair. A name that is not in the map of pairs
  gives a null pointer, and so does the memory \<open>wrong_shm\<close> when its lock is taken.
\<close>

definition with_current :: "string \<Rightarrow> (CacheAccess \<Rightarrow> ('a \<times> CacheAccess) option) \<Rightarrow> cdb_state \<Rightarrow> cdb_state option" where
  "with_current name f g =
     (case map_of (g_pairs g) name of
        None \<Rightarrow> None
      | Some p \<Rightarrow>
          (case get_current p of
             None \<Rightarrow> None
           | Some i \<Rightarrow>
               (case (sh_ca (sm_objs (g_mgr g) ! i), sh_lock (sm_objs (g_mgr g) ! i)) of
                  (Some ca, Some _) \<Rightarrow> do {
                    (_, ca') \<leftarrow> f ca;
                    Some (g\<lparr>g_mgr := set_obj i ((sm_objs (g_mgr g) ! i)\<lparr>sh_ca := Some ca'\<rparr>) (g_mgr g)\<rparr>)
                  }
                | _ \<Rightarrow> None)))"

definition count_dml :: "stat_par \<Rightarrow> cdb_opts \<Rightarrow> CDBInsDml \<Rightarrow> 64 word \<Rightarrow> 64 word \<Rightarrow> cdb_state \<Rightarrow> cdb_state option" where
  "count_dml par opts op b e g =
     (if opt_cdb_stat_ins_dml opts = 0 then Some g
      else with_current ''cdb_ins_dml''
        (cdb_ins_dml_add (par_fadd par) (par_secs par) (opt_cdb_stat_ins_dml opts) (par_garbage par) op b e (par_now par)) g)"

definition count_conn :: "stat_par \<Rightarrow> cdb_opts \<Rightarrow> CDBInsConn \<Rightarrow> 64 word \<Rightarrow> 64 word \<Rightarrow> cdb_state \<Rightarrow> cdb_state option" where
  "count_conn par opts conn b e g =
     (if opt_cdb_stat_ins_conn opts = 0 then Some g
      else with_current ''cdb_ins_conn''
        (cdb_ins_conn_add (par_fadd par) (par_secs par) (opt_cdb_stat_ins_conn opts) (par_garbage par) conn b e (par_now par)) g)"

definition count_client :: "stat_par \<Rightarrow> cdb_opts \<Rightarrow> CDBInsClientDml \<Rightarrow> 64 word \<Rightarrow> 64 word \<Rightarrow> cdb_state \<Rightarrow> cdb_state option" where
  "count_client par opts op b e g =
     (if opt_cdb_stat_client_dml opts = 0 then Some g
      else with_current ''cdb_ins_client_dml''
        (cdb_ins_client_dml_add (par_fadd par) (par_secs par) (opt_cdb_stat_client_dml opts) (par_garbage par) op b e (par_now par)) g)"

definition count_tab :: "stat_par \<Rightarrow> cdb_opts \<Rightarrow> CDBTabDml \<Rightarrow> int \<Rightarrow> 64 word \<Rightarrow> 64 word \<Rightarrow> cdb_state \<Rightarrow> cdb_state option" where
  "count_tab par opts op type b e g =
     (if opt_cdb_stat_table_dml opts = 0 then Some g
      else if type < 0 \<or> type \<ge> 6 then Some g
      else with_current ''cdb_tab_dml''
        (cdb_tab_dml_add (par_fadd par) (par_secs par) (opt_cdb_stat_table_dml opts) (par_junk par) op type b e (par_now par)) g)"

text \<open>The fields of \<open>THD\<close> that the server reads for the statistics; \<open>thd_vio\<close> says whether the connection is local.\<close>

datatype sql_command = SQLCOM_SELECT | SQLCOM_INSERT | SQLCOM_UPDATE | SQLCOM_REPLACE | SQLCOM_DELETE | SQLCOM_other

record THD =
  thd_sql_command :: sql_command
  thd_error :: "32 word option"
  thd_vio :: "bool option"
  thd_remote :: "32 word"
  thd_open_tables :: "CDBTabName list"
  thd_start_utime :: "64 word"
  thd_current_utime :: "64 word"

definition sql_type :: "sql_command \<Rightarrow> nat" where
  "sql_type c = (case c of SQLCOM_SELECT \<Rightarrow> 1 | SQLCOM_INSERT \<Rightarrow> 2 | SQLCOM_UPDATE \<Rightarrow> 3 | SQLCOM_REPLACE \<Rightarrow> 4 | SQLCOM_DELETE \<Rightarrow> 5 | SQLCOM_other \<Rightarrow> 0)"

definition thd_result :: "THD \<Rightarrow> 32 word" where
  "thd_result thd = (case thd_error thd of None \<Rightarrow> 0 | Some e \<Rightarrow> e)"

definition thd_ip :: "THD \<Rightarrow> 32 word" where
  "thd_ip thd = (case thd_vio thd of None \<Rightarrow> 0 | Some localhost \<Rightarrow> if localhost then 0x0100007F else thd_remote thd)"

definition cdb_stat_instance_dml_func :: "stat_par \<Rightarrow> bool \<Rightarrow> cdb_opts \<Rightarrow> THD \<Rightarrow> cdb_state \<Rightarrow> cdb_state option" where
  "cdb_stat_instance_dml_func par in_bootstrap opts thd g =
     (if in_bootstrap then Some g
      else do {
        let type = sql_type (thd_sql_command thd);
        g \<leftarrow> (if opt_cdb_stat_ins_dml opts \<noteq> 0
             then count_dml par opts \<lparr>id_type = of_nat type, id_result = thd_result thd, id_comm_stat = par_stat par\<rparr>
               (thd_start_utime thd) (thd_current_utime thd) g
             else Some g);
        g \<leftarrow> (if opt_cdb_stat_client_dml opts \<noteq> 0
             then count_client par opts \<lparr>icd_ip = thd_ip thd, icd_type = of_nat type, icd_comm_stat = par_stat par\<rparr>
               (thd_start_utime thd) (thd_current_utime thd) g
             else Some g);
        if opt_cdb_stat_table_dml opts \<noteq> 0 \<and> thd_open_tables thd \<noteq> []
        then count_tab par opts
          \<lparr>td_names = take 10 (thd_open_tables thd), td_result = thd_result thd, td_comm_stats = replicate 6 (par_stat par)\<rparr>
          (int type) (thd_start_utime thd) (thd_current_utime thd) g
        else Some g
      })"

text \<open>
  What can become of a new connection, in the order in which the server finds out: the first four in
  \<open>handle_connections_sockets\<close>, then \<open>create_new_thread\<close> and \<open>handle_one_connection\<close>. \<open>cAddr\<close> is the address
  that \<open>accept\<close> fills in, \<open>par_ip\<close> what the variable \<open>cdb_client_ip\<close> held before. The assignment of 0 for a connection through the unix socket comes before the one of
  \<open>cAddr\<close>, so it has no effect.
\<close>

datatype conn_event =
  AcceptFailed | NewSockFailed | NewThdFailed | NewVioFailed | TooManyConnections | OutOfResources | LoginFailed "32 word" | LoginOk

definition CDB_INS_CONN_ERROR :: "conn_event \<Rightarrow> 32 word" where
  "CDB_INS_CONN_ERROR ev =
     (case ev of
        AcceptFailed \<Rightarrow> 10001 | NewSockFailed \<Rightarrow> 10002 | NewThdFailed \<Rightarrow> 10003 | NewVioFailed \<Rightarrow> 10004
      | TooManyConnections \<Rightarrow> 10005 | OutOfResources \<Rightarrow> 10006 | LoginFailed e \<Rightarrow> e | LoginOk \<Rightarrow> 0)"

definition unix_client_ip :: "bool \<Rightarrow> 32 word \<Rightarrow> 32 word" where
  "unix_client_ip unix_sock ip = (if unix_sock then 0 else ip)"

definition accepted_client_ip :: "32 word \<Rightarrow> 32 word \<Rightarrow> 32 word" where
  "accepted_client_ip cAddr ip = cAddr"

definition thd_remote_ip :: "bool \<Rightarrow> 32 word \<Rightarrow> 32 word" where
  "thd_remote_ip unix_sock cAddr = (if unix_sock then 0x0100007F else cAddr)"

definition conn_event_ip :: "conn_event \<Rightarrow> 32 word \<Rightarrow> bool \<Rightarrow> 32 word \<Rightarrow> 32 word" where
  "conn_event_ip ev cdb_client_ip unix_sock cAddr =
     (if ev \<in> {AcceptFailed, NewSockFailed, NewThdFailed, NewVioFailed}
      then accepted_client_ip cAddr (unix_client_ip unix_sock cdb_client_ip)
      else thd_remote_ip unix_sock cAddr)"

definition count_connection ::
    "stat_par \<Rightarrow> cdb_opts \<Rightarrow> conn_event \<Rightarrow> bool \<Rightarrow> 32 word \<Rightarrow> 64 word \<Rightarrow> 64 word \<Rightarrow> cdb_state \<Rightarrow> cdb_state option" where
  "count_connection par opts ev unix_sock cAddr start_utime now_utime g =
     count_conn par opts
       \<lparr>ic_ip = conn_event_ip ev (par_ip par) unix_sock cAddr, ic_result = CDB_INS_CONN_ERROR ev, ic_comm_stat = par_stat par\<rparr> start_utime now_utime g"

text \<open>What happens in a running server: the end of a statement, the outcome of a connection, a round of the switch thread.\<close>

datatype server_event =
  Statement stat_par bool cdb_opts THD
| Connection stat_par cdb_opts conn_event bool "32 word" "64 word" "64 word"
| Round shm_env

definition server_step :: "server_event \<Rightarrow> cdb_state \<Rightarrow> cdb_state option" where
  "server_step ev g =
     (case ev of
        Statement par in_bootstrap opts thd \<Rightarrow> cdb_stat_instance_dml_func par in_bootstrap opts thd g
      | Connection par opts ev unix_sock cAddr b e \<Rightarrow> count_connection par opts ev unix_sock cAddr b e g
      | Round env \<Rightarrow> switch_round env g)"

primrec server_run :: "server_event list \<Rightarrow> cdb_state \<Rightarrow> cdb_state option" where
  "server_run [] g = Some g"
| "server_run (ev # evs) g = do { g' \<leftarrow> server_step ev g; server_run evs g' }"

section \<open>The invariant\<close>

text \<open>
  The invariant of the running server: it has the built-in configuration, every memory has an open cache that does
  not log, and the entries of the first six memories have the size of the three fixed records.
\<close>

definition mem_serves :: "CDBShmConf \<Rightarrow> nat \<Rightarrow> CDBShm \<Rightarrow> bool" where
  "mem_serves c j s \<longleftrightarrow> (\<exists>ca es. sh_ca s = Some ca \<and> m_cache_dump_min ca < 0 \<and> cache_rep (m_cache ca) es \<and> hm_geom (m_cache ca) = conf_geom c \<and>
     (\<forall>e \<in> set es. length (e_key e) = 16 \<and> (j < 6 \<longrightarrow> length (e_data e) = 72)))"

definition server_ok :: "cdb_state \<Rightarrow> bool" where
  "server_ok g \<longleftrightarrow> round_ok g \<and> g_shm_conf g = cdb_shm_conf_array \<and>
     (\<forall>kp \<in> set (g_pairs g). sp_pair_conf (snd kp) \<in> set cdb_shm_pair_conf_array \<and> pc_name (sp_pair_conf (snd kp)) = fst kp) \<and>
     fst ` set (g_pairs g) = pc_name ` set cdb_shm_pair_conf_array \<and>
     (\<forall>kp \<in> set (g_pairs g). set (pair_objs (snd kp)) \<subseteq> (if fst kp = ''cdb_tab_dml'' then {6, 7} else {..<6})) \<and>
     (\<forall>j < 8. mem_serves (cdb_shm_conf_array ! j) j (sm_objs (g_mgr g) ! j))"

lemma opened_serves:
  assumes "opened c s" and "conf_geom c' = conf_geom c"
  shows "mem_serves c' j s"
proof -
  obtain ca where ca: "sh_ca s = Some ca" "store_rep 72 ca Map.empty" "hm_geom (m_cache ca) = conf_geom c"
    using assms(1) by (auto simp: opened_def)
  then obtain es where es: "cache_rep (m_cache ca) es" "m_cache_dump_min ca < 0" "values_of es = Map.empty" by (auto simp: store_rep_def)
  then have "es = []" using values_of_dom [of es] by simp
  then show ?thesis using ca es assms(2) by (auto simp: mem_serves_def)
qed

lemma mem_serves_cong: "sh_ca s = sh_ca s' \<Longrightarrow> mem_serves c j s = mem_serves c j s'"
  by (simp add: mem_serves_def)

lemma round_serves:
  assumes "server_ok g" and "switch_round env g = Some g'"
  shows "server_ok g'"
proof -
  define cs m m' where "cs = cdb_shm_conf_array" and "m = g_mgr g" and "m' = g_mgr g'"
  have g: "round_ok g" "g_shm_conf g = cs" "\<And>j. j < 8 \<Longrightarrow> mem_serves (cs ! j) j (sm_objs m ! j)"
    "\<forall>kp \<in> set (g_pairs g). sp_pair_conf (snd kp) \<in> set cdb_shm_pair_conf_array \<and> pc_name (sp_pair_conf (snd kp)) = fst kp"
    using assms(1) by (auto simp: server_ok_def cs_def m_def)
  have g': "round_ok g'" "g_pairs g' = map (apsnd pair_swap) (g_pairs g)" "g_shm_conf g' = cs"
    "\<forall>kp \<in> set (g_pairs g). swapped m m' (snd kp)"
    "\<forall>i. i \<notin> set (concat (map (pair_objs \<circ> snd) (g_pairs g))) \<longrightarrow> sm_objs m' ! i = sm_objs m ! i"
    using switch_round_full [OF g(1), of env] assms(2) g(2) by (auto simp: m_def m'_def)
  have "mem_serves (cs ! j) j (sm_objs m' ! j)" if "j < 8" for j
  proof (cases "j \<in> set (concat (map (pair_objs \<circ> snd) (g_pairs g)))")
    case True
    then obtain kp where kp: "kp \<in> set (g_pairs g)" "j \<in> set (pair_objs (snd kp))" by auto
    then have "pair_ready cs (snd kp)" using g(1,2) by (simp add: round_ok_def)
    then obtain a b where p: "sp_current (snd kp) = Some a" "sp_standby (snd kp) = Some b" "conf_geom (cs ! b) = conf_geom (sp_shm_conf (snd kp))"
      unfolding pair_ready_def by blast
    have "opened (sp_shm_conf (snd kp)) (sm_objs m' ! b)" "sh_ca (sm_objs m' ! a) = sh_ca (sm_objs m ! a)"
      using g'(4) kp(1) p(1,2) by (auto simp: swapped_def deref_def)
    then show ?thesis using kp(2) p opened_serves [of "sp_shm_conf (snd kp)" "sm_objs m' ! b" "cs ! b" b] g(3) [OF that]
        mem_serves_cong [of "sm_objs m' ! a" "sm_objs m ! a" "cs ! a" a] by (auto simp: pair_objs_def)
  qed (use g'(5) g(3) that in simp)
  moreover have "set (pair_objs (pair_swap p)) = set (pair_objs p)" for p by (auto simp: pair_objs_def pair_swap_def)
  moreover have "fst ` set (g_pairs g') = fst ` set (g_pairs g)" using g'(2) by (force simp: image_iff)
  ultimately show ?thesis using g'(1-3) g(4) assms(1) by (auto simp: server_ok_def cs_def m'_def) (auto simp: pair_swap_def)
qed

lemma default_map_files:
  "inj_on pc_map_file (set cdb_shm_pair_conf_array)" "inj_on pc_name (set cdb_shm_pair_conf_array)" "length cdb_shm_conf_array = 8"
  by (auto simp: cdb_shm_pair_conf_array_def pair_conf_def cdb_shm_conf_array_def inj_on_def)

lemma sorted_distinct: "sorted_wrt str_less ks \<Longrightarrow> distinct ks"
  by (induction ks) auto

lemma start_server_ok:
  assumes "fresh_env env" and "files (path @ ''/cdb.conf'') = None" and "length path \<le> 4043"
  shows "\<exists>g. cdb_init_shm_mgr env path (cdb_start files) = Some (True, g) \<and> server_ok g \<and> g_data_path g = path \<and>
    g_pairs g = default_pairs env \<and> mgr_ok cdb_shm_conf_array (g_mgr g)"
proof -
  obtain g where g: "cdb_init_shm_mgr env path (cdb_start files) = Some (True, g)" "g_shm_conf g = cdb_shm_conf_array" "g_data_path g = path"
    "g_pairs g = default_pairs env" "mgr_ok cdb_shm_conf_array (g_mgr g)" "\<forall>kp \<in> set (default_pairs env). pair_ready cdb_shm_conf_array (snd kp)"
    using start_full [of env files path] assms by blast
  have "\<forall>c \<in> set cdb_shm_conf_array. meta_need (sc_name c) path \<le> 4096"
    using assms(3) by (auto simp: cdb_shm_conf_array_def shm_conf_def meta_need_def)
  moreover have "sorted_wrt str_less (map fst (default_pairs env))"
    by (simp add: default_pairs_def cdb_shm_pair_conf_array_def pair_conf_def char_code_def)
  moreover have "distinct (concat (map (pair_objs \<circ> snd) (default_pairs env)))"
    by (simp add: default_pairs_def cdb_shm_pair_conf_array_def pair_conf_def pair_start_def pair_objs_def cdb_shm_conf_array_def shm_conf_def
        Let_def upt_conv_Cons)
  moreover have "mgr_live cdb_shm_conf_array (g_mgr g)" using g(5) by (simp add: mgr_ok_iff)
  ultimately have "round_ok g" using g default_confs_ok(1) by (simp add: round_ok_def)
  moreover have "\<forall>kp \<in> set (default_pairs env). sp_pair_conf (snd kp) \<in> set cdb_shm_pair_conf_array \<and> pc_name (sp_pair_conf (snd kp)) = fst kp"
    by (simp add: default_pairs_def pair_start_def Let_def) (simp add: cdb_shm_pair_conf_array_def)
  moreover have "fst ` set (default_pairs env) = pc_name ` set cdb_shm_pair_conf_array"
    by (auto simp: default_pairs_def cdb_shm_pair_conf_array_def)
  moreover have "\<forall>kp \<in> set (default_pairs env). set (pair_objs (snd kp)) \<subseteq> (if fst kp = ''cdb_tab_dml'' then {6, 7} else {..<6})"
    by (simp add: default_pairs_def cdb_shm_pair_conf_array_def pair_conf_def pair_start_def pair_objs_def cdb_shm_conf_array_def shm_conf_def
        Let_def upt_conv_Cons)
  moreover have "\<forall>j < 8. mem_serves (cdb_shm_conf_array ! j) j (sm_objs (g_mgr g) ! j)"
    using g(5) by (auto simp: mgr_ok_iff default_map_files(3) intro: opened_serves [OF _ refl])
  ultimately show ?thesis using g by (auto simp: server_ok_def)
qed

text \<open>A memory represents at most one list of entries.\<close>

lemma entry_at_unique:
  assumes "entry_at s xs n e" and "entry_at s ys n e'"
  shows "e = e'"
proof -
  have "xs = ys" using assms chain_unique by (auto simp: entry_at_def holds_value_def)
  moreover have "length (e_data e) = length (e_data e')" using assms by (simp add: entry_at_def)
  ultimately have "e_data e = e_data e'" using assms unfolding entry_at_def holds_value_def by metis
  then show ?thesis using assms by (simp add: entry_at_def)
qed

lemma cache_rep_unique:
  assumes "cache_rep c es" and "cache_rep c es'"
  shows "es = es'"
proof -
  obtain L V F X C where a: "es = map V L" "hm_values c L X C V" "hm_order c L F" using assms(1) by (auto simp: cache_rep_def hm_ok_def)
  obtain L' V' F' X' C' where b: "es' = map V' L'" "hm_values c L' X' C' V'" "hm_order c L' F'" using assms(2) by (auto simp: cache_rep_def hm_ok_def)
  have "L = L'" using a(3) b(3) chain_unique by (auto simp: hm_order_def order_ok_def dll_def)
  moreover have "V n = V' n" if "n \<in> set L" for n
    using that a(2) b(2) calculation entry_at_unique [of c "X n" n "V n" "X' n" "V' n"] by (simp add: hm_values_def)
  ultimately show ?thesis using a(1) b(1) by simp
qed

section \<open>Counting keeps the invariant\<close>

lemma with_current_serves:
  assumes "server_ok g" and "(name, p) \<in> set (g_pairs g)"
    and "\<And>i ca. sp_current p = Some i \<Longrightarrow> i < 8 \<Longrightarrow> mem_serves (cdb_shm_conf_array ! i) i (sm_objs (g_mgr g) ! i) \<Longrightarrow>
      sh_ca (sm_objs (g_mgr g) ! i) = Some ca \<Longrightarrow>
      \<exists>r ca'. f ca = Some (r, ca') \<and> mem_serves (cdb_shm_conf_array ! i) i ((sm_objs (g_mgr g) ! i)\<lparr>sh_ca := Some ca'\<rparr>)"
  shows "\<exists>g'. with_current name f g = Some g' \<and> server_ok g' \<and> g_pairs g' = g_pairs g \<and> g_data_path g' = g_data_path g"
proof -
  define cs m where "cs = cdb_shm_conf_array" and "m = g_mgr g"
  have g: "round_ok g" "g_shm_conf g = cs" "mgr_live cs m" "pair_ready cs p" "\<forall>j < 8. mem_serves (cs ! j) j (sm_objs m ! j)" "length cs = 8"
    using assms(1,2) default_map_files(3) by (auto simp: server_ok_def round_ok_def cs_def m_def)
  obtain i where i: "sp_current p = Some i" "i < 8" using g(4,6) by (auto simp: pair_ready_def)
  have "distinct (map fst (g_pairs g))" using g(1) sorted_distinct by (auto simp: round_ok_def)
  then have p: "map_of (g_pairs g) name = Some p" using assms(2) by simp
  have s: "mem_serves (cs ! i) i (sm_objs m ! i)" using g(5) i(2) by blast
  then obtain ca where ca: "sh_ca (sm_objs m ! i) = Some ca" by (auto simp: mem_serves_def)
  obtain r ca' where f: "f ca = Some (r, ca')" "mem_serves (cs ! i) i ((sm_objs m ! i)\<lparr>sh_ca := Some ca'\<rparr>)"
    using assms(3) [OF i] s ca by (auto simp: cs_def m_def)
  define m' where "m' = set_obj i ((sm_objs m ! i)\<lparr>sh_ca := Some ca'\<rparr>) m"
  have l: "sh_lock (sm_objs m ! i) = Some i" "length (sm_objs m) = 8" using g(3,6) i(2) by (simp_all add: mgr_live_def)
  then have "with_current name f g = Some (g\<lparr>g_mgr := m'\<rparr>)"
    using p i(1) ca f(1) by (simp add: with_current_def get_current_def m'_def flip: m_def)
  moreover have "mgr_live cs m'" using g(3,6) i(2) l(2) by (auto simp: mgr_live_def m'_def set_obj_def nth_list_update)
  moreover have "\<forall>j < 8. mem_serves (cs ! j) j (sm_objs m' ! j)" using g(5) f(2) l(2) i(2) by (simp add: m'_def set_obj_def nth_list_update)
  ultimately show ?thesis using assms(1) by (intro exI [of _ "g\<lparr>g_mgr := m'\<rparr>"]) (auto simp: server_ok_def round_ok_def cs_def)
qed

lemma stat_entry_serves:
  assumes "mem_serves c i s" and "i < 6" and "sh_ca s = Some ca" and "length garbage = 72" and "length key = 8"
  shows "\<exists>r ca'. stat_entry_add fadd garbage key cs diff now ca = Some (r, ca') \<and> mem_serves c i (s\<lparr>sh_ca := Some ca'\<rparr>)"
proof -
  define upd where "upd = (\<lambda>v. case v of None \<Rightarrow> key @ stat_bytes (cdb_comm_stat_add fadd cs diff True)
    | Some e \<Rightarrow> take 8 e @ stat_bytes (cdb_comm_stat_add fadd (stat_of_bytes (drop 8 e)) diff False))"
  define h where "h = hash_murmur key"
  have h: "length h = 16" by (simp add: h_def hash_murmur_def)
  obtain es where es: "m_cache_dump_min ca < 0" "cache_rep (m_cache ca) es" "hm_geom (m_cache ca) = conf_geom c"
    "\<forall>e \<in> set es. length (e_key e) = 16 \<and> length (e_data e) = 72" using assms(1-3) by (auto simp: mem_serves_def)
  define m where "m = values_of es"
  have rep: "store_rep 72 ca m \<and> hm_geom (m_cache ca) = conf_geom c" using es by (auto simp: store_rep_def m_def)
  have "length (upd (m h)) = 72"
    using geom_store.value_size [OF rep, of h] assms(5) stat_of_bytes_wf(1) comm_stat_add_wf stat_bytes_length
    by (simp add: upd_def split: option.split)
  from geom_store.read_modify_write_rep [OF rep h assms(4), of upd now, OF this] obtain ca' m' where
    ca': "read_modify_write base_find base_get base_insert h garbage upd now ca = Some ca'" "store_rep 72 ca' m'"
    "hm_geom (m_cache ca') = conf_geom c" "dom m' \<subseteq> insert h (dom m)" by (auto split: if_splits)
  obtain es' where es': "cache_rep (m_cache ca') es'" "m' = values_of es'" "\<forall>e \<in> set es'. length (e_data e) = 72" "m_cache_dump_min ca' < 0"
    using ca'(2) by (auto simp: store_rep_def)
  have "e_key ` set es' \<subseteq> insert h (e_key ` set es)" using ca'(4) by (simp add: es'(2) m_def values_of_dom)
  then have "\<forall>e \<in> set es'. length (e_key e) = 16" using es(4) h by auto
  then have "mem_serves c i (s\<lparr>sh_ca := Some ca'\<rparr>)" using es' ca'(3) by (auto simp: mem_serves_def)
  moreover obtain r where "stat_entry_add fadd garbage key cs diff now ca = Some (r, ca')"
    using ca'(1) stat_entry_add_rmw [of fadd garbage key cs diff now ca] unfolding upd_def h_def by auto
  ultimately show ?thesis by blast
qed

lemma tab_entry_serves:
  assumes "mem_serves c i s" and "6 \<le> i" and "sh_ca s = Some ca" and "0 \<le> type" and "type < 6" and "opt \<noteq> 0" and "marshal_size op < 2 ^ 31"
  shows "\<exists>r ca'. cdb_tab_dml_add fadd secs opt junk op type b e now ca = Some (r, ca') \<and> mem_serves c i (s\<lparr>sh_ca := Some ca'\<rparr>)"
proof -
  define h where "h = hash_murmur (key_image op)"
  have h: "length h = 16" by (simp add: h_def hash_murmur_def)
  obtain es where es: "plain_rep ca es" "hm_geom (m_cache ca) = conf_geom c" "\<forall>e \<in> set es. length (e_key e) = 16"
    using assms(1,3) by (auto simp: mem_serves_def plain_rep_def)
  from tab_add_rep [OF es(1) assms(4-7) h_def, where fadd = fadd and secs = secs and b = b and e = e and junk = junk and now = now]
  obtain d op' ca' where ca': "cdb_tab_dml_add fadd secs opt junk op type b e now ca = Some (op', ca')" "hm_geom (m_cache ca') = hm_geom (m_cache ca)"
    "plain_rep ca' (tab_put (hm_geom (m_cache ca)) h d now es)" by blast
  have "\<forall>e \<in> set (tab_put (hm_geom (m_cache ca)) h d now es). length (e_key e) = 16"
    using es(3) h set_touch [of h es] by (auto simp: tab_put_def lru_put_def new_entry_def lru_drop_def split: option.splits if_splits dest: lru_find_key)
  then show ?thesis using ca' es(2) assms(2) by (auto simp: mem_serves_def plain_rep_def)
qed

lemma server_pair:
  assumes "server_ok g" and "name \<in> {''cdb_ins_dml'', ''cdb_ins_conn'', ''cdb_ins_client_dml'', ''cdb_tab_dml''}"
  obtains p where "(name, p) \<in> set (g_pairs g)" "\<And>i. sp_current p = Some i \<Longrightarrow> i < 6 \<longleftrightarrow> name \<noteq> ''cdb_tab_dml''"
proof -
  have "name \<in> fst ` set (g_pairs g)"
    using assms by (auto simp: server_ok_def cdb_shm_pair_conf_array_def pair_conf_def)
  then obtain p where p: "(name, p) \<in> set (g_pairs g)" by auto
  then have "set (pair_objs p) \<subseteq> (if name = ''cdb_tab_dml'' then {6, 7} else {..<6})"
    using assms(1) unfolding server_ok_def by (metis fst_conv snd_conv)
  then have "\<And>i. sp_current p = Some i \<Longrightarrow> i < 6 \<longleftrightarrow> name \<noteq> ''cdb_tab_dml''" by (auto simp: pair_objs_def split: if_splits)
  then show thesis using that p by blast
qed

definition same_pairs :: "cdb_state \<Rightarrow> cdb_state \<Rightarrow> bool" where
  "same_pairs g g' \<longleftrightarrow> g_pairs g' = g_pairs g \<and> g_data_path g' = g_data_path g"

lemma fixed_serves:
  assumes "server_ok g" and "name \<in> {''cdb_ins_dml'', ''cdb_ins_conn'', ''cdb_ins_client_dml''}" and "length garbage = 72" and "length key = 8"
    and "\<And>ca. f ca = map_option (apfst wrap) (stat_entry_add fadd garbage key cs diff now ca)"
  shows "\<exists>g'. with_current name f g = Some g' \<and> server_ok g' \<and> same_pairs g g'"
proof -
  obtain p where p: "(name, p) \<in> set (g_pairs g)" "\<And>i. sp_current p = Some i \<Longrightarrow> i < 6"
    using server_pair [OF assms(1), of name] assms(2) by (auto simp del: insert_iff) auto
  have "\<exists>r ca'. f ca = Some (r, ca') \<and> mem_serves (cdb_shm_conf_array ! i) i ((sm_objs (g_mgr g) ! i)\<lparr>sh_ca := Some ca'\<rparr>)"
    if "sp_current p = Some i" "mem_serves (cdb_shm_conf_array ! i) i (sm_objs (g_mgr g) ! i)" "sh_ca (sm_objs (g_mgr g) ! i) = Some ca" for i ca
    using stat_entry_serves [OF that(2) p(2) [OF that(1)] that(3) assms(3,4), of fadd cs diff now] assms(5) [of ca] by auto
  from with_current_serves [OF assms(1) p(1) this] show ?thesis by (simp add: same_pairs_def)
qed

lemma count_dml_serves:
  assumes "server_ok g" and "length (par_garbage par) = 72"
  shows "\<exists>g'. count_dml par opts op b e g = Some g' \<and> server_ok g' \<and> same_pairs g g'"
proof (cases "opt_cdb_stat_ins_dml opts = 0")
  case False
  have "\<exists>g'. with_current ''cdb_ins_dml'' (cdb_ins_dml_add (par_fadd par) (par_secs par) (opt_cdb_stat_ins_dml opts) (par_garbage par) op b e (par_now par)) g = Some g' \<and>
    server_ok g' \<and> same_pairs g g'"
    by (rule fixed_serves [OF assms(1) _ assms(2), where key = "dml_key op" and wrap = "\<lambda>cs. op\<lparr>id_comm_stat := cs\<rparr>" and fadd = "par_fadd par"
          and cs = "id_comm_stat op" and diff = "par_secs par (e - b)" and now = "par_now par"])
      (simp_all add: dml_key_def cdb_ins_dml_add_def False Let_def split: bind_split)
  then show ?thesis using False by (simp add: count_dml_def)
qed (use assms(1) in \<open>simp add: count_dml_def same_pairs_def\<close>)

lemma count_client_serves:
  assumes "server_ok g" and "length (par_garbage par) = 72"
  shows "\<exists>g'. count_client par opts op b e g = Some g' \<and> server_ok g' \<and> same_pairs g g'"
proof (cases "opt_cdb_stat_client_dml opts = 0")
  case False
  have "\<exists>g'. with_current ''cdb_ins_client_dml'' (cdb_ins_client_dml_add (par_fadd par) (par_secs par) (opt_cdb_stat_client_dml opts) (par_garbage par) op b e (par_now par)) g = Some g' \<and>
    server_ok g' \<and> same_pairs g g'"
    by (rule fixed_serves [OF assms(1) _ assms(2), where key = "client_key op" and wrap = "\<lambda>cs. op\<lparr>icd_comm_stat := cs\<rparr>" and fadd = "par_fadd par"
          and cs = "icd_comm_stat op" and diff = "par_secs par (e - b)" and now = "par_now par"])
      (simp_all add: client_key_def cdb_ins_client_dml_add_def False Let_def split: bind_split)
  then show ?thesis using False by (simp add: count_client_def)
qed (use assms(1) in \<open>simp add: count_client_def same_pairs_def\<close>)

lemma count_conn_serves:
  assumes "server_ok g" and "length (par_garbage par) = 72"
  shows "\<exists>g'. count_conn par opts op b e g = Some g' \<and> server_ok g' \<and> same_pairs g g'"
proof (cases "opt_cdb_stat_ins_conn opts = 0")
  case False
  have "\<exists>g'. with_current ''cdb_ins_conn'' (cdb_ins_conn_add (par_fadd par) (par_secs par) (opt_cdb_stat_ins_conn opts) (par_garbage par) op b e (par_now par)) g = Some g' \<and>
    server_ok g' \<and> same_pairs g g'"
    by (rule fixed_serves [OF assms(1) _ assms(2), where key = "conn_key op" and wrap = "\<lambda>cs. op\<lparr>ic_comm_stat := cs\<rparr>" and fadd = "par_fadd par"
          and cs = "ic_comm_stat op" and diff = "par_secs par (e - b)" and now = "par_now par"])
      (simp_all add: conn_key_def cdb_ins_conn_add_def False Let_def split: bind_split)
  then show ?thesis using False by (simp add: count_conn_def)
qed (use assms(1) in \<open>simp add: count_conn_def same_pairs_def\<close>)

lemma count_tab_serves:
  assumes "server_ok g" and "marshal_size op < 2 ^ 31"
  shows "\<exists>g'. count_tab par opts op type b e g = Some g' \<and> server_ok g' \<and> same_pairs g g'"
proof (cases "opt_cdb_stat_table_dml opts = 0 \<or> type < 0 \<or> type \<ge> 6")
  case False
  obtain p where p: "(''cdb_tab_dml'', p) \<in> set (g_pairs g)" "\<And>i. sp_current p = Some i \<Longrightarrow> 6 \<le> i"
    using server_pair [OF assms(1), of "''cdb_tab_dml''"] by (metis insertCI linorder_not_less)
  from with_current_serves [OF assms(1) p(1) tab_entry_serves [OF _ p(2)]] False assms(2)
  show ?thesis by (simp add: count_tab_def same_pairs_def)
qed (use assms(1) in \<open>auto simp: count_tab_def same_pairs_def\<close>)

lemma statement_serves:
  assumes "server_ok g" and "length (par_garbage par) = 72" and "\<forall>n \<in> set (thd_open_tables thd). length (tn_db n) \<le> 255 \<and> length (tn_table n) \<le> 255"
  shows "\<exists>g'. cdb_stat_instance_dml_func par in_bootstrap opts thd g = Some g' \<and> server_ok g' \<and> same_pairs g g'"
proof -
  define type where "type = sql_type (thd_sql_command thd)"
  define tab where "tab = \<lparr>td_names = take 10 (thd_open_tables thd), td_result = thd_result thd, td_comm_stats = replicate 6 (par_stat par)\<rparr>"
  have "(\<Sum>n\<leftarrow>take 10 (thd_open_tables thd). (length (tn_db n) + 1) + (length (tn_table n) + 1)) \<le> (\<Sum>n\<leftarrow>take 10 (thd_open_tables thd). 512)"
    using assms(3) by (intro sum_list_mono) (fastforce dest: in_set_takeD)
  also have "\<dots> \<le> 5120" by (simp add: sum_list_triv)
  finally have size: "marshal_size tab < 2 ^ 31" by (simp add: tab_def marshal_size_def)
  obtain g1 where g1: "(if opt_cdb_stat_ins_dml opts \<noteq> 0
      then count_dml par opts \<lparr>id_type = of_nat type, id_result = thd_result thd, id_comm_stat = par_stat par\<rparr> (thd_start_utime thd) (thd_current_utime thd) g
      else Some g) = Some g1" "server_ok g1" "same_pairs g g1"
    using count_dml_serves [OF assms(1,2), of opts "\<lparr>id_type = of_nat type, id_result = thd_result thd, id_comm_stat = par_stat par\<rparr>" "thd_start_utime thd" "thd_current_utime thd"]
      assms(1) by (cases "opt_cdb_stat_ins_dml opts = 0") (auto simp: same_pairs_def)
  obtain g2 where g2: "(if opt_cdb_stat_client_dml opts \<noteq> 0
      then count_client par opts \<lparr>icd_ip = thd_ip thd, icd_type = of_nat type, icd_comm_stat = par_stat par\<rparr> (thd_start_utime thd) (thd_current_utime thd) g1
      else Some g1) = Some g2" "server_ok g2" "same_pairs g1 g2"
    using count_client_serves [OF g1(2) assms(2), of opts "\<lparr>icd_ip = thd_ip thd, icd_type = of_nat type, icd_comm_stat = par_stat par\<rparr>" "thd_start_utime thd" "thd_current_utime thd"]
      g1(2) by (cases "opt_cdb_stat_client_dml opts = 0") (auto simp: same_pairs_def)
  obtain g3 where g3: "(if opt_cdb_stat_table_dml opts \<noteq> 0 \<and> thd_open_tables thd \<noteq> []
      then count_tab par opts tab (int type) (thd_start_utime thd) (thd_current_utime thd) g2 else Some g2) = Some g3" "server_ok g3" "same_pairs g2 g3"
    using count_tab_serves [OF g2(2) size, of par opts "int type" "thd_start_utime thd" "thd_current_utime thd"] g2(2) by (cases "opt_cdb_stat_table_dml opts \<noteq> 0 \<and> thd_open_tables thd \<noteq> []") (auto simp: same_pairs_def)
  have "cdb_stat_instance_dml_func par in_bootstrap opts thd g = Some (if in_bootstrap then g else g3)"
    unfolding cdb_stat_instance_dml_func_def Let_def g1(1) [unfolded type_def] bind.bind_lunit g2(1) [unfolded type_def] g3(1) [unfolded type_def tab_def]
    by simp
  then show ?thesis using assms(1) g1(3) g2(3) g3(2,3) by (simp add: same_pairs_def)
qed

text \<open>What the events bring from outside: variables of the size of an entry, names of tables no longer than the server allows.\<close>

definition event_ok :: "server_event \<Rightarrow> bool" where
  "event_ok ev = (case ev of
     Statement par _ _ thd \<Rightarrow> length (par_garbage par) = 72 \<and> list_all (\<lambda>n. length (tn_db n) \<le> 255 \<and> length (tn_table n) \<le> 255) (thd_open_tables thd)
   | Connection par _ _ _ _ _ _ \<Rightarrow> length (par_garbage par) = 72
   | Round _ \<Rightarrow> True)"

lemma server_step_serves:
  assumes "server_ok g" and "event_ok ev"
  shows "\<exists>g'. server_step ev g = Some g' \<and> server_ok g'"
proof (cases ev)
  case (Statement par bs opts thd)
  then have "\<forall>n \<in> set (thd_open_tables thd). length (tn_db n) \<le> 255 \<and> length (tn_table n) \<le> 255" "length (par_garbage par) = 72"
    using assms(2) by (auto simp: event_ok_def list_all_iff)
  then show ?thesis using statement_serves [OF assms(1), of par thd bs opts] Statement by (auto simp: server_step_def)
next
  case (Connection par opts cev us ca b e)
  then have "length (par_garbage par) = 72" using assms(2) by (simp add: event_ok_def)
  from count_conn_serves [OF assms(1) this] Connection show ?thesis unfolding server_step_def count_connection_def by (simp, blast)
next
  case (Round env)
  have "round_ok g" using assms(1) by (simp add: server_ok_def)
  then obtain g' where "switch_round env g = Some g'" using switch_round_full [of g env] by blast
  then show ?thesis using round_serves [OF assms(1)] Round by (auto simp: server_step_def)
qed

lemma server_run_serves:
  "server_ok g \<Longrightarrow> list_all event_ok evs \<Longrightarrow> \<exists>g'. server_run evs g = Some g' \<and> server_ok g'"
proof (induction evs arbitrary: g)
  case (Cons ev evs)
  then obtain g1 where "server_step ev g = Some g1" "server_ok g1" using server_step_serves [of g ev] by auto
  then show ?case using Cons.IH [of g1] Cons.prems(2) by simp
qed simp

text \<open>
  C3. Started with the built-in configuration on a machine where the shared memories can be made, the module
  survives every sequence of events: the functions that count statements and connections and the rounds of the
  switch thread find their pair, its current memory and its lock, never touch memory they must not, and leave
  the eight memories well formed: each cache represents a list of entries in the geometry of its configuration,
  with keys of 16 bytes and, but for the tables, values of the size of an entry.
\<close>

theorem server_survives:
  assumes "fresh_env env" and "files (path @ ''/cdb.conf'') = None" and "length path \<le> 4043" and "list_all event_ok evs"
  shows "\<exists>g g'. cdb_init_shm_mgr env path (cdb_start files) = Some (True, g) \<and> server_run evs g = Some g' \<and>
    (\<forall>j < 8. mem_serves (cdb_shm_conf_array ! j) j (sm_objs (g_mgr g') ! j)) \<and>
    fst ` set (g_pairs g') = {''cdb_ins_dml'', ''cdb_ins_conn'', ''cdb_ins_client_dml'', ''cdb_tab_dml''} \<and>
    (\<forall>kp \<in> set (g_pairs g'). pair_ready cdb_shm_conf_array (snd kp))"
proof -
  obtain g where g: "cdb_init_shm_mgr env path (cdb_start files) = Some (True, g)" "server_ok g"
    using start_server_ok [of env files path] assms(1-3) by blast
  obtain g' where g': "server_run evs g = Some g'" "server_ok g'" using server_run_serves [OF g(2) assms(4)] by blast
  have "pc_name ` set cdb_shm_pair_conf_array = {''cdb_ins_dml'', ''cdb_ins_conn'', ''cdb_ins_client_dml'', ''cdb_tab_dml''}"
    by (simp add: cdb_shm_pair_conf_array_def pair_conf_def)
  then have names: "fst ` set (g_pairs g') = {''cdb_ins_dml'', ''cdb_ins_conn'', ''cdb_ins_client_dml'', ''cdb_tab_dml''}"
    using g'(2) unfolding server_ok_def by argo
  have conf: "round_ok g'" "g_shm_conf g' = cdb_shm_conf_array" "\<forall>j < 8. mem_serves (cdb_shm_conf_array ! j) j (sm_objs (g_mgr g') ! j)"
    using g'(2) unfolding server_ok_def by simp_all
  have "\<forall>kp \<in> set (g_pairs g'). pair_ready cdb_shm_conf_array (snd kp)" using conf(1) unfolding round_ok_def conf(2) by simp
  then show ?thesis using g(1) g'(1) names conf(3) by (intro exI conjI)
qed

definition demo_par :: stat_par where
  "demo_par = \<lparr>par_fadd = (\<lambda>a b. a), par_secs = (\<lambda>_. 0), par_garbage = replicate 72 7, par_junk = (\<lambda>_. 7),
     par_stat = \<lparr>cs_total = 9, cs_time_sum = 9, cs_time_min = 9, cs_time_max = 9, cs_time_bucket = replicate 9 9\<rparr>, par_now = 5, par_ip = 9\<rparr>"

definition demo_events :: "server_event list" where
  "demo_events =
    [Connection demo_par \<lparr>opt_cdb_stat_ins_dml = 1, opt_cdb_stat_ins_conn = 1, opt_cdb_stat_client_dml = 1, opt_cdb_stat_table_dml = 1\<rparr> LoginOk True 0 0 9,
     Statement demo_par False \<lparr>opt_cdb_stat_ins_dml = 1, opt_cdb_stat_ins_conn = 1, opt_cdb_stat_client_dml = 1, opt_cdb_stat_table_dml = 1\<rparr>
       \<lparr>thd_sql_command = SQLCOM_SELECT, thd_error = None, thd_vio = Some True, thd_remote = 0,
        thd_open_tables = [\<lparr>tn_db = [100], tn_table = [116]\<rparr>], thd_start_utime = 0, thd_current_utime = 9\<rparr>,
     Round demo_env]"

theorem server_survives_witness:
  "\<exists>g g'. cdb_init_shm_mgr demo_env ''/data'' (cdb_start Map.empty) = Some (True, g) \<and> server_run demo_events g = Some g' \<and>
    (\<forall>j < 8. mem_serves (cdb_shm_conf_array ! j) j (sm_objs (g_mgr g') ! j)) \<and>
    fst ` set (g_pairs g') = {''cdb_ins_dml'', ''cdb_ins_conn'', ''cdb_ins_client_dml'', ''cdb_tab_dml''} \<and>
    (\<forall>kp \<in> set (g_pairs g'). pair_ready cdb_shm_conf_array (snd kp))"
  by (rule server_survives) (simp_all add: fresh_env_def demo_env_def demo_events_def event_ok_def demo_par_def)

end
