(* ===== verification/Tools.thy ===== *)
theory Tools
  imports Server
begin

unbundle bit_operations_syntax

text \<open>
  The program that prints the statistics (\<open>cdb-tools/cdb_shm_dump.cpp\<close>). It runs beside the server, attaches the
  same shared memories, finds out from the map file which memory of a pair is the standby one, copies that
  memory and prints its entries. What it writes to the standard output is a string; messages to the
  standard error are not modelled. How a \<open>double\<close> multiplied by 1000 is printed with three digits is the
  parameter \<open>ms\<close>. \<open>None\<close> is undefined behaviour or an exception that nobody catches.
\<close>

section \<open>The map file\<close>

definition is_space :: "char \<Rightarrow> bool" where
  "is_space c \<longleftrightarrow> c \<in> set [CHR '' '', TAB, NL, CHR 0x0B, CHR 0x0C, CR]"

text \<open>
  The parts of a format of \<open>fscanf\<close>, and the strings that the conversions \<open>%s\<close> read before the first part that does
  not match.
\<close>

datatype scan_item = Lit string | Blank | IntD | StrS

fun scan :: "scan_item list \<Rightarrow> string \<Rightarrow> string list" where
  "scan [] s = []"
| "scan (Lit t # fs) s = (if take (length t) s = t then scan fs (drop (length t) s) else [])"
| "scan (Blank # fs) s = scan fs (dropWhile is_space s)"
| "scan (IntD # fs) s =
     (let s1 = dropWhile is_space s;
          s2 = (if take 1 s1 = ''-'' \<or> take 1 s1 = ''+'' then drop 1 s1 else s1)
      in if takeWhile isdigit s2 = [] then [] else scan fs (dropWhile isdigit s2))"
| "scan (StrS # fs) s =
     (let s1 = dropWhile is_space s;
          w = takeWhile (\<lambda>c. \<not> is_space c) s1
      in if w = [] then [] else w # scan fs (drop (length w) s1))"

definition map_file_format :: "scan_item list" where
  "map_file_format = [Lit ''last_switch_time:'', Blank, IntD, Blank, IntD, Blank, Lit ''current:'', Blank, StrS, Blank, IntD, Blank,
     Lit ''standby:'', Blank, StrS, Blank, IntD]"

text \<open>The buffers have 64 characters, the terminating zero included; a longer word overruns them.\<close>

definition parse_pair_map_file :: "(string \<rightharpoonup> string) \<Rightarrow> string \<Rightarrow> string \<Rightarrow> string option" where
  "parse_pair_map_file files mysqld_data_path pair_name =
     (case find (\<lambda>c. c_str (pc_name c) = c_str pair_name) cdb_shm_pair_conf_array of
        None \<Rightarrow> Some []
      | Some c \<Rightarrow>
          (case files (mysqld_data_path @ ''/'' @ pc_map_file c) of
             None \<Rightarrow> Some []
           | Some t \<Rightarrow>
               (let ws = scan map_file_format t
                in if \<exists>w \<in> set ws. 64 \<le> length w then None
                   else Some (case ws of [s1, s2] \<Rightarrow> c_str s2 | _ \<Rightarrow> []))))"

section \<open>The memory\<close>

definition check_standby :: "CDBShm \<Rightarrow> (int \<times> bool) option" where
  "check_standby s = (if length (sh_meta s) \<le> 16 then None else Some (sint (sh_meta s ! 16), sh_meta s ! 16 = 0))"

text \<open>The bytes at \<open>_data_addr\<close>: what an open cache sees, or what was there when the memory was attached.\<close>

definition shm_data :: "CDBShm \<Rightarrow> CHashMap" where
  "shm_data s = (case sh_ca s of None \<Rightarrow> sh_mem s | Some ca \<Rightarrow> m_cache ca)"

text \<open>\<open>Inl\<close> is the end of the program with that status.\<close>

definition copy_shm_data :: "shm_env \<Rightarrow> CDBShmConf list \<Rightarrow> CDBShm \<Rightarrow> (int + CacheAccess) option" where
  "copy_shm_data env confs s =
     (case find (\<lambda>c. sc_name c = sh_name s) confs of
        None \<Rightarrow> Some (Inl 1)
      | Some c \<Rightarrow> do {
          (ret, ca) \<leftarrow> ca_open (env_raw env) (sh_data_size s) False (sc_node_total c) (sc_bucket_size c) (sc_n_chunks c)
            (sc_chunk_size c) (new_cache env (shm_data s));
          Some (if ret \<noteq> 0 then Inl ret else Inr ca)
        })"

section \<open>Printing\<close>

definition dml_names :: "string list" where
  "dml_names = [''OTHER'', ''SELECT'', ''INSERT'', ''UPDATE'', ''REPLACE'', ''DELETE'']"

definition int_at :: "nat \<Rightarrow> byte list \<Rightarrow> int" where
  "int_at i b = sint (of_nat (le_nat (take 4 (drop i b))) :: 32 word)"

definition stat_text :: "(double \<Rightarrow> string) \<Rightarrow> CDBCommStat \<Rightarrow> string" where
  "stat_text ms cs = print_int (sint (cs_total cs)) @ '' '' @ ms (cs_time_sum cs) @ '' '' @ ms (cs_time_min cs) @ '' '' @
     ms (cs_time_max cs) @ '' '' @ concat (map (\<lambda>b. print_int (sint b) @ '' '') (cs_time_bucket cs)) @ [NL]"

definition inet_ntoa :: "byte list \<Rightarrow> string" where
  "inet_ntoa b = print_nat 10 (unat (b ! 0)) @ ''.'' @ print_nat 10 (unat (b ! 1)) @ ''.'' @ print_nat 10 (unat (b ! 2)) @ ''.'' @
     print_nat 10 (unat (b ! 3))"

definition shm_title :: "CDBShm \<Rightarrow> string" where
  "shm_title s = ''shm['' @ sh_name s @ ''] addr 0x'' @ print_nat 16 (nat (sh_addr s)) @ '' key '' @ print_int (sh_key s) @
     '' size '' @ print_int (sh_size s) @ [NL]"

definition stat_columns :: string where
  "stat_columns = ''total time_sum time_min time_max >20ms >40ms >60ms >80ms >100ms >500ms >1s >2s >10s'' @ [NL]"

definition dml_line :: "(double \<Rightarrow> string) \<Rightarrow> byte list \<Rightarrow> string" where
  "dml_line ms b =
     (let type = int_at 0 b
      in if 0 \<le> type \<and> type < 6
         then dml_names ! nat type @ '' '' @ print_int (int_at 4 b) @ '' '' @ stat_text ms (stat_of_bytes (drop 8 b))
         else print_int type @ '' invalid type'' @ [NL])"

definition conn_line :: "(double \<Rightarrow> string) \<Rightarrow> byte list \<Rightarrow> string" where
  "conn_line ms b = inet_ntoa b @ '' '' @ print_int (int_at 4 b) @ '' '' @ stat_text ms (stat_of_bytes (drop 8 b))"

definition client_line :: "(double \<Rightarrow> string) \<Rightarrow> byte list \<Rightarrow> string" where
  "client_line ms b =
     (let type = int_at 4 b
      in if 0 \<le> type \<and> type < 6
         then inet_ntoa b @ '' '' @ dml_names ! nat type @ '' '' @ stat_text ms (stat_of_bytes (drop 8 b))
         else print_int type @ '' invalid type'' @ [NL])"

text \<open>
  The part that three functions share: the loop over the map with the line for each entry that can be read. The
  result is the status if the program ends here, and the output.
\<close>

definition dump_map :: "shm_env \<Rightarrow> CDBShmConf list \<Rightarrow> string \<Rightarrow> (byte list \<Rightarrow> string) \<Rightarrow> CDBShm \<Rightarrow> (int option \<times> string) option" where
  "dump_map env confs columns line s = do {
     r \<leftarrow> copy_shm_data env confs s;
     case r of
       Inl code \<Rightarrow> Some (Some code, [])
     | Inr ca \<Rightarrow> do {
         (it, ca) \<leftarrow> init_begin (iterator_new 72) ca;
         (items, _) \<leftarrow> walk it ca [];
         Some (None, shm_title s @ columns @ concat (map (\<lambda>(_, rv, b). if rv = 0 then line b else []) items))
       }
   }"

definition dump_ins_dml :: "shm_env \<Rightarrow> CDBShmConf list \<Rightarrow> (double \<Rightarrow> string) \<Rightarrow> CDBShm \<Rightarrow> (int option \<times> string) option" where
  "dump_ins_dml env confs ms s = dump_map env confs (''#type result '' @ stat_columns) (dml_line ms) s"

definition dump_ins_conn :: "shm_env \<Rightarrow> CDBShmConf list \<Rightarrow> (double \<Rightarrow> string) \<Rightarrow> CDBShm \<Rightarrow> (int option \<times> string) option" where
  "dump_ins_conn env confs ms s = dump_map env confs (''#ip result '' @ stat_columns) (conn_line ms) s"

definition dump_ins_client_dml :: "shm_env \<Rightarrow> CDBShmConf list \<Rightarrow> (double \<Rightarrow> string) \<Rightarrow> CDBShm \<Rightarrow> (int option \<times> string) option" where
  "dump_ins_client_dml env confs ms s = dump_map env confs (''#ip type '' @ stat_columns) (client_line ms) s"

definition bytes_text :: "byte list \<Rightarrow> string" where
  "bytes_text b = map (\<lambda>x. char_of (unat x)) b"

definition tab_dml_gen_name_str :: "CDBTabDml \<Rightarrow> string" where
  "tab_dml_gen_name_str td =
     concat (map (\<lambda>i. (if i \<noteq> 0 then '','' else []) @ bytes_text (tn_db (td_names td ! i)) @ ''.'' @ bytes_text (tn_table (td_names td ! i)))
       [0..<length (td_names td)])"

definition tab_text :: "(double \<Rightarrow> string) \<Rightarrow> CDBTabDml \<Rightarrow> string" where
  "tab_text ms td = ''Table: '' @ tab_dml_gen_name_str td @ [NL] @ ''Result: '' @ print_int (sint (td_result td)) @ [NL] @
     ''#type '' @ stat_columns @
     concat (map (\<lambda>i. dml_names ! i @ '' '' @ stat_text ms (td_comm_stats td ! i)) [0..<6]) @ [NL]"

text \<open>
  The loop of \<open>dump_tab_dml\<close>: the length \<open>dl\<close> is that of the entry of \<open>cur_key\<close>, here \<open>cur\<close>, \<open>junk\<close> is the content of fresh memory. The
  return codes of \<open>get\<close> and \<open>de_marshal\<close> are not looked at.
\<close>

partial_function (option) dump_tab_loop ::
    "(nat \<Rightarrow> byte) \<Rightarrow> (double \<Rightarrow> string) \<Rightarrow> byte list \<Rightarrow> byte list \<Rightarrow> int \<Rightarrow> CDBTabDml \<Rightarrow> string \<Rightarrow> CacheAccess \<Rightarrow> string option" where
  "dump_tab_loop junk ms first cur dl td out ca = do {
     let data_size = c_int dl;
     let data = map junk [0..<nat dl];
     ((_, r), ca) \<leftarrow> ca_get cur data data_size ca;
     td \<leftarrow> de_marshal (case r of None \<Rightarrow> data | Some r \<Rightarrow> g_buf r) td;
     let out = out @ tab_text ms td;
     case ca_oldest_key ca of
       (rv, None) \<Rightarrow> Some out
     | (rv, Some (key, _, _, dl)) \<Rightarrow>
         if rv \<noteq> 0 then Some out
         else if key = first then Some out
         else dump_tab_loop junk ms first key dl td out ca
   }"

definition CDBTabDml_new :: "32 word \<Rightarrow> CDBCommStat list \<Rightarrow> CDBTabDml" where
  "CDBTabDml_new r st = \<lparr>td_names = [], td_result = r, td_comm_stats = st\<rparr>"

definition dump_tab_dml ::
    "shm_env \<Rightarrow> CDBShmConf list \<Rightarrow> (nat \<Rightarrow> byte) \<Rightarrow> CDBTabDml \<Rightarrow> (double \<Rightarrow> string) \<Rightarrow> CDBShm \<Rightarrow> (int option \<times> string) option" where
  "dump_tab_dml env confs junk td ms s = do {
     let out = shm_title s;
     r \<leftarrow> copy_shm_data env confs s;
     case r of
       Inl code \<Rightarrow> Some (Some code, out)
     | Inr ca \<Rightarrow>
         (case ca_oldest_key ca of
            (rv, None) \<Rightarrow> Some (None, out)
          | (rv, Some (key, _, _, dl)) \<Rightarrow>
              if rv \<noteq> 0 then Some (None, out)
              else do { out \<leftarrow> dump_tab_loop junk ms key key dl td out ca; Some (None, out) })
   }"

text \<open>
  The program: its status and its output, from its arguments, the name of the program first. Files are read where
  \<open>env_files\<close> has them. With a third argument it copies the memory to a file; the contents of that file are not
  part of the model. At the end it detaches the memories and destroys the locks, which changes neither
  the status nor the output.
\<close>

definition usage :: "string \<Rightarrow> string" where
  "usage appname = ''usage: '' @ appname @ '' <mysql_data_path> <shm_pair_name>'' @ [NL]"

definition dump_pair ::
    "shm_env \<Rightarrow> CDBShmConf list \<Rightarrow> (nat \<Rightarrow> byte) \<Rightarrow> CDBTabDml \<Rightarrow> (double \<Rightarrow> string) \<Rightarrow> string \<Rightarrow> CDBShm \<Rightarrow> (int option \<times> string) option" where
  "dump_pair env confs junk td ms pair s =
     (if pair \<notin> set [''cdb_ins_dml'', ''cdb_ins_conn'', ''cdb_ins_client_dml'', ''cdb_tab_dml''] then Some (None, [])
      else do {
        _ \<leftarrow> check_standby s;
        if pair = ''cdb_ins_dml'' then dump_ins_dml env confs ms s
        else if pair = ''cdb_ins_conn'' then dump_ins_conn env confs ms s
        else if pair = ''cdb_ins_client_dml'' then dump_ins_client_dml env confs ms s
        else dump_tab_dml env confs junk td ms s
      })"

fun dump_main ::
    "shm_env \<Rightarrow> (nat \<Rightarrow> byte) \<Rightarrow> CDBTabDml \<Rightarrow> (double \<Rightarrow> string) \<Rightarrow> string list \<Rightarrow> cdb_state \<Rightarrow> (int \<times> string) option" where
  "dump_main env junk td ms (app # path # pair # rest) g = do {
     (ok, g) \<leftarrow> cdb_attach_shm_mgr env path g;
     if \<not> ok then Some (g_errno g, [])
     else do {
       sm_name \<leftarrow> parse_pair_map_file (env_files env) path pair;
       if sm_name = [] then Some (1, [])
       else do {
         let out = ''standby shm is '' @ sm_name @ [NL];
         let s = deref (g_mgr g) (mgr_get (g_mgr g) sm_name);
         if sh_addr s = 0 then Some (2, out)
         else if rest \<noteq> []
         then Some (0, out @ (if env_can_write env ''shm_dump.dat'' then ''shm '' @ print_int (sh_key s) @ '' dumped to file.'' @ [NL] else []))
         else do {
           (code, t) \<leftarrow> dump_pair env (g_shm_conf g) junk td ms pair s;
           Some (case code of None \<Rightarrow> 0 | Some e \<Rightarrow> e, out @ t)
         }
       }
     }
   }"
| "dump_main env junk td ms (app # args) g = Some (1, usage app)"
| "dump_main env junk td ms [] g = None"

section \<open>Reading the map file\<close>

lemma not_space [simp]: "isdigit c \<Longrightarrow> \<not> is_space c" "\<not> is_space (CHR ''-'')" "is_space (CHR '' '')"
  by (auto simp: is_space_def isdigit_def char_code_def)

lemma dropWhile_hd: "s \<noteq> [] \<Longrightarrow> \<not> P (hd s) \<Longrightarrow> dropWhile P (s @ r) = s @ r"
  by (cases s) simp_all

lemma digits_end:
  assumes "list_all isdigit ds" and "r = [] \<or> \<not> isdigit (hd r)"
  shows "takeWhile isdigit (ds @ r) = ds" and "dropWhile isdigit (ds @ r) = r"
proof -
  have "takeWhile isdigit r = []" "dropWhile isdigit r = r" using assms(2) by (cases r; simp)+
  then show "takeWhile isdigit (ds @ r) = ds" "dropWhile isdigit (ds @ r) = r"
    using assms(1) by (simp_all add: list_all_iff)
qed

lemma digits_first: "\<exists>d ds. print_nat 10 n = d # ds \<and> isdigit d"
  using print_decimal [of n] by (cases "print_nat 10 n") auto

lemma scan_int:
  assumes "r = [] \<or> \<not> isdigit (hd r)"
  shows "scan (Blank # IntD # fs) (CHR '' '' # print_int i @ r) = scan fs r"
proof -
  have n: "takeWhile isdigit (print_nat 10 n @ r) = print_nat 10 n" "dropWhile isdigit (print_nat 10 n @ r) = r" for n
    using digits_end [OF print_decimal assms] .
  obtain d ds where d: "print_nat 10 (nat i) = d # ds" "isdigit d" using digits_first by blast
  moreover have "d \<noteq> CHR ''-''" "d \<noteq> CHR ''+''" using d(2) by (auto simp: isdigit_def char_code_def)
  ultimately show ?thesis
    using n [of "nat i"] n [of "nat (- i)"] by (cases "i < 0") (auto simp: print_int_def Let_def)
qed

lemma scan_str:
  assumes "w \<noteq> []" and "list_all (\<lambda>c. \<not> is_space c) w" and "r = [] \<or> is_space (hd r)"
  shows "scan (Blank # StrS # fs) (CHR '' '' # w @ r) = w # scan fs r"
proof -
  have "takeWhile (\<lambda>c. \<not> is_space c) (w @ r) = w"
    using assms(2,3) by (cases r) (auto simp: list_all_iff takeWhile_append)
  moreover have "dropWhile is_space (w @ r) = w @ r" using assms(1,2) by (intro dropWhile_hd) (cases w; simp)+
  ultimately show ?thesis using assms(1) by (simp add: Let_def)
qed

lemma scan_lit:
  assumes "t \<noteq> []" and "\<not> is_space (hd t)"
  shows "scan (Blank # Lit t # fs) (CHR '' '' # t @ r) = scan fs r"
  using dropWhile_hd [of t is_space r] assms by simp

definition shm_word :: "string \<Rightarrow> bool" where
  "shm_word w \<longleftrightarrow> w \<noteq> [] \<and> length w < 64 \<and> list_all (\<lambda>c. \<not> is_space c \<and> c \<noteq> NUL) w"

lemma scan_map_text:
  assumes "shm_word (fst cu)" and "shm_word (fst sb)"
  shows "scan map_file_format (map_text t cu sb) = [fst cu, fst sb]"
proof -
  have w: "fst cu \<noteq> []" "list_all (\<lambda>c. \<not> is_space c) (fst cu)" "fst sb \<noteq> []" "list_all (\<lambda>c. \<not> is_space c) (fst sb)"
    using assms by (simp_all add: shm_word_def list_all_iff)
  define r5 where "r5 = CHR '' '' # [NL]"
  define r4 where "r4 = CHR '' '' # print_int (snd sb) @ r5"
  define r3 where "r3 = CHR '' '' # ''standby:'' @ CHR '' '' # fst sb @ r4"
  define r2 where "r2 = CHR '' '' # print_int (snd cu) @ r3"
  define r1 where "r1 = CHR '' '' # ''current:'' @ CHR '' '' # fst cu @ r2"
  define r0 where "r0 = CHR '' '' # print_int (snd t) @ r1"
  have "map_text t cu sb = ''last_switch_time:'' @ (CHR '' '' # print_int (fst t) @ r0)"
    by (simp add: map_text_def r0_def r1_def r2_def r3_def r4_def r5_def)
  then have "scan (Lit ''last_switch_time:'' # fs) (map_text t cu sb) = scan fs (CHR '' '' # print_int (fst t) @ r0)" for fs by simp
  moreover have "scan (Blank # IntD # fs) (CHR '' '' # print_int (fst t) @ r0) = scan fs r0" for fs
    by (rule scan_int) (simp add: r0_def isdigit_def char_code_def)
  moreover have "scan (Blank # IntD # fs) r0 = scan fs r1" for fs
    unfolding r0_def by (rule scan_int) (simp add: r1_def isdigit_def char_code_def)
  moreover have "scan (Blank # Lit ''current:'' # fs) r1 = scan fs (CHR '' '' # fst cu @ r2)" for fs
    unfolding r1_def by (rule scan_lit) (simp_all add: is_space_def)
  moreover have "scan (Blank # StrS # fs) (CHR '' '' # fst cu @ r2) = fst cu # scan fs r2" for fs
    using w(1,2) by (rule scan_str) (simp add: r2_def)
  moreover have "scan (Blank # IntD # fs) r2 = scan fs r3" for fs
    unfolding r2_def by (rule scan_int) (simp add: r3_def isdigit_def char_code_def)
  moreover have "scan (Blank # Lit ''standby:'' # fs) r3 = scan fs (CHR '' '' # fst sb @ r4)" for fs
    unfolding r3_def by (rule scan_lit) (simp_all add: is_space_def)
  moreover have "scan (Blank # StrS # fs) (CHR '' '' # fst sb @ r4) = fst sb # scan fs r4" for fs
    using w(3,4) by (rule scan_str) (simp add: r4_def)
  moreover have "scan [Blank, IntD] r4 = []"
    using scan_int [of r5 "[]"] by (simp only: r4_def) (simp add: r5_def isdigit_def char_code_def)
  ultimately show ?thesis by (simp only: map_file_format_def)
qed

lemma find_distinct: "distinct (map f xs) \<Longrightarrow> x \<in> set xs \<Longrightarrow> find (\<lambda>y. f y = f x) xs = Some x"
  by (induction xs) (auto simp: image_iff)

lemma parse_map_file:
  assumes "c \<in> set cdb_shm_pair_conf_array" and "files (path @ ''/'' @ pc_map_file c) = Some (map_text t cu sb)"
    and "shm_word (fst cu)" and "shm_word (fst sb)"
  shows "parse_pair_map_file files path (pc_name c) = Some (fst sb)"
proof -
  have "find (\<lambda>d. c_str (pc_name d) = c_str (pc_name c)) cdb_shm_pair_conf_array = Some c"
    using find_distinct [OF _ assms(1), of "c_str \<circ> pc_name"] by (simp add: cdb_shm_pair_conf_array_def pair_conf_def c_str_def)
  moreover have "c_str (fst sb) = fst sb" using assms(4) by (intro c_str_id) (auto simp: shm_word_def list_all_iff)
  ultimately show ?thesis
    using assms(2-4) by (simp add: parse_pair_map_file_def scan_map_text Let_def shm_word_def not_le)
qed

section \<open>Copying and printing\<close>

definition mem_good :: "CDBShmConf \<Rightarrow> CHashMap \<Rightarrow> bool" where
  "mem_good c h \<longleftrightarrow> (\<exists>es. cache_rep h es) \<and> hm_geom h = conf_geom c"

lemma ca_open_attach:
  assumes "mem_good c (m_cache ca)" and "cdb_check_shm_conf c" and "sz = sc_size c"
  shows "ca_open raw sz False (sc_node_total c) (sc_bucket_size c) (sc_n_chunks c) (sc_chunk_size c) ca =
    Some (0, ca\<lparr>m_cacheinit := False, m_mem_size := sz\<rparr>)"
proof -
  obtain L V where ok: "hm_ok (m_cache ca) L V" using assms(1) by (auto simp: mem_good_def cache_rep_def)
  have "m_node_total (m_cache ca) = sc_node_total c" "m_bucket_size (m_cache ca) = sc_bucket_size c"
    "m_chunk_total (m_allocator (m_cache ca)) = sc_n_chunks c" "m_chunk_size (m_allocator (m_cache ca)) = sc_chunk_size c"
    using assms(1) by (simp_all add: mem_good_def hm_geom_def al_geom_def conf_geom_def)
  then show ?thesis using hash_open_attach [OF ok, of raw] assms(2,3)
    by (simp add: ca_open_def cdb_check_shm_conf_def Let_def split: if_splits)
qed

lemma copy_ok:
  assumes "find (\<lambda>c. sc_name c = sh_name s) confs = Some c" and "mem_good c (shm_data s)" and "cdb_check_shm_conf c" and "sh_data_size s = sc_size c"
  shows "\<exists>ca. copy_shm_data env confs s = Some (Inr ca) \<and> m_cache ca = shm_data s"
  using assms ca_open_attach [of c "new_cache env (shm_data s)" "sh_data_size s" "env_raw env"]
  by (simp add: copy_shm_data_def new_cache_def CacheAccess_new_def)

lemma dump_map_all:
  assumes "find (\<lambda>c. sc_name c = sh_name s) confs = Some c" and "cdb_check_shm_conf c" and "sh_data_size s = sc_size c"
    and "cache_rep (shm_data s) es" and "hm_geom (shm_data s) = conf_geom c" and "\<forall>e \<in> set es. typed 72 e"
  shows "dump_map env confs columns line s = Some (None, shm_title s @ columns @ concat (map (line \<circ> e_data) (rev es)))"
proof -
  have "mem_good c (shm_data s)" using assms(4,5) by (auto simp: mem_good_def)
  then obtain ca where ca: "copy_shm_data env confs s = Some (Inr ca)" "m_cache ca = shm_data s" using copy_ok assms(1-3) by blast
  from walk_all [of ca es 72] ca(2) assms(4,6) obtain it s1 c' where
    "init_begin (iterator_new 72) ca = Some (it, s1)" "walk it s1 [] = Some (map (\<lambda>e. (e_key e, 0, e_data e)) (rev es), ca\<lparr>m_cache := c'\<rparr>)" by auto
  then show ?thesis by (simp add: dump_map_def ca(1) comp_def)
qed

section \<open>Attaching\<close>

text \<open>What the program gets from the operating system: the memories as the server has them.\<close>

definition tool_sees :: "shm_env \<Rightarrow> string \<Rightarrow> CDBShmConf \<Rightarrow> CDBShm \<Rightarrow> bool" where
  "tool_sees env path c s \<longleftrightarrow>
     (let k = env_ftok env path (sc_id c); i = env_shmget env k (sc_size c + CDB_SHM_META_MAX) False
      in 0 \<le> i \<and> env_shmat env i \<noteq> -1 \<and> env_shmat env i \<noteq> 0 \<and> env_mem env k = shm_data s \<and> env_meta env k = sh_meta s)"

definition attached :: "shm_env \<Rightarrow> string \<Rightarrow> CDBShmConf \<Rightarrow> nat \<Rightarrow> CDBShm \<Rightarrow> bool" where
  "attached env path c i s \<longleftrightarrow> sh_name s = sc_name c \<and> sh_data_size s = sc_size c \<and> sh_addr s \<noteq> 0 \<and>
     shm_data s = env_mem env (env_ftok env path (sc_id c)) \<and> sh_meta s = env_meta env (env_ftok env path (sc_id c))"

lemma attach_shm_ok:
  assumes "tool_sees env path c s0" and "mem_good c (shm_data s0)" and "conf_ok c"
  shows "\<exists>m s. attach_shm env path c g = Some (Inr (g\<lparr>g_mgr := m\<rparr>)) \<and> sm_objs m = sm_objs (g_mgr g) @ [s] \<and> attached env path c i s \<and>
    sm_shm_map m = (sm_shm_map (g_mgr g))(sc_name c \<mapsto> length (sm_objs (g_mgr g)))"
proof -
  define k where "k = env_ftok env path (sc_id c)"
  have c: "cdb_check_shm_conf c" "c_str (sc_name c) = sc_name c" using assms(3) c_str_id by (auto simp: conf_ok_def)
  have sees: "0 \<le> env_shmget env k (sc_size c + CDB_SHM_META_MAX) False" "env_shmat env (env_shmget env k (sc_size c + CDB_SHM_META_MAX) False) \<noteq> -1"
    "env_shmat env (env_shmget env k (sc_size c + CDB_SHM_META_MAX) False) \<noteq> 0" "env_mem env k = shm_data s0"
    using assms(1) by (auto simp: tool_sees_def Let_def k_def)
  obtain m0 s1 where r: "mgr_reg env (sc_name c) k (sc_size c) True (g_mgr g) = (True, m0)" "sm_objs m0 = sm_objs (g_mgr g) @ [s1]"
    "sm_shm_map m0 = (sm_shm_map (g_mgr g))(sc_name c \<mapsto> length (sm_objs (g_mgr g)))" "\<not> sh_new s1" "sh_name s1 = sc_name c"
    "sh_data_size s1 = sc_size c" "sh_mem s1 = env_mem env k" "sh_meta s1 = env_meta env k" "sh_addr s1 \<noteq> 0"
    using sees c(2) by (simp add: mgr_reg_def Let_def not_less)
  define ca where "ca = (new_cache env (sh_mem s1))\<lparr>m_cacheinit := False, m_mem_size := sc_size c\<rparr>"
  have "open_cache env c False s1 = Some (0, s1\<lparr>sh_ca := Some ca\<rparr>)"
    using ca_open_attach [of c "new_cache env (sh_mem s1)" "sh_data_size s1" "env_raw env"] assms(2) c(1) r(6,7) sees(4)
    by (simp add: open_cache_def ca_def new_cache_def CacheAccess_new_def)
  then have "attach_shm env path c g = Some (Inr (g\<lparr>g_mgr := set_obj (length (sm_objs (g_mgr g))) (s1\<lparr>sh_ca := Some ca\<rparr>) m0\<rparr>))"
    using r c(2) by (simp add: attach_shm_def mgr_get_def Let_def flip: k_def)
  moreover have "attached env path c i (s1\<lparr>sh_ca := Some ca\<rparr>)"
    using r by (simp add: attached_def shm_data_def ca_def new_cache_def CacheAccess_new_def flip: k_def)
  ultimately show ?thesis using r(2,3) by (intro exI conjI) (assumption, simp_all add: set_obj_def)
qed

lemma attach_shms_ok:
  assumes "list_all (\<lambda>c. \<exists>s. tool_sees env path c s \<and> mem_good c (shm_data s) \<and> conf_ok c) cs'" and "distinct (map sc_name (cs @ cs'))"
    and "mgr_holds (attached env path) cs (g_mgr g)"
  shows "\<exists>m. attach_shms env path cs' g = Some (Inr (g\<lparr>g_mgr := m\<rparr>)) \<and> mgr_holds (attached env path) (cs @ cs') m"
  using assms
proof (induction cs' arbitrary: cs g)
  case Nil
  then show ?case by (intro exI [of _ "g_mgr g"]) simp
next
  case (Cons c cs')
  from Cons.prems(1) obtain s0 where "tool_sees env path c s0" "mem_good c (shm_data s0)" "conf_ok c" by auto
  from attach_shm_ok [OF this, of g "length cs"] obtain m s where
    m: "attach_shm env path c g = Some (Inr (g\<lparr>g_mgr := m\<rparr>))" "sm_objs m = sm_objs (g_mgr g) @ [s]" "attached env path c (length cs) s"
    "sm_shm_map m = (sm_shm_map (g_mgr g))(sc_name c \<mapsto> length (sm_objs (g_mgr g)))" by blast
  have "mgr_holds (attached env path) (cs @ [c]) m" using mgr_holds_snoc [OF Cons.prems(3) m(2-4)] Cons.prems(2) by auto
  then have "\<exists>m'. attach_shms env path cs' (g\<lparr>g_mgr := m\<rparr>) = Some (Inr (g\<lparr>g_mgr := m, g_mgr := m'\<rparr>)) \<and>
      mgr_holds (attached env path) ((cs @ [c]) @ cs') m'"
    using Cons.IH [of "cs @ [c]" "g\<lparr>g_mgr := m\<rparr>"] Cons.prems by simp
  then show ?case using m(1) by auto
qed

section \<open>The server and the program\<close>

lemma mem_serves_good: "mem_serves c j s \<Longrightarrow> mem_good c (shm_data s)"
  by (auto simp: mem_serves_def mem_good_def shm_data_def)

definition dump_columns :: "string \<Rightarrow> string" where
  "dump_columns k = (if k = ''cdb_ins_dml'' then ''#type result '' else if k = ''cdb_ins_conn'' then ''#ip result '' else ''#ip type '') @ stat_columns"

definition dump_line :: "(double \<Rightarrow> string) \<Rightarrow> string \<Rightarrow> byte list \<Rightarrow> string" where
  "dump_line ms k = (if k = ''cdb_ins_dml'' then dml_line ms else if k = ''cdb_ins_conn'' then conn_line ms else client_line ms)"

lemma default_names:
  "c \<in> set cdb_shm_conf_array \<Longrightarrow> shm_word (sc_name c) \<and> c_str (sc_name c) = sc_name c"
  by (auto simp: cdb_shm_conf_array_def shm_conf_def shm_word_def is_space_def c_str_def)

lemma map_paths_distinct:
  assumes "server_ok g"
  shows "distinct (map (map_path dp) (map snd (g_pairs g)))"
proof -
  have g: "\<forall>kp \<in> set (g_pairs g). sp_pair_conf (snd kp) \<in> set cdb_shm_pair_conf_array \<and> pc_name (sp_pair_conf (snd kp)) = fst kp"
    "distinct (map fst (g_pairs g))" using assms sorted_distinct by (auto simp: server_ok_def round_ok_def)
  have "x = y" if "x \<in> set (g_pairs g)" "y \<in> set (g_pairs g)" "map_path dp (snd x) = map_path dp (snd y)" for x y
  proof -
    have "sp_pair_conf (snd x) = sp_pair_conf (snd y)" using that g(1) default_map_files(1) by (auto simp: map_path_def inj_on_eq_iff)
    then have "fst x = fst y" using g(1) that(1,2) by metis
    then show ?thesis using g(2) that(1,2) eq_key_imp_eq_value by (metis prod.collapse)
  qed
  then have "inj_on (map_path dp \<circ> snd) (set (g_pairs g))" by (auto intro!: inj_onI)
  then show ?thesis using g(2) by (simp add: distinct_map)
qed

lemma attach_default:
  assumes "\<forall>j < 8. tool_sees env path (cdb_shm_conf_array ! j) (objs ! j) \<and> mem_serves (cdb_shm_conf_array ! j) j (objs ! j)"
  shows "\<exists>g. cdb_attach_shm_mgr env path (cdb_start files) = Some (True, g) \<and> g_shm_conf g = cdb_shm_conf_array \<and>
    mgr_holds (attached env path) cdb_shm_conf_array (g_mgr g)"
proof -
  have "list_all (\<lambda>c. \<exists>s. tool_sees env path c s \<and> mem_good c (shm_data s) \<and> conf_ok c) cdb_shm_conf_array"
    using assms default_confs_ok(1) mem_serves_good by (fastforce simp: list_all_length default_map_files(3))
  moreover have "mgr_holds (attached env path) [] (g_mgr (cdb_start files))" by (simp add: mgr_holds_def cdb_start_def CDBShmMgr_new_def)
  ultimately obtain m where "attach_shms env path cdb_shm_conf_array (cdb_start files) = Some (Inr ((cdb_start files)\<lparr>g_mgr := m\<rparr>))"
    "mgr_holds (attached env path) cdb_shm_conf_array m"
    using attach_shms_ok [of env path cdb_shm_conf_array "[]" "cdb_start files"] default_confs_ok(2) by auto
  then show ?thesis
    by (intro exI [of _ "(cdb_start files)\<lparr>g_mgr := m\<rparr>"]) (simp add: cdb_attach_shm_mgr_def mgr_attach_def cdb_start_def CDB_FINE_def)
qed

text \<open>After a round the map file of a pair names as standby the memory that was current.\<close>

lemma parse_after_round:
  assumes "server_ok g" and "\<forall>f. env_can_write env f" and "(k, p) \<in> set (g_pairs g)" and "switch_round env g = Some g'"
    and "sp_current p = Some a" and "sp_standby p = Some b" and "a < 8" and "b < 8"
  shows "parse_pair_map_file (g_files g') (g_data_path g) k = Some (sc_name (cdb_shm_conf_array ! a))"
proof -
  define cs m path where "cs = cdb_shm_conf_array" and "m = g_mgr g" and "path = g_data_path g"
  have g: "round_ok g" "g_shm_conf g = cs" "sp_pair_conf p \<in> set cdb_shm_pair_conf_array" "pc_name (sp_pair_conf p) = k" "mgr_live cs m"
    using assms(1,3) by (auto simp: server_ok_def round_ok_def cs_def m_def)
  have n: "sh_name (sm_objs m ! j) = sc_name (cs ! j)" if "j < 8" for j
    using g(5) that by (simp add: mgr_live_def cs_def default_map_files(3))
  have "files_swapped env path m (map snd (g_pairs g)) (g_files g) (g_files g')"
    using switch_round_full [OF g(1), of env] assms(4) by (auto simp: m_def path_def)
  then have mfile: "g_files g' (path @ ''/'' @ pc_map_file (sp_pair_conf p)) =
      Some (map_text (sp_last_switch_time p) (shm_ident (sm_objs m ! b)) (shm_ident (sm_objs m ! a)))"
    using assms(2,3) map_paths_distinct [OF assms(1)] assms(5,6)
    by (force simp: files_swapped_def map_path_def swapped_text_def deref_def)
  have "shm_word (sc_name (cs ! j)) \<and> c_str (sc_name (cs ! j)) = sc_name (cs ! j)" if "j < 8" for j
    using default_names [of "cs ! j"] that by (simp add: cs_def default_map_files(3))
  then show ?thesis
    using parse_map_file [where files = "g_files g'", OF g(3) mfile] n assms(7,8) g(4) by (simp add: shm_ident_def path_def cs_def)
qed

text \<open>The program attaches to the memories of a server and prints the entries of one of them.\<close>

lemma attach_and_dump:
  assumes "server_ok g" and "a < 8" and "\<forall>j < 8. tool_sees env (g_data_path g) (cdb_shm_conf_array ! j) (sm_objs (g_mgr g) ! j)"
    and "sh_ca (sm_objs (g_mgr g) ! a) = Some ca" and "cache_rep (m_cache ca) es" and "\<forall>e \<in> set es. typed 72 e"
  obtains t s where "cdb_attach_shm_mgr env (g_data_path g) (cdb_start files) = Some (True, t)" "g_shm_conf t = cdb_shm_conf_array"
    "mgr_get (g_mgr t) (sc_name (cdb_shm_conf_array ! a)) = Some a" "sm_objs (g_mgr t) ! a = s" "sh_addr s \<noteq> 0" "\<exists>e. check_standby s = Some e"
    "\<And>columns line. dump_map env cdb_shm_conf_array columns line s = Some (None, shm_title s @ columns @ concat (map (line \<circ> e_data) (rev es)))"
proof -
  define cs m path where "cs = cdb_shm_conf_array" and "m = g_mgr g" and "path = g_data_path g"
  have j: "a < length cs" using assms(2) by (simp add: cs_def default_map_files(3))
  have good: "\<forall>j < 8. tool_sees env path (cs ! j) (sm_objs m ! j) \<and> mem_serves (cs ! j) j (sm_objs m ! j)"
    using assms(1,3) by (simp add: server_ok_def cs_def path_def m_def)
  then obtain t where t: "cdb_attach_shm_mgr env path (cdb_start files) = Some (True, t)" "g_shm_conf t = cs" "mgr_holds (attached env path) cs (g_mgr t)"
    using attach_default unfolding cs_def by blast
  define s where "s = sm_objs (g_mgr t) ! a"
  have s: "sm_shm_map (g_mgr t) (sc_name (cs ! a)) = Some a" "attached env path (cs ! a) a s" using t(3) j by (simp_all add: mgr_holds_def s_def)
  have sees: "shm_data s = shm_data (sm_objs m ! a)" "sh_meta s = sh_meta (sm_objs m ! a)"
    using s(2) good assms(2) by (auto simp: attached_def tool_sees_def Let_def)
  have data: "shm_data s = m_cache ca" "hm_geom (m_cache ca) = conf_geom (cs ! a)"
    using sees(1) good assms(2,4) by (auto simp: shm_data_def mem_serves_def m_def)
  have "length (sh_meta s) = 4096"
    using assms(1) j sees(2) by (simp add: server_ok_def round_ok_def mgr_live_def CDB_SHM_META_MAX_def m_def cs_def)
  then have check: "\<exists>e. check_standby s = Some e" by (simp add: check_standby_def)
  have "find (\<lambda>c. sc_name c = sh_name s) cs = Some (cs ! a)"
    using find_distinct [of sc_name cs "cs ! a"] default_confs_ok(2) j s(2) by (simp add: cs_def attached_def)
  moreover have "cdb_check_shm_conf (cs ! a)" using default_confs_ok(1) j by (simp add: cs_def list_all_length conf_ok_def)
  moreover have "sh_data_size s = sc_size (cs ! a)" using s(2) by (simp add: attached_def)
  ultimately have dump: "dump_map env cs columns line s = Some (None, shm_title s @ columns @ concat (map (line \<circ> e_data) (rev es)))" for columns line
    using dump_map_all [of s cs "cs ! a" es env columns line] data assms(5,6) by simp
  have "mgr_get (g_mgr t) (sc_name (cs ! a)) = Some a" "sh_addr s \<noteq> 0" using s default_names [of "cs ! a"] j by (auto simp: mgr_get_def attached_def cs_def)
  then show thesis using that [of t s] t(1,2) check dump s_def by (simp add: cs_def path_def)
qed

text \<open>
  C2. What was counted is what is printed. After a round of the switch thread of a running server, the program that
  prints the statistics of one of the three fixed kinds attaches the memories, finds the standby memory of
  the pair in the map file and prints one line for each entry that the current memory had before the
  round, the oldest first, and nothing else.
\<close>

theorem dump_after_round:
  assumes "server_ok g" and "\<forall>f. env_can_write env f" and "(k, p) \<in> set (g_pairs g)" and "k \<noteq> ''cdb_tab_dml''"
    and "sh_ca (deref (g_mgr g) (sp_current p)) = Some ca" and "cache_rep (m_cache ca) es"
    and "switch_round env g = Some g'" and "env_files tenv = g_files g'"
    and "\<forall>j < 8. tool_sees tenv (g_data_path g) (cdb_shm_conf_array ! j) (sm_objs (g_mgr g') ! j)"
  shows "\<exists>title. dump_main tenv junk td ms [app, g_data_path g, k] (cdb_start files) = Some (0,
    ''standby shm is '' @ sh_name (deref (g_mgr g) (sp_current p)) @ [NL] @ title @ dump_columns k @ concat (map (dump_line ms k \<circ> e_data) (rev es)))"
proof -
  define cs m where "cs = cdb_shm_conf_array" and "m = g_mgr g"
  have g: "round_ok g" "g_shm_conf g = cs" "pc_name (sp_pair_conf p) = k" "sp_pair_conf p \<in> set cdb_shm_pair_conf_array" "pair_ready cs p"
    "mgr_live cs m" "\<forall>j < 8. mem_serves (cs ! j) j (sm_objs m ! j)" using assms(1,3) by (auto simp: server_ok_def round_ok_def cs_def m_def)
  from g(5) obtain a b where p: "sp_current p = Some a" "sp_standby p = Some b" "a < 8" "b < 8"
    unfolding pair_ready_def by (auto simp: cs_def default_map_files(3))
  have "set (pair_objs p) \<subseteq> (if k = ''cdb_tab_dml'' then {6, 7} else {..<6})"
    using assms(1,3) unfolding server_ok_def by (metis fst_conv snd_conv)
  then have "a < 6" using p(1) assms(4) by (simp add: pair_objs_def)
  moreover have "sh_ca (sm_objs m ! a) = Some ca" using assms(5) p(1) by (simp add: deref_def m_def)
  moreover have "mem_serves (cs ! a) a (sm_objs m ! a)" using g(7) p(3) by blast
  ultimately obtain es0 where "cache_rep (m_cache ca) es0" "\<forall>e \<in> set es0. typed 72 e" by (auto simp: mem_serves_def typed_def)
  then have typed: "\<forall>e \<in> set es. typed 72 e" using cache_rep_unique [OF assms(6)] by blast
  have full: "swapped m (g_mgr g') p" "g_data_path g' = g_data_path g"
    using switch_round_full [OF g(1), of env] assms(3,7) by (auto simp: m_def)
  then have ca: "sh_ca (sm_objs (g_mgr g') ! a) = Some ca" using assms(5) p(1) by (simp add: swapped_def deref_def m_def)
  note parse = parse_after_round [OF assms(1-3,7) p]
  have name: "sh_name (sm_objs m ! a) = sc_name (cs ! a)" "sc_name (cs ! a) \<noteq> []"
    using g(6) p(3) default_names [of "cs ! a"] by (auto simp: mgr_live_def cs_def default_map_files(3) shm_word_def)
  have k: "k \<in> {''cdb_ins_dml'', ''cdb_ins_conn'', ''cdb_ins_client_dml''}"
    using g(3,4) assms(4) by (auto simp: cdb_shm_pair_conf_array_def pair_conf_def)
  obtain t s where t: "cdb_attach_shm_mgr tenv (g_data_path g) (cdb_start files) = Some (True, t)" "g_shm_conf t = cs"
    "mgr_get (g_mgr t) (sc_name (cs ! a)) = Some a" "sm_objs (g_mgr t) ! a = s" "sh_addr s \<noteq> 0" "\<exists>e. check_standby s = Some e"
    "\<And>columns line. dump_map tenv cs columns line s = Some (None, shm_title s @ columns @ concat (map (line \<circ> e_data) (rev es)))"
    using attach_and_dump [OF round_serves [OF assms(1,7)] p(3) _ ca assms(6) typed, of tenv files] assms(9) full(2) unfolding cs_def by metis
  then show ?thesis using parse k name p(1) assms(8)
    by (intro exI [of _ "shm_title s"])
      (auto simp: dump_pair_def dump_ins_dml_def dump_ins_conn_def dump_ins_client_dml_def dump_columns_def dump_line_def deref_def
        simp flip: m_def cs_def)
qed

text \<open>A program that sees the memories and the files of the server \<open>g\<close>.\<close>

definition demo_tool :: "cdb_state \<Rightarrow> shm_env" where
  "demo_tool g = demo_env\<lparr>env_shmget := (\<lambda>k n create. \<bar>k\<bar>), env_mem := (\<lambda>k. shm_data (sm_objs (g_mgr g) ! nat (k - 1))),
     env_meta := (\<lambda>k. sh_meta (sm_objs (g_mgr g) ! nat (k - 1))), env_files := g_files g\<rparr>"

lemma demo_tool_sees: "j < 8 \<Longrightarrow> tool_sees (demo_tool g) path (cdb_shm_conf_array ! j) (sm_objs (g_mgr g) ! j)"
proof -
  have ids: "map sc_id cdb_shm_conf_array = [1, 2, 3, 4, 5, 6, 7, 8]" by (simp add: cdb_shm_conf_array_def shm_conf_def)
  assume "j < 8"
  then have "j \<in> {0, 1, 2, 3, 4, 5, 6, 7}" by auto
  then have "sc_id (cdb_shm_conf_array ! j) = int j + 1"
    using arg_cong [OF ids, of "\<lambda>xs. xs ! j"] \<open>j < 8\<close> default_map_files(3) by auto
  then show ?thesis by (simp add: tool_sees_def demo_tool_def demo_env_def Let_def)
qed

theorem dump_after_round_witness:
  "\<exists>g0 g g' p ca es title. cdb_init_shm_mgr demo_env ''/data'' (cdb_start Map.empty) = Some (True, g0) \<and> server_run demo_events g0 = Some g \<and>
    (''cdb_ins_dml'', p) \<in> set (g_pairs g) \<and> sh_ca (deref (g_mgr g) (sp_current p)) = Some ca \<and> cache_rep (m_cache ca) es \<and>
    switch_round demo_env g = Some g' \<and>
    dump_main (demo_tool g') (\<lambda>_. 0) (CDBTabDml_new 0 (replicate 6 stat_null)) (\<lambda>_. ''0'') [''dump'', g_data_path g, ''cdb_ins_dml''] (cdb_start Map.empty) = Some (0,
      ''standby shm is '' @ sh_name (deref (g_mgr g) (sp_current p)) @ [NL] @ title @ dump_columns ''cdb_ins_dml'' @
      concat (map (dump_line (\<lambda>_. ''0'') ''cdb_ins_dml'' \<circ> e_data) (rev es)))"
proof -
  have e: "fresh_env demo_env" "list_all event_ok demo_events" "\<forall>f. env_can_write demo_env f"
    by (simp_all add: fresh_env_def demo_env_def demo_events_def event_ok_def demo_par_def)
  obtain g0 where g0: "cdb_init_shm_mgr demo_env ''/data'' (cdb_start Map.empty) = Some (True, g0)" "server_ok g0"
    using start_server_ok [of demo_env Map.empty "''/data''"] e(1) by auto
  obtain g where g: "server_run demo_events g0 = Some g" "server_ok g" using server_run_serves [OF g0(2) e(2)] by blast
  obtain p where p: "(''cdb_ins_dml'', p) \<in> set (g_pairs g)" using server_pair [OF g(2), of "''cdb_ins_dml''"] by blast
  have "pair_ready cdb_shm_conf_array p" using g(2) p by (auto simp: server_ok_def round_ok_def)
  then obtain a where a: "sp_current p = Some a" "a < 8" by (auto simp: pair_ready_def default_map_files(3))
  then obtain ca es where ca: "sh_ca (deref (g_mgr g) (sp_current p)) = Some ca" "cache_rep (m_cache ca) es"
    using g(2) by (force simp: server_ok_def mem_serves_def deref_def)
  obtain g' where g': "switch_round demo_env g = Some g'" using switch_round_full [of g demo_env] g(2) by (auto simp: server_ok_def)
  have "env_files (demo_tool g') = g_files g'" by (simp add: demo_tool_def)
  moreover have "\<forall>j < 8. tool_sees (demo_tool g') (g_data_path g) (cdb_shm_conf_array ! j) (sm_objs (g_mgr g') ! j)" by (simp add: demo_tool_sees)
  ultimately obtain title where "dump_main (demo_tool g') (\<lambda>_. 0) (CDBTabDml_new 0 (replicate 6 stat_null)) (\<lambda>_. ''0'') [''dump'', g_data_path g, ''cdb_ins_dml'']
      (cdb_start Map.empty) = Some (0, ''standby shm is '' @ sh_name (deref (g_mgr g) (sp_current p)) @ [NL] @ title @ dump_columns ''cdb_ins_dml'' @
      concat (map (dump_line (\<lambda>_. ''0'') ''cdb_ins_dml'' \<circ> e_data) (rev es)))"
    using dump_after_round [OF g(2) e(3) p _ ca g', of "demo_tool g'"] by fastforce
  then show ?thesis using g0(1) g(1) p ca g' by (intro exI conjI)
qed

section \<open>Printing the tables\<close>

text \<open>The entry \<open>e\<close> holds the statistics of the tables of \<open>op\<close>, with names that can be read back.\<close>

definition tab_entry :: "CDBTabDml \<Rightarrow> entry \<Rightarrow> bool" where
  "tab_entry op e \<longleftrightarrow> length (e_key e) = 16 \<and> e_data e = stats_bytes (td_comm_stats op) @ key_image op \<and> length (e_data e) < 2 ^ 31 \<and>
     list_all name_ok (td_names op) \<and> length (td_names op) < 256 \<and> length (td_comm_stats op) = 6 \<and> list_all stat_wf (td_comm_stats op)"

lemma tab_entry_read: "tab_entry op e \<Longrightarrow> de_marshal (e_data e) td = Some op"
  using de_marshal_image [of op td] by (simp add: tab_entry_def)

lemma oldest_len:
  assumes "cache_rep (m_cache s) (xs @ [e])" and "length (e_data e) < 2 ^ 31"
  shows "\<exists>d t. ca_oldest_key s = (0, Some (e_key e, d, t, int (length (e_data e))))"
proof -
  from assms(1) obtain L V where ok: "hm_ok (m_cache s) L V" and es: "xs @ [e] = map V L" by (auto simp: cache_rep_def)
  then have L0: "L \<noteq> []" by (metis Nil_is_map_conv snoc_eq_iff_butlast)
  then have "V (last L) = e" using last_map [of L V] arg_cong [OF es, of last] by simp
  then obtain L' n where L: "L = L' @ [n]" "V n = e" using L0 by (metis append_butlast_last_id)
  then have n: "n \<noteq> -1" "m_key (m_hash_node (m_cache s) n) = e_key e" "m_chunk_len (m_hash_node (m_cache s) n) = int (length (e_data e))"
    using hm_ok_valid [OF ok, of n] hm_ok_fields [OF ok, of n] by simp_all
  have "c_unsigned (int (length (e_data e))) = int (length (e_data e))" using assms(2) by (simp add: c_unsigned_def take_bit_int_eq_self)
  then show ?thesis using hm_ok_tail [OF ok] L n by (simp add: ca_oldest_key_def node_handler2ptr_def node_info_def get_add_list_tail_def last_of_def first_of_def)
qed

lemma get_last:
  assumes "cache_rep (m_cache s) (xs @ [e])" and "length (e_key e) = 16" and "length buf = length (e_data e)" and "length (e_data e) < 2 ^ 31"
  shows "\<exists>r c. ca_get (e_key e) buf (int (length (e_data e))) s = Some ((0, Some r), s\<lparr>m_cache := c\<rparr>) \<and> g_buf r = e_data e \<and> cache_rep c (e # xs)"
proof -
  note t = touch_last [OF cache_rep_distinct [OF assms(1)]]
  from find_node_rep(2) [OF assms(1) t(1)] obtain n c where c: "find_node (e_key e) (m_cache s) = Some (Some n, c)"
    "node_rep c n e (lru_drop (e_key e) (xs @ [e]))" by blast
  moreover have "cache_rep c (e # xs)" using node_rep_cache [OF c(2)] t by (simp add: lru_touch_def)
  ultimately show ?thesis using read_node_rep(1) [OF c(2), of buf] assms(2-4) by (simp add: ca_get_def hash_key_id) blast
qed

lemma dump_tab_rest:
  assumes "cache_rep (m_cache s) (ds @ todo @ [e])" and "\<forall>x \<in> set (ds @ todo @ [e]). tab_entry (T x) x"
    and "first = e_key (last (e # ds))"
  shows "dump_tab_loop junk ms first (e_key e) (int (length (e_data e))) td out s = Some (out @ concat (map (tab_text ms \<circ> T) (e # rev todo)))"
  using assms
proof (induction todo arbitrary: s ds e td out rule: rev_induct)
  case Nil
  have e: "length (e_key e) = 16" "length (e_data e) < 2 ^ 31" "tab_entry (T e) e" using Nil.prems(2) by (auto simp: tab_entry_def)
  have i: "c_int (int (length (e_data e))) = int (length (e_data e))" using e(2) by (intro c_int_small) simp_all
  from get_last [of s ds e "map junk [0..<length (e_data e)]"] Nil.prems(1) e obtain r c where
    r: "ca_get (e_key e) (map junk [0..<length (e_data e)]) (int (length (e_data e))) s = Some ((0, Some r), s\<lparr>m_cache := c\<rparr>)" "g_buf r = e_data e"
    "cache_rep c (e # ds)" by auto
  have l: "e # ds = butlast (e # ds) @ [last (e # ds)]" by simp
  have "last (e # ds) \<in> set (e # ds)" by (rule last_in_set) simp
  then have "last (e # ds) \<in> set (ds @ [] @ [e])" by auto
  then have "length (e_data (last (e # ds))) < 2 ^ 31" using Nil.prems(2) unfolding tab_entry_def by blast
  then obtain d t where "ca_oldest_key (s\<lparr>m_cache := c\<rparr>) = (0, Some (first, d, t, int (length (e_data (last (e # ds))))))"
    using oldest_len [of "s\<lparr>m_cache := c\<rparr>" "butlast (e # ds)" "last (e # ds)"] r(3) l Nil.prems(3) by fastforce
  then show ?case using r(1,2) i tab_entry_read [OF e(3)] by (subst dump_tab_loop.simps) (simp add: Let_def)
next
  case (snoc x todo)
  have e: "length (e_key e) = 16" "length (e_data e) < 2 ^ 31" "tab_entry (T e) e" "length (e_data x) < 2 ^ 31"
    using snoc.prems(2) by (auto simp: tab_entry_def)
  have i: "c_int (int (length (e_data e))) = int (length (e_data e))" using e(2) by (intro c_int_small) simp_all
  from get_last [of s "ds @ todo @ [x]" e "map junk [0..<length (e_data e)]"] snoc.prems(1) e obtain r c where
    r: "ca_get (e_key e) (map junk [0..<length (e_data e)]) (int (length (e_data e))) s = Some ((0, Some r), s\<lparr>m_cache := c\<rparr>)" "g_buf r = e_data e"
    "cache_rep c ((e # ds) @ todo @ [x])" by auto
  obtain d t where o: "ca_oldest_key (s\<lparr>m_cache := c\<rparr>) = (0, Some (e_key x, d, t, int (length (e_data x))))"
    using oldest_len [of "s\<lparr>m_cache := c\<rparr>" "(e # ds) @ todo" x] r(3) e(4) by auto
  have "distinct (map e_key ((e # ds) @ todo @ [x]))" using r(3) by (rule cache_rep_distinct)
  moreover have "last (e # ds) \<in> set (e # ds)" by (rule last_in_set) simp
  ultimately have "e_key x \<noteq> first" using snoc.prems(3) by (fastforce simp: image_iff)
  then have "dump_tab_loop junk ms first (e_key e) (int (length (e_data e))) td out s =
      dump_tab_loop junk ms first (e_key x) (int (length (e_data x))) (T e) (out @ tab_text ms (T e)) (s\<lparr>m_cache := c\<rparr>)"
    using r(1,2) i o tab_entry_read [OF e(3)] by (subst dump_tab_loop.simps) (simp add: Let_def)
  also have "\<dots> = Some ((out @ tab_text ms (T e)) @ concat (map (tab_text ms \<circ> T) (x # rev todo)))"
    using r(3) snoc.prems(2,3) by (intro snoc.IH [where ds = "e # ds"]) auto
  finally show ?case by (simp add: comp_def)
qed

text \<open>
  C11. The loop that prints the tables ends. It asks for the oldest entry until it meets the first one again, and
  each entry it reads moves to the front; so on a well-formed memory it reads every entry once and prints the
  tables, the result and the statistics of each, the oldest first.
\<close>

theorem tab_dump_ends:
  assumes "find (\<lambda>c. sc_name c = sh_name s) confs = Some c" and "cdb_check_shm_conf c" and "sh_data_size s = sc_size c"
    and "cache_rep (shm_data s) es" and "hm_geom (shm_data s) = conf_geom c" and "\<forall>e \<in> set es. tab_entry (T e) e"
  shows "dump_tab_dml env confs junk td ms s = Some (None, shm_title s @ concat (map (tab_text ms \<circ> T) (rev es)))"
proof -
  have "mem_good c (shm_data s)" using assms(4,5) by (auto simp: mem_good_def)
  then obtain ca where ca: "copy_shm_data env confs s = Some (Inr ca)" "m_cache ca = shm_data s" using copy_ok assms(1-3) by blast
  show ?thesis
  proof (cases es rule: rev_cases)
    case Nil
    then show ?thesis using oldest_rep(1) [of ca es] ca assms(4) by (simp add: dump_tab_dml_def Let_def)
  next
    case (snoc xs e)
    then have rep: "cache_rep (m_cache ca) (xs @ [e])" and "tab_entry (T e) e" using ca(2) assms(4,6) by simp_all
    then have "length (e_data e) < 2 ^ 31" unfolding tab_entry_def by blast
    from oldest_len [OF rep this] obtain d t where "ca_oldest_key ca = (0, Some (e_key e, d, t, int (length (e_data e))))" by blast
    moreover have "dump_tab_loop junk ms (e_key e) (e_key e) (int (length (e_data e))) td (shm_title s) ca =
        Some (shm_title s @ concat (map (tab_text ms \<circ> T) (e # rev xs)))"
      using rep assms(6) snoc by (intro dump_tab_rest [where ds = "[]"]) simp_all
    ultimately show ?thesis using ca(1) snoc by (simp add: dump_tab_dml_def Let_def)
  qed
qed

theorem tab_dump_ends_witness:
  "\<exists>g s ca op' ca' st. cdb_init_shm_mgr demo_env ''/data'' (cdb_start Map.empty) = Some (True, g) \<and> s = sm_objs (g_mgr g) ! 6 \<and> sh_ca s = Some ca \<and>
    cdb_tab_dml_add (\<lambda>a b. a) (\<lambda>_. 0) 1 (\<lambda>_. 7) demo_op 1 3 8 9 ca = Some (op', ca') \<and>
    dump_tab_dml demo_env cdb_shm_conf_array (\<lambda>_. 7) demo_op (\<lambda>_. ''0'') (s\<lparr>sh_ca := Some ca'\<rparr>) =
      Some (None, shm_title s @ tab_text (\<lambda>_. ''0'') (demo_op\<lparr>td_comm_stats := st\<rparr>))"
proof -
  define cs h st where "cs = cdb_shm_conf_array" and "h = hash_murmur (key_image demo_op)"
    and "st = stats_add (\<lambda>a b. a) 1 0 True (replicate 6 stat_null)"
  have "fresh_env demo_env" by (simp add: fresh_env_def demo_env_def)
  then obtain g where g: "cdb_init_shm_mgr demo_env ''/data'' (cdb_start Map.empty) = Some (True, g)" "mgr_ok cs (g_mgr g)"
    using start_server_ok [of demo_env Map.empty "''/data''"] by (auto simp: cs_def)
  define s where "s = sm_objs (g_mgr g) ! 6"
  have c6: "cs ! 6 = shm_conf ''cdb_tab_dml_1'' 7 (1 * MB) 1024 1024 1024 512" "length cs = 8" "cs ! 6 \<in> set cs"
    by (simp_all add: cs_def cdb_shm_conf_array_def)
  have s: "sh_name s = sc_name (cs ! 6)" "sh_data_size s = sc_size (cs ! 6)" "opened (cs ! 6) s"
    using g(2) c6(2) by (auto simp: mgr_ok_iff mgr_live_def s_def)
  then obtain ca where ca: "sh_ca s = Some ca" "store_rep 72 ca Map.empty" "hm_geom (m_cache ca) = conf_geom (cs ! 6)" by (auto simp: opened_def)
  then obtain es where es: "cache_rep (m_cache ca) es" "m_cache_dump_min ca < 0" "values_of es = Map.empty" by (auto simp: store_rep_def)
  then have "es = []" using values_of_dom [of es] by simp
  then have p: "plain_rep ca []" using es by (simp add: plain_rep_def)
  have size: "marshal_size demo_op = 393" "list_all name_ok (td_names demo_op)" by (simp_all add: demo_op_def marshal_size_def name_ok_def)
  have wf: "length st = 6" "list_all stat_wf st" using stats_add_wf [of "replicate 6 stat_null" 1] stat_of_bytes_wf(2) by (simp_all add: st_def list_all_length)
  from tab_add_new [OF p, of 1 1 demo_op h "stats_bytes st @ key_image demo_op" "\<lambda>a b. a" "\<lambda>_. 0" 8 3 "\<lambda>_. 7" 9] size(1)
  obtain op' ca' where ca': "cdb_tab_dml_add (\<lambda>a b. a) (\<lambda>_. 0) 1 (\<lambda>_. 7) demo_op 1 3 8 9 ca = Some (op', ca')" "hm_geom (m_cache ca') = conf_geom (cs ! 6)"
    "plain_rep ca' (tab_put (conf_geom (cs ! 6)) h (stats_bytes st @ key_image demo_op) 9 [])" "length (stats_bytes st @ key_image demo_op) = 393"
    by (auto simp: h_def st_def ca(3) lru_find_def)
  define e where "e = (new_entry h (stats_bytes st @ key_image demo_op) 9 0)\<lparr>e_flag := 1\<rparr>"
  have "lru_room (conf_geom (cs ! 6)) [] (stats_bytes st @ key_image demo_op)"
    using ca'(4) by (auto simp: lru_room_def c6(1) shm_conf_def conf_geom_def lru_used_def cost_def chunks_for_def)
  then have "tab_put (conf_geom (cs ! 6)) h (stats_bytes st @ key_image demo_op) 9 [] = [e]"
    by (simp add: tab_put_def lru_put_def lru_touch_def lru_find_def e_def)
  then have rep: "cache_rep (shm_data (s\<lparr>sh_ca := Some ca'\<rparr>)) [e]" using ca'(3) by (simp add: plain_rep_def shm_data_def)
  have ent: "\<forall>x \<in> set [e]. tab_entry (demo_op\<lparr>td_comm_stats := st\<rparr>) x"
    using wf ca'(4) size(2) by (simp add: tab_entry_def e_def new_entry_def h_def hash_murmur_def demo_op_def key_image_def)
  have "find (\<lambda>c. sc_name c = sh_name (s\<lparr>sh_ca := Some ca'\<rparr>)) cs = Some (cs ! 6)"
    using find_distinct [of sc_name cs "cs ! 6"] default_confs_ok(2) c6 s(1) by (simp add: cs_def)
  moreover have "cdb_check_shm_conf (cs ! 6)" using default_confs_ok(1) c6(3) by (simp add: cs_def list_all_iff conf_ok_def)
  ultimately have "dump_tab_dml demo_env cs (\<lambda>_. 7) demo_op (\<lambda>_. ''0'') (s\<lparr>sh_ca := Some ca'\<rparr>) =
      Some (None, shm_title s @ tab_text (\<lambda>_. ''0'') (demo_op\<lparr>td_comm_stats := st\<rparr>))"
    using tab_dump_ends [of "s\<lparr>sh_ca := Some ca'\<rparr>" cs "cs ! 6" "[e]" "\<lambda>_. demo_op\<lparr>td_comm_stats := st\<rparr>"] rep ent s(2) ca'(2)
    by (simp add: shm_data_def shm_title_def)
  then show ?thesis using g(1) ca(1) ca'(1) s_def unfolding cs_def by blast
qed

end
