(* ===== verification/Dump.thy ===== *)
theory Dump
  imports Store
begin

text \<open>
  A dump of the cache to memory and its recovery (\<open>core_dump_mem\<close> and \<open>core_recover_mem\<close> of
  \<open>cdb/tfc_cache_access.cpp\<close>). A dump is a sequence of items: the key, the length in four bytes and the data.
\<close>

definition item :: "entry \<Rightarrow> byte list" where
  "item e = e_key e @ le_bytes 4 (int (length (e_data e))) @ e_data e"

definition image_of :: "entry list \<Rightarrow> byte list" where
  "image_of es = concat (map item es)"

lemma image_of_simps [simp]: "image_of [] = []" "image_of (e # es) = item e @ image_of es"
  by (simp_all add: image_of_def)

lemma item_length: "length (e_key e) = 16 \<Longrightarrow> length (item e) = 20 + length (e_data e)"
  by (simp add: item_def)

text \<open>What the iterator visits: the first entry in any case, then the dirty ones.\<close>

definition dumped :: "entry list \<Rightarrow> entry list" where
  "dumped es = (case es of [] \<Rightarrow> [] | e # es' \<Rightarrow> e # filter (\<lambda>e. e_flag e \<noteq> 0) es')"

lemma dumped_skip: "dumped (dropWhile (\<lambda>e. e_flag e = 0) es) = filter (\<lambda>e. e_flag e \<noteq> 0) es"
  by (induction es) (auto simp: dumped_def)

section \<open>The dump\<close>

lemma add_next_at: "hm_ok c (pre @ n # rest) V \<Longrightarrow> get_add_list_next c n = node_handler2ptr (first_of rest)"
  by (auto simp: get_add_list_next_def hm_ok_def hm_order_def order_ok_def dll_def dest: chain_next)

lemma skip_clean_at:
  assumes "hm_ok c (pre @ rest) V"
  shows "skip_clean c (node_handler2ptr (first_of rest)) = Some (node_handler2ptr (first_of (dropWhile (\<lambda>n. e_flag (V n) = 0) rest)))"
  using assms
proof (induction rest arbitrary: pre)
  case Nil
  then show ?case by (subst skip_clean.simps) (simp add: node_handler2ptr_def)
next
  case (Cons n rest)
  have "n \<noteq> -1" "m_flag (m_hash_node c n) = e_flag (V n)"
    using hm_ok_valid [OF Cons.prems, of n] hm_ok_fields(5) [OF Cons.prems, of n] by simp_all
  moreover have "flag_code NODE_FLAG_UNCHG = 0" by simp
  ultimately show ?case using Cons.IH [of "pre @ [n]"] Cons.prems add_next_at [OF Cons.prems]
    by (subst skip_clean.simps) (simp add: node_handler2ptr_def)
qed

lemma dump_item:
  assumes "hm_ok c L V" and "n \<in> set L" and "length (e_key (V n)) = 16" and "length buff < 2 ^ 31"
    and "p + length (item (V n)) \<le> length buff"
  shows "core_dump_mem_loop c (int (length buff)) (-1) r (Some n) buff (int p) = do {
      it' \<leftarrow> it_next c (Some n);
      core_dump_mem_loop c (int (length buff)) (-1) r it' (take p buff @ item (V n) @ drop (p + length (item (V n))) buff) (int (p + length (item (V n))))
    }"
proof -
  define d where "d = e_data (V n)"
  have len: "length (item (V n)) = 20 + length d" using assms(3) by (simp add: item_length d_def)
  have room: "p + 20 + length d \<le> length buff" using assms(5) len by simp
  have u: "c_unsigned (int (length buff) - int p - 20) = int (length (drop (p + 20) buff))" "c_unsigned (int (length d)) = int (length d)"
    using room assms(4) by (simp_all add: c_unsigned_def)
  have i: "c_int (int (length (drop (p + 20) buff))) = int (length (drop (p + 20) buff))" "c_int (int (p + 20 + length d)) = int (p + 20 + length d)"
    using room assms(4) by (intro c_int_small; simp)+
  have get: "it_get c (Some n) (drop (p + 20) buff) (int (length (drop (p + 20) buff))) =
      Some (0, Some (e_key (V n), d @ drop (p + 20 + length d) buff, int (length d)))"
    using merge_node_data_spec(1) [OF assms(1,2), of "drop (p + 20) buff"] hm_ok_fields(1) [OF assms(1,2)] room i(1) u(2)
    by (simp add: it_get_def d_def add.commute)
  define b1 where "b1 = take (p + 20) buff @ d @ drop (p + 20 + length d) buff"
  have b1: "length b1 = length buff" using room by (simp add: b1_def)
  have m1: "memcpy b1 p (e_key (V n)) 0 16 = Some (take p b1 @ e_key (V n) @ drop (p + 16) b1)"
    using assms(3) b1 room by simp
  have m2: "memcpy (take p b1 @ e_key (V n) @ drop (p + 16) b1) (p + 16) (le_bytes 4 (int (length d))) 0 4 =
      Some (take p buff @ item (V n) @ drop (p + 20 + length d) buff)"
    using assms(3) b1 room by (simp add: b1_def item_def d_def len min_def add.assoc)
  have at: "nat (int p + 20) = p + 20" "nat (int p) = p" "int p + 20 + int (length d) = int (p + 20 + length d)" by simp_all
  have n: "p + length (item (V n)) = p + 20 + length d" using len by simp
  show ?thesis
    by (subst core_dump_mem_loop.simps)
      (simp only: Let_def at u(1) get bind.bind_lunit prod.case option.case b1_def [symmetric] m1 m2 i(2) n simp_thms if_False option.distinct)
qed

lemma map_dropWhile_flag: "map V (dropWhile (\<lambda>n. e_flag (V n) = 0) L) = dropWhile (\<lambda>e. e_flag e = 0) (map V L)"
  by (induction L) auto

lemma dump_loop:
  assumes "hm_ok c (pre @ rest) V" and "\<forall>n \<in> set rest. length (e_key (V n)) = 16" and "length buff < 2 ^ 31"
    and "p + length (image_of (dumped (map V rest))) \<le> length buff"
  shows "core_dump_mem_loop c (int (length buff)) (-1) r (node_handler2ptr (first_of rest)) buff (int p) =
    Some (int (p + length (image_of (dumped (map V rest)))), take p buff @ image_of (dumped (map V rest)) @
      drop (p + length (image_of (dumped (map V rest)))) buff)"
  using assms
proof (induction "length rest" arbitrary: pre rest buff p rule: less_induct)
  case less
  show ?case
  proof (cases rest)
    case Nil
    then show ?thesis by (subst core_dump_mem_loop.simps) (simp add: node_handler2ptr_def dumped_def)
  next
    case (Cons n ns)
    define ms where "ms = dropWhile (\<lambda>n. e_flag (V n) = 0) ns"
    define k where "k = length (item (V n))"
    have ok: "hm_ok c (pre @ n # ns) V" using less.prems(1) Cons by simp
    have n: "n \<noteq> -1" using hm_ok_valid [OF ok, of n] by simp
    have img: "image_of (dumped (map V rest)) = item (V n) @ image_of (dumped (map V ms))"
      using dumped_skip [of "map V ns"] by (simp add: Cons ms_def map_dropWhile_flag dumped_def)
    define b where "b = take p buff @ item (V n) @ drop (p + k) buff"
    have room: "p + k + length (image_of (dumped (map V ms))) \<le> length buff" using less.prems(4) by (simp add: img k_def)
    then have b: "length b = length buff" by (simp add: b_def k_def)
    have "ns = takeWhile (\<lambda>n. e_flag (V n) = 0) ns @ ms" by (simp add: ms_def)
    then have ok': "hm_ok c ((pre @ n # takeWhile (\<lambda>n. e_flag (V n) = 0) ns) @ ms) V" using ok by simp
    have "length ms < length rest" using length_dropWhile_le [of "\<lambda>n. e_flag (V n) = 0" ns] by (simp add: ms_def Cons less_Suc_eq_le)
    moreover have "\<forall>n \<in> set ms. length (e_key (V n)) = 16" using less.prems(2) Cons by (auto simp: ms_def dest: set_dropWhileD)
    ultimately have IH: "core_dump_mem_loop c (int (length b)) (-1) r (node_handler2ptr (first_of ms)) b (int (p + k)) =
        Some (int (p + k + length (image_of (dumped (map V ms)))), take (p + k) b @ image_of (dumped (map V ms)) @
          drop (p + k + length (image_of (dumped (map V ms)))) b)"
      using less.hyps [OF _ ok', of b "p + k"] less.prems(3) room b by simp
    have "it_next c (Some n) = Some (node_handler2ptr (first_of ms))"
      using skip_clean_at [of c "pre @ [n]" ns V] ok add_next_at [OF ok] by (simp add: it_next_def ms_def)
    moreover have "take (p + k) b = take p buff @ item (V n)" "\<And>j. drop (p + k + j) b = drop (p + k + j) buff"
      using room by (simp_all add: b_def k_def add.commute add.left_commute)
    ultimately show ?thesis using dump_item [OF ok, of n buff p r] IH b less.prems(2,3) room n Cons
      by (simp add: img [unfolded Cons list.map] node_handler2ptr_def add.assoc flip: k_def b_def)
  qed
qed

lemma dump_mem:
  assumes "cache_rep (m_cache s) es" and "\<forall>e \<in> set es. length (e_key e) = 16" and "buff \<noteq> []" and "length buff < 2 ^ 31"
    and "length (image_of (dumped es)) \<le> length buff"
  shows "core_dump_mem (Some buff) (int (length buff)) (-1) r s =
    Some (int (length (image_of (dumped es))), Some (image_of (dumped es) @ drop (length (image_of (dumped es))) buff))"
proof -
  obtain L V where ok: "hm_ok (m_cache s) L V" "es = map V L" using assms(1) by (auto simp: cache_rep_def)
  have "it_begin (m_cache s) = node_handler2ptr (first_of L)"
    using ok(1) by (auto simp: it_begin_def get_add_list_head_def hm_ok_def hm_order_def order_ok_def dll_def dest!: chain_first)
  then show ?thesis using dump_loop [of "m_cache s" "[]" L V buff 0 r] ok assms by (simp add: core_dump_mem_def)
qed

section \<open>The recovery\<close>

definition recovered :: "int \<Rightarrow> entry \<Rightarrow> entry" where
  "recovered now e = (new_entry (e_key e) (e_data e) now 0)\<lparr>e_flag := 1\<rparr>"

lemma plain_set_new:
  assumes "plain_rep s es" and "length (e_key e) = 16" and "length (e_data e) < 2 ^ 31" and "e_key e \<notin> e_key ` set es"
    and "lru_room (hm_geom (m_cache s)) es (e_data e)"
  shows "\<exists>s'. ca_set (e_key e) (e_data e @ junk) (int (length (e_data e))) NODE_FLAG_DIRTY now s = Some (0, s') \<and>
    hm_geom (m_cache s') = hm_geom (m_cache s) \<and> plain_rep s' (recovered now e # es)"
proof -
  define n where "n = int (length (e_data e))"
  have len: "c_int n = n" using assms(3) by (intro c_int_small) (simp_all add: n_def)
  have v: "0 \<le> n" "nat n \<le> length (e_data e @ junk)" "take (nat n) (e_data e @ junk) = e_data e" by (simp_all add: n_def)
  have c: "cache_rep (m_cache s) es" "m_cache_dump_min s < 0" using assms(1) by (simp_all add: plain_rep_def)
  have "lru_find (e_key e) es = None" using assms(4) by (simp add: lru_find_def find_None_iff image_iff) metis
  then have "lru_put (hm_geom (m_cache s)) (e_key e) (e_data e) now es = Some (new_entry (e_key e) (e_data e) now 0, es)"
    using assms(5) by (simp add: lru_put_def)
  from store_node_rep(2) [OF c(1) v(1,2), of "e_key e", unfolded v(3), OF this] obtain m c' where
    c': "store_node (e_key e) (e_data e @ junk) n now (m_cache s) = Some (Some m, c')" "node_rep c' m (new_entry (e_key e) (e_data e) now 0) es"
    "hm_geom c' = hm_geom (m_cache s)" by blast
  have "cache_rep (set_node_flag m NODE_FLAG_DIRTY c') (recovered now e # es)" "hm_geom (set_node_flag m NODE_FLAG_DIRTY c') = hm_geom (m_cache s)"
    using node_rep_cache [OF node_rep_flag [OF c'(2), of NODE_FLAG_DIRTY]] c'(3) by (simp_all add: frame_simps recovered_def)
  from plain_step [OF assms(1) this] show ?thesis using c'(1) c(2) assms(2) len by (simp add: ca_set_def hash_key_id flip: n_def)
qed

lemma item_head_at:
  assumes "buff = pre @ item e @ junk" and "length (e_key e) = 16" and "length (e_data e) < 2 ^ 31"
  shows "item_head buff (int (length pre)) = Some (e_key e, int (length (e_data e)))"
  using assms le_int_le_bytes [of 4 "int (length (e_data e))"] by (simp add: item_head_def item_def)

lemma recover_loop:
  assumes "plain_rep s xs" and "\<forall>e \<in> set es. length (e_key e) = 16 \<and> e_data e \<noteq> []" and "distinct (map e_key (es @ xs))"
    and "int (length xs + length es) \<le> fst (fst g)" and "lru_used g xs + lru_used g es \<le> fst (snd g)" and "hm_geom (m_cache s) = g"
    and "buff = pre @ image_of es @ junk" and "length buff < 2 ^ 31" and "sz = int (length pre + length (image_of es))"
  shows "\<exists>s'. core_recover_mem_loop buff sz now (int (length pre)) s = Some (sz, s') \<and> hm_geom (m_cache s') = g \<and>
    plain_rep s' (rev (map (recovered now) es) @ xs)"
  using assms
proof (induction es arbitrary: s xs pre)
  case Nil
  then show ?case by (subst core_recover_mem_loop.simps) simp
next
  case (Cons e es)
  have e: "length (e_key e) = 16" "e_data e \<noteq> []" "length (item e) = 20 + length (e_data e)" "e_key e \<notin> e_key ` set xs"
    using Cons.prems(2,3) item_length [of e] by simp_all
  have buff: "buff = pre @ item e @ image_of es @ junk" using Cons.prems(7) by simp
  have len: "length (e_data e) < 2 ^ 31" using Cons.prems(8) buff e(3) by simp
  have used: "lru_used g (e # es) = cost g (e_data e) + lru_used g es" "\<And>ys. lru_used g (recovered now e # ys) = cost g (e_data e) + lru_used g ys"
    by (simp_all add: lru_used_def recovered_def new_entry_def)
  have pos: "0 \<le> lru_used g es"
  proof -
    have "0 < snd (snd g)" using cache_rep_bounds(1) [of "m_cache s" xs] Cons.prems(1,6) by (simp add: plain_rep_def)
    then have "0 \<le> cost g d" for d using chunks_for_bounds(3) [of "snd (snd g)"] by (simp add: cost_def)
    then show ?thesis unfolding lru_used_def by (intro sum_list_nonneg) auto
  qed
  have "lru_room (hm_geom (m_cache s)) xs (e_data e)"
    using Cons.prems(4-6) used(1) pos e(2) by (simp add: lru_room_def)
  from plain_set_new [OF Cons.prems(1) e(1) len e(4) this, of "image_of es @ junk" now] obtain s1 where
    s1: "ca_set (e_key e) (e_data e @ image_of es @ junk) (int (length (e_data e))) NODE_FLAG_DIRTY now s = Some (0, s1)"
    "hm_geom (m_cache s1) = g" "plain_rep s1 (recovered now e # xs)" using Cons.prems(6) by auto
  have IH: "\<exists>s'. core_recover_mem_loop buff sz now (int (length (pre @ item e))) s1 = Some (sz, s') \<and> hm_geom (m_cache s') = g \<and>
      plain_rep s' (rev (map (recovered now) es) @ recovered now e # xs)"
    using Cons.prems used s1(2,3) by (intro Cons.IH) (auto simp: recovered_def new_entry_def)
  have sz: "sz - int (length pre) = int (length (item e) + length (image_of es))" using Cons.prems(9) by simp
  have "drop (length pre + 20) buff = e_data e @ image_of es @ junk" using buff e(1) by (simp add: item_def)
  moreover have "c_unsigned (int (length (e_data e))) = int (length (e_data e))" using len by (simp add: c_unsigned_def)
  moreover have "int (length pre) + 20 + int (length (e_data e)) = int (length (pre @ item e))" using e(3) by simp
  moreover have "\<not> int (length (e_data e)) + int (length (image_of es)) \<le> 0" using e(2) by (cases "e_data e") simp_all
  ultimately have "core_recover_mem_loop buff sz now (int (length pre)) s = core_recover_mem_loop buff sz now (int (length (pre @ item e))) s1"
    using item_head_at [OF buff e(1) len] s1(1) sz e(2,3) by (subst core_recover_mem_loop.simps) (simp add: nat_int_add add.assoc)
  then show ?case using IH by simp
qed

lemma lru_used_filter: "(\<And>d. 0 \<le> cost g d) \<Longrightarrow> lru_used g (filter P es) \<le> lru_used g es"
  by (induction es) (auto simp: lru_used_def intro: order_trans add_increasing)

lemma cache_rep_nodes: "cache_rep c es \<Longrightarrow> int (length es) \<le> fst (fst (hm_geom c))"
proof -
  assume "cache_rep c es"
  then obtain L F where "length es = length L" "mset (L @ F) = mset (node_offs c)" "node_room c" by (auto simp: cache_rep_def hm_ok_def hm_nodes_def)
  moreover from this have "length L + length F = length (node_offs c)" by (metis length_append size_mset)
  ultimately have "length es + length F = nat (m_node_total c)" "0 \<le> m_node_total c" by (simp_all add: node_offs_def node_room_def)
  then show ?thesis by (simp add: hm_geom_def)
qed

lemma dumped_facts:
  assumes "cache_rep c es"
  shows "distinct (map e_key (dumped es))" and "set (dumped es) \<subseteq> set es" and "int (length (dumped es)) \<le> fst (fst (hm_geom c))"
    and "lru_used (hm_geom c) (dumped es) \<le> fst (snd (hm_geom c))"
proof -
  define g where "g = hm_geom c"
  have "0 \<le> cost g d" for d
    using cache_rep_bounds(1) [OF assms] chunks_for_bounds(3) [of "snd (snd g)"] by (simp add: cost_def g_def)
  then have "lru_used g (dumped es) \<le> lru_used g es"
    using lru_used_filter [of g] by (auto simp: dumped_def lru_used_def split: list.split)
  then show "lru_used (hm_geom c) (dumped es) \<le> fst (snd (hm_geom c))" using cache_rep_bounds(2) [OF assms] by (simp add: g_def)
  have "length (dumped es) \<le> length es" by (auto simp: dumped_def split: list.split)
  then show "int (length (dumped es)) \<le> fst (fst (hm_geom c))" using cache_rep_nodes [OF assms] by simp
  show "set (dumped es) \<subseteq> set es" by (auto simp: dumped_def split: list.split)
  show "distinct (map e_key (dumped es))" using cache_rep_distinct [OF assms] by (auto simp: dumped_def distinct_map_filter split: list.split)
qed

text \<open>
  C13. A dump can be recovered. \<open>core_dump_mem\<close> of a cache into a buffer with room, then \<open>core_recover_mem\<close> of the bytes
  it wrote into an empty cache of the same geometry: both end, all bytes are consumed, and the new cache
  holds the keys and data of the dumped entries, dirty and in the opposite order of use. The dumped entries are
  the dirty ones and, dirty or not, the most recently used one.
\<close>

theorem mem_dump_roundtrip:
  assumes "cache_rep (m_cache s) es" and "\<forall>e \<in> set es. length (e_key e) = 16 \<and> e_data e \<noteq> []" and "buff \<noteq> []" and "length buff < 2 ^ 31"
    and "length (image_of (dumped es)) \<le> length buff" and "plain_rep t []" and "hm_geom (m_cache t) = hm_geom (m_cache s)"
  shows "\<exists>n b t'. core_dump_mem (Some buff) (int (length buff)) (-1) r s = Some (n, Some b) \<and>
    core_recover_mem (Some b) n now t = Some (n, t') \<and> plain_rep t' (rev (map (recovered now) (dumped es)))"
proof -
  define img where "img = image_of (dumped es)"
  note d = dumped_facts [OF assms(1)]
  have dump: "core_dump_mem (Some buff) (int (length buff)) (-1) r s = Some (int (length img), Some (img @ drop (length img) buff))"
    using dump_mem [of s es buff r] assms(1-5) by (simp add: img_def)
  have "\<forall>e \<in> set (dumped es). length (e_key e) = 16 \<and> e_data e \<noteq> []" using assms(2) d(2) by blast
  moreover have "length (img @ drop (length img) buff) < 2 ^ 31" using assms(4,5) by (simp add: img_def)
  ultimately have "\<exists>t'. core_recover_mem_loop (img @ drop (length img) buff) (int (length img)) now (int (length ([] :: byte list))) t = Some (int (length img), t') \<and>
      hm_geom (m_cache t') = hm_geom (m_cache s) \<and> plain_rep t' (rev (map (recovered now) (dumped es)) @ [])"
    using d assms(6,7) by (intro recover_loop [where junk = "drop (length img) buff"]) (simp_all add: img_def lru_used_def)
  then show ?thesis using dump by (auto simp: core_recover_mem_def)
qed

theorem mem_dump_roundtrip_witness:
  "\<exists>s n b t'. ca_set (uin_key 1) [1, 2, 3] 3 NODE_FLAG_DIRTY 7 demo_ca = Some (0, s) \<and>
    core_dump_mem (Some (replicate 100 0)) 100 (-1) 0 s = Some (n, Some b) \<and>
    core_recover_mem (Some b) n 9 (demo_ca\<lparr>m_cache_dump_min := -1\<rparr>) = Some (n, t') \<and>
    plain_rep t' [(new_entry (uin_key 1) [1, 2, 3] 9 0)\<lparr>e_flag := 1\<rparr>]"
proof -
  define e where "e = (new_entry (uin_key 1) [1, 2, 3] 7 0)\<lparr>e_flag := 1\<rparr>"
  obtain s R where s: "ca_set (uin_key 1) [1, 2, 3] 3 NODE_FLAG_DIRTY 7 demo_ca = Some (0, s)" "ca_rep s [e] R"
    using demo_set unfolding e_def by blast
  have "length (e_key e) = 16" "e_data e = [1, 2, 3]" by (simp_all add: e_def new_entry_def uin_key_def)
  moreover have "plain_rep (demo_ca\<lparr>m_cache_dump_min := -1\<rparr>) []" using demo_ca_rep by (simp add: plain_rep_def ca_rep_def)
  moreover have "hm_geom (m_cache demo_ca) = hm_geom (m_cache s)"
    using ca_set_refines [OF demo_ca_rep, where key = "uin_key 1" and n = 3 and data = "[1, 2, 3]" and now = 7 and fl = NODE_FLAG_DIRTY] s(1)
    by (auto simp: uin_key_def MAX_BINLOG_ITEM_LEN_def conf_def split: option.splits)
  ultimately show ?thesis
    using mem_dump_roundtrip [of s "[e]" "replicate 100 0" "demo_ca\<lparr>m_cache_dump_min := -1\<rparr>" 0 9] s
    by (auto simp: dumped_def item_length ca_rep_def recovered_def e_def new_entry_def)
qed

end
