(* ===== verification/Spec2Isabelle.thy ===== *)
theory Spec2Isabelle
  imports Recovery SpinLock MD5 Tools Dump
begin

text \<open>
  A verification library for the statistics module of this MySQL 5.1 fork: the shared-memory cache under
  \<open>src/cdb/\<close>, the places of the server that call it and the program under \<open>src/cdb-tools/\<close> that prints what
  it counted.

  \<^bold>\<open>The program.\<close> The server counts statements and connections. Each kind of statistics has a pair of shared
  memories: the server writes to the current one, a thread exchanges the two in regular rounds, and the
  printing program reads the standby one. A memory holds a cache of fixed geometry: a hash map of nodes in
  order of use, whose values lie in chained chunks of a pool. The cache can log its changes to files and
  rebuild itself from them.

  \<^bold>\<open>Conventions.\<close> A pointer into a pool is an offset or a position and the handler -1 is the null handler. The
  result \<open>None\<close> of an operation is undefined behaviour, an uncaught exception or a loop that never ends. Loops
  that may not end are partial functions in the option monad; there is no fuel. That the
  loops of the pool, of the lookups, of reading and replaying the log, of the iterator and of the printing program
  end is part of the theorems about them; for the loops of the dumps to files and of single
  buckets, of marking or deleting a range of keys, of skipping records by time and of the bucket statistics no theorem
  says so. A member \<open>x_\<close> or \<open>_x\<close> is the field \<open>m_x\<close>. Values of uninitialised variables and of fresh memory are arguments,
  and so are the answers of the operating system (the record \<open>shm_env\<close>), the time, and addition and conversion of
  \<open>double\<close>, whose comparison is modelled on its 64 bits. Integers have the width of the source where it matters.

  \<^bold>\<open>Theories.\<close>
  \<^item> \<open>Prelude\<close>: memory copies, bytes of integers, chains and doubly linked lists, with the locales \<open>link_field\<close> and
    \<open>double_links\<close> for the link fields of a pool.
  \<^item> \<open>ChunkAlloc\<close> (\<open>tfc_cache_chunk_alloc\<close>): the pool of chunks. \<open>alloc_ok\<close> is its invariant; the locale
    \<open>chunk_store\<close> is what the hash map relies on. Values are stored and read back, malloc and free restore
    the pool, and \<open>verify_pool_data\<close> accepts exactly the pools whose sizes and free list match.
  \<^item> \<open>HashMap\<close>, \<open>HashMapLists\<close>, \<open>HashMapInv\<close>, \<open>HashMapOps\<close> (\<open>tfc_cache_hash_map\<close>): the operations, the lists
    inside the map, the invariant \<open>hm_ok\<close> and what each operation does to the entries.
  \<^item> \<open>Files\<close>, \<open>Binlog\<close>, \<open>BinlogRep\<close> (\<open>tfc_binlog\<close>): the C file functions, the log and its rotation, and the log
    as lists of records.
  \<^item> \<open>CacheAccess\<close>, \<open>CacheDump\<close> (\<open>tfc_cache_access\<close>): the operations on keys, dumps, recovery and timers.
  \<^item> \<open>CacheRep\<close>, \<open>CacheLru\<close>, \<open>CacheDemo\<close>: the refinement of the cache to a list of entries, most recently used
    first (\<open>cache_rep\<close>, \<open>ca_rep\<close>), and a small concrete cache.
  \<^item> \<open>Recovery\<close> and this theory: a restart rebuilds the cache from its log.
  \<^item> \<open>Dump\<close>: a dump to memory can be recovered; it holds the dirty entries and the first one.
  \<^item> \<open>ShmMap\<close>, \<open>Store\<close> (\<open>tfc_shm_map.h\<close>): the typed map and its iterator, which visits every entry once; the
    locale \<open>fixed_store\<close> is the contract of the map for values of one size, interpreted on its operations.
  \<^item> \<open>Murmur\<close>, \<open>MD5\<close>, \<open>Comm\<close>, \<open>ConfigFile\<close>, \<open>SpinLock\<close> (\<open>MurmurHash3\<close>, \<open>tfc_md5\<close>, \<open>tfc_base_comm.h\<close>,
    \<open>tfc_base_config_file\<close>, \<open>tfc_spin_lock.h\<close>): hashing, digests, strings and numbers, the configuration file
    with its errors, and the lock as a step relation of processes.
  \<^item> \<open>Stats\<close>, \<open>TabDml\<close> (second half of \<open>cdb.cpp\<close>): the counters of statements, connections, clients and tables.
    They refine a step on a map from keys to statistics, and the totals are exact modulo two to the 32.
  \<^item> \<open>ShmMgr\<close> (\<open>cdb_shm_mgr\<close>, first half of \<open>cdb.cpp\<close>): the memories and their pairs, configuration, start, attach,
    and the rounds of the switch thread, with the meta data and the map file they write.
  \<^item> \<open>Server\<close> (\<open>cdb_stat_instance_dml_func\<close> of \<open>sql/sql_parse.cc\<close>, the connection outcomes of \<open>sql/mysqld.cc\<close> and
    \<open>sql/sql_connect.cc\<close>): the invariant \<open>server_ok\<close> of the running server. Start establishes it, and every
    event (\<open>server_event\<close>) runs and keeps it.
  \<^item> \<open>Tools\<close> (\<open>cdb-tools/cdb_shm_dump.cpp\<close>): the printing program. What was counted before a round is what it
    prints after it, and its loop over the tables ends.

  \<^bold>\<open>Bounds.\<close> Keys have 16 bytes and fixed entries 72. Lengths are below two to the 31, the range of the \<open>int\<close> they
  are passed in. Path names are limited to 4043 characters so that the meta data fit in their 4096 bytes,
  which the code does not check. The spin lock excludes for at most 129 processes, and fails for 130.

  \<^bold>\<open>What is assumed.\<close> Counting functions and rounds are atomic steps: \<open>Server\<close> interleaves whole calls. The code reads
  the current memory of a pair before it takes the lock, so a thread that is delayed there across rounds is
  outside the model. That the hash of a key is unique is assumed where totals per key are stated.

  \<^bold>\<open>Not modelled.\<close>
  \<^item> The MySQL 5.1 server, its storage engines, libraries and clients, apart from the hooks: third-party code that
    the module does not depend on.
  \<^item> Builds with \<open>_CACHE_COMPLETE_CHECK\<close> or \<open>_TDC_DISKCACHE_\<close>, which the makefiles do not define.
  \<^item> Functions that only print or that only wrap system calls: \<open>print_stat\<close>, \<open>t2s\<close>, \<open>now\<close>, \<open>MD5Output\<close>,
    \<open>md5_file\<close>, \<open>shm_spin_lock_init\<close>, and \<open>get_memory\<close>, which hands out a raw pointer.
  \<^item> \<open>warning_80persent\<close> and \<open>get_used_percent\<close>, which compute with \<open>float\<close>, and \<open>sub_path\<close> of the configuration, which
    dereferences an uninitialised iterator.
  \<^item> The raw copy that the printing program writes with a third argument, its messages on the standard error, and
    the other tools and scripts of \<open>cdb-tools\<close>.
\<close>

text \<open>C1. Crash recovery. A cache that starts empty with an empty log and only logs
  (\<open>_cache_dump_min = 0\<close>) runs any sequence of \<open>set\<close> (both overloads), \<open>del\<close>, \<open>mark_clean\<close> and \<open>get\<close>;
  the records fit in one log file. Then no call fails to return, and \<open>StartUp\<close> of a new process, with a
  new empty pool of the same geometry and the same log files, returns 0 and rebuilds a cache in which
  every \<open>get\<close> gives the same return value, dirty flag, length and bytes as before the restart.\<close>

theorem crash_recovery:
  assumes "ca_rep s [] (replicate (Suc n) [])" and "m_cache_dump_min s = 0" and "\<forall>x\<in>set xs. cmd_ok (snd x)"
    and "(\<Sum>x\<leftarrow>xs. cmd_size (snd x)) < m_maxlog_size (m_binlog s)"
    and "cache_rep c []" and "hm_geom c = hm_geom (m_cache s)" and "length buff = nat MAX_BINLOG_ITEM_LEN"
    and "c_string 255 (m_log_basename (m_binlog s)) = m_log_basename (m_binlog s)"
  shows "\<exists>s' t. run xs s = Some s' \<and> StartUp key now (restart c buff s') = Some (0, t) \<and>
    (\<forall>k b. length k = 16 \<and> length b < 2 ^ 31 \<longrightarrow> get_view k b t = get_view k b s')"
proof -
  define g where "g = hm_geom (m_cache s)"
  have "logs s" "log_tells g now [] (replicate (Suc n) [])"
    using assms(2) by (auto simp: logs_def log_tells_def intro!: exI [of _ "[]"])
  with run_log_tells [OF assms(1) _ assms(3), of now] assms(4) obtain s' es R where
    s': "run xs s = Some s'" "conf s' = conf s" "ca_rep s' es R" "log_tells g now es R" unfolding g_def by auto
  from s'(4) obtain ops where ops: "map snd (concat (rev R)) = map op_bytes ops" "\<forall>p\<in>set ops. op_ok p"
    "views es = views (fold (lru_replay g now) ops [])" by (auto simp: log_tells_def)
  have base: "c_string 255 (m_log_basename (m_binlog s')) = m_log_basename (m_binlog s')"
    using assms(8) s'(2) by (simp add: conf_def)
  have "\<not> has_dump (restart c buff s')" using s'(2) assms(2) by (simp add: has_dump_def restart_def conf_def)
  then obtain t where t: "StartUp key now (restart c buff s') = Some (0, t)"
    "cache_rep (m_cache t) (fold (lru_replay g now) ops [])"
    using StartUp_replays [OF restart_rep [OF s'(3) assms(5,7) base] _ _ ops(1,2), of key now] assms(6)
    by (auto simp: restart_def g_def)
  have c: "cache_rep (m_cache s') es" using s'(3) by (simp add: ca_rep_def)
  have "get_view k b t = get_view k b s'" if "length k = 16" "length b < 2 ^ 31" for k b
    using get_view_rep [OF t(2) that] get_view_rep [OF c that] views_find [OF ops(3) cache_rep_distinct [OF c], of k]
    by simp
  then show ?thesis using s'(1) t(1) by blast
qed

text \<open>A run on a concrete cache: two nodes, two buckets, four chunks of four bytes.\<close>

theorem crash_recovery_witness:
  "\<exists>s' t. run [(7, CSet (uin_key 1) [1, 2, 3, 4, 5]), (8, CClean (uin_key 1)), (9, CSetExpire (uin_key 2) [6] 99),
      (9, CDel (uin_key 1)), (10, CGet (uin_key 2) [0, 0])] demo_ca = Some s' \<and>
    StartUp (uin_key 0) 11 (restart demo_hm (replicate (nat MAX_BINLOG_ITEM_LEN) 0) s') = Some (0, t) \<and>
    (\<forall>k b. length k = 16 \<and> length b < 2 ^ 31 \<longrightarrow> get_view k b t = get_view k b s')"
  by (rule crash_recovery [where n = 1])
    (use demo_ca_rep demo_hm_rep in \<open>simp_all add: demo_ca_fields c_string_def uin_key_def MAX_BINLOG_ITEM_LEN_def\<close>)

end
